(* ===== verification/Go_Base.thy ===== *)
theory Go_Base
  imports Main "HOL-Library.Word"
begin

text \<open>
  The prelude of the development: the parts of the Go language the sources use, and the
  generic lemmas the components share.
  \<^item> the result of a call (\<open>Ret\<close>, \<open>Panic\<close>, \<open>Block\<close>), its sequencing \<open>go_bind\<close> and the
    loop \<open>go_foldM\<close> over a slice;
  \<^item> indexing and slicing with Go's bounds checks;
  \<^item> strings as byte sequences and the conversions between the two;
  \<^item> status words, tested and changed with \<open>&\<close>, \<open>|\<close> and \<open>^\<close>, and the locale of one flag of
    such a word;
  \<^item> little-endian encodings of 64-bit integers.
\<close>

unbundle bit_operations_syntax

named_theorems go_simps \<open>sequencing of calls\<close>
named_theorems flag_simps \<open>tests and updates of status words\<close>
named_theorems le_simps \<open>little-endian bytes\<close>

subsection \<open>Results of calls\<close>

text \<open>
  A call returns a value, panics, or cannot go on before another goroutine moves (a send on
  a full channel, a receive from an empty one): \<open>Block\<close>.
\<close>

datatype go_panic =
    IndexOutOfRange
  | SliceBounds
  | NilDereference
  | NilMapWrite
  | SendOnClosedChannel
  | TypeAssertion
  | LogPanic string

datatype 'a go = Ret 'a | Panic go_panic | Block

primrec go_bind :: "'a go \<Rightarrow> ('a \<Rightarrow> 'b go) \<Rightarrow> 'b go" where
  "go_bind (Ret x) f = f x"
| "go_bind (Panic p) f = Panic p"
| "go_bind Block f = Block"

lemma go_bind_assoc [go_simps]: "go_bind (go_bind m f) g = go_bind m (\<lambda>x. go_bind (f x) g)"
  by (cases m) simp_all

lemma go_bind_Ret [simp]: "go_bind m Ret = m"
  by (cases m) simp_all

lemma go_bind_eq_Ret [simp]: "go_bind m f = Ret y \<longleftrightarrow> (\<exists>x. m = Ret x \<and> f x = Ret y)"
  by (cases m) simp_all

lemma go_bind_cong [fundef_cong]:
  "m = m' \<Longrightarrow> (\<And>x. m' = Ret x \<Longrightarrow> f x = g x) \<Longrightarrow> go_bind m f = go_bind m' g"
  by (cases m') simp_all

lemma go_bind_cong_Ret:
  "(\<And>x. m = Ret x \<Longrightarrow> f x = g x) \<Longrightarrow> go_bind m f = go_bind m g"
  by (rule go_bind_cong [OF refl])

lemma go_split: "P (go_bind m f) \<longleftrightarrow>
    (\<forall>x. m = Ret x \<longrightarrow> P (f x)) \<and> (\<forall>p. m = Panic p \<longrightarrow> P (Panic p)) \<and> (m = Block \<longrightarrow> P Block)"
  by (cases m) simp_all

text \<open>\<open>for _, x := range xs { s = f(s, x) }\<close>, ended by the first call that does not return.\<close>

fun go_foldM :: "('s \<Rightarrow> 'a \<Rightarrow> 's go) \<Rightarrow> 's \<Rightarrow> 'a list \<Rightarrow> 's go" where
  "go_foldM f s [] = Ret s"
| "go_foldM f s (x # xs) = go_bind (f s x) (\<lambda>s'. go_foldM f s' xs)"

lemma go_foldM_append [go_simps]:
  "go_foldM f s (xs @ ys) = go_bind (go_foldM f s xs) (\<lambda>s'. go_foldM f s' ys)"
  by (induction xs arbitrary: s) (simp_all add: go_bind_assoc)

lemma go_foldM_inv:
  assumes step: "\<And>s x s'. x \<in> set xs \<Longrightarrow> P s \<Longrightarrow> f s x = Ret s' \<Longrightarrow> P s'"
    and "P s" and "go_foldM f s xs = Ret s'"
  shows "P s'"
  using assms
proof (induction xs arbitrary: s)
  case Nil
  then show ?case by simp
next
  case (Cons x xs)
  from Cons.prems(3) obtain t where t: "f s x = Ret t" "go_foldM f t xs = Ret s'" by auto
  have "P t" by (rule Cons.prems(1) [OF _ Cons.prems(2) t(1)]) simp
  from Cons.IH [OF _ this t(2)] Cons.prems(1) show ?case by auto
qed

lemma go_foldM_Ret:
  "(\<And>s x. x \<in> set xs \<Longrightarrow> f s x = Ret (g s x)) \<Longrightarrow> go_foldM f s xs = Ret (foldl g s xs)"
  by (induction xs arbitrary: s) simp_all

subsection \<open>Indexing and slicing\<close>

definition go_index :: "'a list \<Rightarrow> int \<Rightarrow> 'a go" where
  "go_index xs i =
     (if 0 \<le> i \<and> i < int (length xs) then Ret (xs ! nat i) else Panic IndexOutOfRange)"

definition go_slice :: "'a list \<Rightarrow> int \<Rightarrow> int \<Rightarrow> 'a list go" where
  "go_slice xs lo hi =
     (if 0 \<le> lo \<and> lo \<le> hi \<and> hi \<le> int (length xs)
      then Ret (take (nat (hi - lo)) (drop (nat lo) xs)) else Panic SliceBounds)"

lemma go_index_Ret:
  "go_index xs i = Ret x \<longleftrightarrow> 0 \<le> i \<and> i < int (length xs) \<and> x = xs ! nat i"
  by (auto simp: go_index_def)

lemma go_index_nat: "k < length xs \<Longrightarrow> go_index xs (int k) = Ret (xs ! k)"
  by (simp add: go_index_def)

lemma go_slice_Ret:
  "go_slice xs lo hi = Ret ys \<longleftrightarrow>
     0 \<le> lo \<and> lo \<le> hi \<and> hi \<le> int (length xs) \<and> ys = take (nat (hi - lo)) (drop (nat lo) xs)"
  by (auto simp: go_slice_def)

text \<open>\<open>copy(dst[off:], src)\<close>: as many bytes as fit.\<close>

definition go_copy :: "'a list \<Rightarrow> nat \<Rightarrow> 'a list \<Rightarrow> 'a list" where
  "go_copy dst off src =
     (let n = min (length dst - off) (length src)
      in take off dst @ take n src @ drop (off + n) dst)"

lemma length_go_copy [simp]: "off \<le> length dst \<Longrightarrow> length (go_copy dst off src) = length dst"
  by (auto simp: go_copy_def Let_def)

subsection \<open>Bytes and strings\<close>

type_synonym byte = "8 word"
type_synonym bytes = "byte list"
type_synonym int64 = "64 word"

text \<open>A Go string is a sequence of bytes: \<open>[]byte(s)\<close> and \<open>string(b)\<close> convert one by one.\<close>

definition bytes_of :: "string \<Rightarrow> bytes" where
  "bytes_of s = map of_char s"

definition string_of :: "bytes \<Rightarrow> string" where
  "string_of bs = map (\<lambda>b. char_of (unat b)) bs"

lemma unat_of_char [simp]: "unat (of_char c :: byte) = of_char c"
proof -
  have "unat (of_nat (of_char c) :: byte) = of_char c mod 256"
    by (simp only: unat_of_nat) simp
  then show ?thesis by (simp add: of_nat_of_char)
qed

lemma string_of_bytes_of [simp]: "string_of (bytes_of s) = s"
  by (simp add: string_of_def bytes_of_def comp_def)

lemma bytes_of_string_of [simp]: "bytes_of (string_of bs) = bs"
proof -
  have "of_char (char_of (unat b)) = b" for b :: byte
  proof -
    have "unat b < 256" using unsigned_less [of b] by simp
    then have "(of_char (char_of (unat b)) :: nat) = unat b" by simp
    then show ?thesis by (metis of_nat_of_char of_nat_unat ucast_id)
  qed
  then show ?thesis by (simp add: string_of_def bytes_of_def comp_def)
qed

lemma length_bytes_of [simp]: "length (bytes_of s) = length s"
  by (simp add: bytes_of_def)

lemma length_string_of [simp]: "length (string_of bs) = length bs"
  by (simp add: string_of_def)

lemma bytes_of_eq_iff [simp]: "bytes_of s = bytes_of t \<longleftrightarrow> s = t"
  by (metis string_of_bytes_of)

subsection \<open>Status words\<close>

text \<open>
  The sources keep a component's state in an \<open>int\<close> whose bits are constants \<open>1 << iota\<close>. A
  flag is tested with \<open>status & flag > 0\<close>, set with \<open>status |= flag\<close> and flipped with
  \<open>status ^= flag\<close>. Only these bit operations are applied to such a word, so it never leaves
  the range of its flags and needs no width.
\<close>

definition has_flag :: "int \<Rightarrow> int \<Rightarrow> bool" where
  "has_flag status flag \<longleftrightarrow> status AND flag > 0"

lemma and_exp_eq: "(s :: int) AND 2 ^ k = of_bool (bit s k) * 2 ^ k"
  by (rule bit_eqI) (auto simp: bit_simps)

lemma has_flag_exp: "has_flag s (2 ^ k) \<longleftrightarrow> bit s k"
  by (simp add: has_flag_def and_exp_eq)

lemma has_flag_zero [simp]: "\<not> has_flag 0 f"
  by (simp add: has_flag_def)

text \<open>
  One flag of a status word. The client code relies on four laws: setting sets, flipping a set
  flag clears it, flipping a clear flag sets it, and neither touches another flag.
\<close>

locale status_flag =
  fixes flag :: int and index :: nat
  assumes flag_exp: "flag = 2 ^ index"
begin

lemma set_has: "has_flag (s OR flag) flag"
  by (simp add: flag_exp has_flag_exp bit_simps)

lemma flip_has: "has_flag (s XOR flag) flag \<longleftrightarrow> \<not> has_flag s flag"
  by (simp add: flag_exp has_flag_exp bit_simps)

lemma set_other: "j \<noteq> index \<Longrightarrow> has_flag (s OR flag) (2 ^ j) \<longleftrightarrow> has_flag s (2 ^ j)"
  by (auto simp: flag_exp has_flag_exp bit_simps)

lemma flip_other: "j \<noteq> index \<Longrightarrow> has_flag (s XOR flag) (2 ^ j) \<longleftrightarrow> has_flag s (2 ^ j)"
  by (auto simp: flag_exp has_flag_exp bit_simps)

lemma set_idem: "has_flag s flag \<Longrightarrow> s OR flag = s"
  by (rule bit_eqI) (auto simp: flag_exp has_flag_exp bit_simps)

lemma flip_flip: "(s XOR flag) XOR flag = s"
  by (simp add: xor.assoc)

end

text \<open>Two flags of the same word do not touch each other.\<close>

locale flag_pair = a: status_flag f i + b: status_flag g j for f i g j +
  assumes apart: "i \<noteq> j"
begin

lemma set_keeps: "has_flag (s OR f) g \<longleftrightarrow> has_flag s g" "has_flag (s OR g) f \<longleftrightarrow> has_flag s f"
  using a.set_other [of j s] b.set_other [of i s] apart by (simp_all add: a.flag_exp b.flag_exp)

lemma flip_keeps: "has_flag (s XOR f) g \<longleftrightarrow> has_flag s g" "has_flag (s XOR g) f \<longleftrightarrow> has_flag s f"
  using a.flip_other [of j s] b.flip_other [of i s] apart by (simp_all add: a.flag_exp b.flag_exp)

lemmas pair_simps = a.set_has b.set_has a.flip_has b.flip_has set_keeps flip_keeps

end

subsection \<open>Little-endian integers\<close>

text \<open>
  \<open>byte(x >> k)\<close> on an \<open>int\<close> or \<open>int64\<close>: an arithmetic shift and a truncation. All the byte
  positions the sources use lie inside the word, where the arithmetic and the logical shift
  agree.
\<close>

definition go_byte :: "int64 \<Rightarrow> nat \<Rightarrow> byte" where
  "go_byte w k = ucast (signed_drop_bit k w)"

text \<open>\<open>int64(b) << k\<close>.\<close>

definition go_shl :: "byte \<Rightarrow> nat \<Rightarrow> int64" where
  "go_shl b k = push_bit k (ucast b)"

primrec le_enc :: "nat \<Rightarrow> int64 \<Rightarrow> bytes" where
  "le_enc 0 w = []"
| "le_enc (Suc n) w = ucast w # le_enc n (drop_bit 8 w)"

primrec le_dec :: "bytes \<Rightarrow> int64" where
  "le_dec [] = 0"
| "le_dec (b # bs) = ucast b OR push_bit 8 (le_dec bs)"

lemma length_le_enc [simp]: "length (le_enc n w) = n"
  by (induction n arbitrary: w) simp_all

lemma le_dec_enc: "le_dec (le_enc n w) = take_bit (8 * n) w"
proof (induction n arbitrary: w)
  case 0
  then show ?case by simp
next
  case (Suc n)
  have "ucast (ucast w :: byte) OR push_bit 8 (take_bit (8 * n) (drop_bit 8 w)) =
      take_bit (8 * Suc n) w"
    by (rule bit_word_eqI) (auto simp: bit_simps)
  with Suc show ?case by simp
qed

lemma le_dec_enc_8 [le_simps]: "le_dec (le_enc 8 w) = w"
  by (simp add: le_dec_enc take_bit_word_eq_self)

lemma bit_le_decD: "bit (le_dec bs) n \<Longrightarrow> n < 8 * length bs"
proof (induction bs arbitrary: n)
  case Nil
  then show ?case by simp
next
  case (Cons b bs)
  then show ?case by (fastforce simp: bit_simps dest: bit_imp_le_length)
qed

lemma take_bit_le_dec: "8 * length bs \<le> n \<Longrightarrow> take_bit n (le_dec bs) = le_dec bs"
  by (rule bit_word_eqI) (auto simp: bit_simps dest: bit_le_decD)

lemma le_enc_dec: "length bs \<le> 8 \<Longrightarrow> le_enc (length bs) (le_dec bs) = bs"
proof (induction bs)
  case Nil
  then show ?case by simp
next
  case (Cons b bs)
  have "drop_bit 8 (ucast b OR push_bit 8 (le_dec bs)) = take_bit 56 (le_dec bs)"
    by (rule bit_word_eqI) (auto simp: bit_simps dest: bit_imp_le_length)
  moreover have "take_bit 56 (le_dec bs) = le_dec bs"
    using Cons.prems by (intro take_bit_le_dec) simp
  moreover have "ucast (ucast b OR push_bit 8 (le_dec bs)) = b"
    by (rule bit_word_eqI) (auto simp: bit_simps)
  ultimately show ?case using Cons by simp
qed

lemma go_byte_drop: "k \<le> 56 \<Longrightarrow> go_byte w k = ucast (drop_bit k w)"
  by (rule bit_word_eqI) (auto simp: go_byte_def bit_simps min_def)

lemma go_bytes_2 [le_simps]: "[go_byte w 0, go_byte w 8] = le_enc 2 w"
  by (simp add: go_byte_drop numeral_2_eq_2)

lemma go_bytes_4 [le_simps]: "[go_byte w 0, go_byte w 8, go_byte w 16, go_byte w 24] = le_enc 4 w"
  by (simp add: go_byte_drop eval_nat_numeral drop_bit_drop_bit)

lemma go_bytes_8 [le_simps]:
  "[go_byte w 0, go_byte w 8, go_byte w 16, go_byte w 24,
    go_byte w 32, go_byte w 40, go_byte w 48, go_byte w 56] = le_enc 8 w"
  by (simp add: go_byte_drop eval_nat_numeral drop_bit_drop_bit)

lemma go_shl_2 [le_simps]: "go_shl a 0 OR go_shl b 8 = le_dec [a, b]"
  by (simp add: go_shl_def)

lemma go_shl_4 [le_simps]:
  "go_shl a 0 OR go_shl b 8 OR go_shl c 16 OR go_shl d 24 = le_dec [a, b, c, d]"
  by (simp add: go_shl_def push_bit_or or.assoc)

lemma go_shl_8 [le_simps]:
  "go_shl a 0 OR go_shl b 8 OR go_shl c 16 OR go_shl d 24 OR
   go_shl e 32 OR go_shl f 40 OR go_shl g 48 OR go_shl h 56 = le_dec [a, b, c, d, e, f, g, h]"
  by (simp add: go_shl_def push_bit_or or.assoc)

lemma unat_le_dec: "unat (le_dec bs) < 2 ^ (8 * length bs)"
proof -
  have "unat (le_dec bs) = take_bit (8 * length bs) (unat (le_dec bs))"
    by (metis order_refl take_bit_le_dec unsigned_take_bit_eq)
  then show ?thesis by (metis take_bit_nat_less_exp)
qed

lemma sint_nonneg: "unat (w :: int64) < 2 ^ 63 \<Longrightarrow> sint w = int (unat w)"
proof -
  assume w: "unat w < 2 ^ 63"
  have "int (unat w) < int (2 ^ 63)" using w by (simp only: of_nat_less_iff)
  then have "uint w < 2 ^ 63" by simp
  moreover have "0 \<le> uint w" by simp
  ultimately have "signed_take_bit 63 (uint w) = uint w"
    by (intro signed_take_bit_int_eq_self) linarith+
  then show ?thesis by (simp add: sint_uint)
qed

lemma sint_le_dec: "length bs \<le> 7 \<Longrightarrow> sint (le_dec bs) = int (unat (le_dec bs))"
proof -
  assume len: "length bs \<le> 7"
  have "unat (le_dec bs) < 2 ^ (8 * length bs)" by (rule unat_le_dec)
  also have "\<dots> \<le> 2 ^ 63" using len by (intro power_increasing) auto
  finally show ?thesis by (rule sint_nonneg)
qed

lemma unat_le_dec_enc:
  "m < 2 ^ (8 * n) \<Longrightarrow> n \<le> 8 \<Longrightarrow> unat (le_dec (le_enc n (of_nat m))) = m"
proof -
  assume m: "m < 2 ^ (8 * n)" and n: "n \<le> 8"
  have "(2 :: nat) ^ (8 * n) \<le> 2 ^ 64" using n by (intro power_increasing) auto
  with m have "m < 2 ^ 64" by (rule less_le_trans)
  with m show ?thesis
    by (simp add: le_dec_enc unsigned_take_bit_eq unat_of_nat take_bit_nat_eq_self)
qed

end
