(* ===== verification/Binlog_Pos.thy ===== *)
theory Binlog_Pos
  imports Go_Base
begin

text \<open>
  The binlog position as it is cached on disk and exchanged between the nodes of a cluster:
  \<open>packPos\<close> and \<open>unpackPos\<close> of \<^verbatim>\<open>src/library/binlog/util.go\<close>. Two bytes of length, eight bytes of
  position, eight bytes of event index, the name of the binlog file.
\<close>

definition packPos :: "string \<Rightarrow> int64 \<Rightarrow> int64 \<Rightarrow> bytes" where
  "packPos binFile pos eventIndex =
     (let res = bytes_of binFile;
          l = 16 + length res;
          r = replicate (l + 2) 0;
          r = r[0 := go_byte (of_nat l) 0];
          r = r[1 := go_byte (of_nat l) 8];
          r = r[2 := go_byte pos 0];
          r = r[3 := go_byte pos 8];
          r = r[4 := go_byte pos 16];
          r = r[5 := go_byte pos 24];
          r = r[6 := go_byte pos 32];
          r = r[7 := go_byte pos 40];
          r = r[8 := go_byte pos 48];
          r = r[9 := go_byte pos 56];
          r = r[10 := go_byte eventIndex 0];
          r = r[11 := go_byte eventIndex 8];
          r = r[12 := go_byte eventIndex 16];
          r = r[13 := go_byte eventIndex 24];
          r = r[14 := go_byte eventIndex 32];
          r = r[15 := go_byte eventIndex 40];
          r = r[16 := go_byte eventIndex 48];
          r = r[17 := go_byte eventIndex 56]
      in take 18 r @ res)"

text \<open>The first \<open>n\<close> bytes from \<open>i\<close> on, read one by one.\<close>

fun go_read :: "bytes \<Rightarrow> nat \<Rightarrow> nat \<Rightarrow> bytes go" where
  "go_read data i 0 = Ret []"
| "go_read data i (Suc n) =
     go_bind (go_index data (int i)) (\<lambda>b. go_bind (go_read data (Suc i) n) (\<lambda>bs. Ret (b # bs)))"

definition go_le8 :: "bytes \<Rightarrow> int64" where
  "go_le8 b =
     go_shl (b ! 0) 0 OR go_shl (b ! 1) 8 OR go_shl (b ! 2) 16 OR go_shl (b ! 3) 24 OR
     go_shl (b ! 4) 32 OR go_shl (b ! 5) 40 OR go_shl (b ! 6) 48 OR go_shl (b ! 7) 56"

definition unpackPos :: "bytes \<Rightarrow> (string \<times> int64 \<times> int64) go" where
  "unpackPos data =
     go_bind (go_read data 0 2) (\<lambda>d.
     go_bind (go_read data 2 8) (\<lambda>p.
     go_bind (go_read data 10 8) (\<lambda>e.
       let dl = sint (go_shl (d ! 0) 0 OR go_shl (d ! 1) 8);
           pos = go_le8 p;
           eventIndex = go_le8 e
       in if dl + 2 < 18 \<or> dl > int (length data) - 2 then Ret ('''', 0, 0)
          else go_bind (go_slice data 18 (dl + 2)) (\<lambda>name.
                 Ret (string_of name, pos, eventIndex)))))"

lemma packPos_eq:
  "packPos f p e = le_enc 2 (of_nat (16 + length f)) @ le_enc 8 p @ le_enc 8 e @ bytes_of f"
proof -
  have "replicate (16 + length f + 2) (0 :: byte) = replicate 18 0 @ replicate (length f) 0"
    by (simp flip: replicate_add)
  moreover have "replicate 18 (0 :: byte) = [0, 0, 0, 0, 0, 0, 0, 0, 0, 0, 0, 0, 0, 0, 0, 0, 0, 0]"
    by (simp add: eval_nat_numeral)
  ultimately show ?thesis
    unfolding packPos_def Let_def length_bytes_of go_bytes_2 [symmetric] go_bytes_8 [symmetric]
    by (simp add: list_update_append)
qed

lemma length_packPos [simp]: "length (packPos f p e) = 18 + length f"
  by (simp add: packPos_eq)

lemma go_read_Ret: "i + n \<le> length data \<Longrightarrow> go_read data i n = Ret (take n (drop i data))"
proof (induction n arbitrary: i)
  case 0
  then show ?case by simp
next
  case (Suc n)
  then show ?case
    by (simp add: go_index_nat Cons_nth_drop_Suc [symmetric])
qed

lemma go_read_Panic: "length data < i + n \<Longrightarrow> n \<noteq> 0 \<Longrightarrow> go_read data i n = Panic IndexOutOfRange"
proof (induction n arbitrary: i)
  case 0
  then show ?case by simp
next
  case (Suc n)
  show ?case
  proof (cases "i < length data")
    case True
    then have "n \<noteq> 0" using Suc.prems by auto
    with Suc True show ?thesis by (simp add: go_index_nat)
  next
    case False
    then show ?thesis by (simp add: go_index_def)
  qed
qed

lemma go_le8_le_dec: "length b = 8 \<Longrightarrow> go_le8 b = le_dec b"
proof -
  assume "length b = 8"
  then have "b = [b ! 0, b ! 1, b ! 2, b ! 3, b ! 4, b ! 5, b ! 6, b ! 7]"
    by (auto simp: list_eq_iff_nth_eq less_Suc_eq eval_nat_numeral)
  then have "le_dec b = le_dec [b ! 0, b ! 1, b ! 2, b ! 3, b ! 4, b ! 5, b ! 6, b ! 7]" by simp
  then show ?thesis by (simp only: go_le8_def go_shl_8)
qed

lemma unpackPos_long:
  assumes "18 \<le> length data"
  shows "unpackPos data =
    (let dl = unat (le_dec (take 2 data))
     in if dl < 16 \<or> length data < dl + 2 then Ret ('''', 0, 0)
        else Ret (string_of (take (dl - 16) (drop 18 data)),
                  le_dec (take 8 (drop 2 data)), le_dec (take 8 (drop 10 data))))"
proof -
  have "take 2 data = [data ! 0, data ! 1]"
    using assms by (auto simp: list_eq_iff_nth_eq less_Suc_eq eval_nat_numeral)
  then have "sint (go_shl (take 2 data ! 0) 0 OR go_shl (take 2 data ! 1) 8) = int (unat (le_dec (take 2 data)))"
    using sint_le_dec [of "take 2 data"] by (simp add: go_shl_2)
  moreover have "go_read data 0 2 = Ret (take 2 data)" "go_read data 2 8 = Ret (take 8 (drop 2 data))"
    "go_read data 10 8 = Ret (take 8 (drop 10 data))"
    using assms go_read_Ret [of 0 2 data] go_read_Ret [of 2 8 data] go_read_Ret [of 10 8 data] by simp_all
  moreover have "go_le8 (take 8 (drop 2 data)) = le_dec (take 8 (drop 2 data))"
    "go_le8 (take 8 (drop 10 data)) = le_dec (take 8 (drop 10 data))"
    using assms by (simp_all add: go_le8_le_dec)
  ultimately show ?thesis
    using assms
    by (auto simp: unpackPos_def Let_def go_slice_def nat_diff_distrib' simp del: of_nat_unat)
qed

lemma unpackPos_short: "length data < 18 \<Longrightarrow> unpackPos data = Panic IndexOutOfRange"
proof -
  assume len: "length data < 18"
  have "unpackPos data = Panic IndexOutOfRange" if "length data < 2"
    using that by (simp add: unpackPos_def go_read_Panic)
  moreover have "unpackPos data = Panic IndexOutOfRange" if "2 \<le> length data" "length data < 10"
    using that go_read_Ret [of 0 2 data] by (simp add: unpackPos_def go_read_Panic)
  moreover have "unpackPos data = Panic IndexOutOfRange" if "10 \<le> length data"
    using that len go_read_Ret [of 0 2 data] go_read_Ret [of 2 8 data]
    by (simp add: unpackPos_def go_read_Panic)
  ultimately show ?thesis by linarith
qed

lemma unpack_packPos:
  assumes "16 + length f < 2 ^ 16"
  shows "unpackPos (packPos f p e @ rest) = Ret (f, p, e)"
proof -
  have "unat (le_dec (le_enc 2 (of_nat (16 + length f)))) = 16 + length f"
    using assms by (intro unat_le_dec_enc) simp_all
  then show ?thesis
    by (simp add: unpackPos_long packPos_eq Let_def le_dec_enc_8)
qed

text \<open>A name that does not fit the length field is not recovered, even from the whole record.\<close>

lemma unpack_packPos_truncated:
  assumes "length data < 18 + length f" and "18 \<le> length data" and "16 + length f < 2 ^ 16"
    and "take (length data) (packPos f p e) = data"
  shows "unpackPos data = Ret ('''', 0, 0)"
proof -
  have t: "take 2 data = le_enc 2 (of_nat (16 + length f))"
    using assms(2,4) by (metis (no_types, lifting) append_eq_conv_conj length_le_enc min.absorb1
        numeral_le_iff order_trans packPos_eq semiring_norm(69) take_take one_le_numeral
        numeral_Bit0_eq_double numerals(1) semiring_norm(68) semiring_norm(71))
  have "unat (le_dec (le_enc 2 (of_nat (16 + length f)))) = 16 + length f"
    using assms(3) by (intro unat_le_dec_enc) simp_all
  then have "unat (le_dec (take 2 data)) = 16 + length f" by (simp add: t)
  then show ?thesis using assms(1,2) by (simp add: unpackPos_long Let_def del: of_nat_unat)
qed

subsection \<open>Properties\<close>

text \<open>
  Unpacking a packed position gives back the file name, the position and the event index, all
  64 bits of them, whatever bytes follow (the file may hold the rest of a longer, older record).
\<close>

theorem position_roundtrip:
  assumes "16 + length f < 2 ^ 16"
  shows "unpackPos (packPos f p e @ rest) = Ret (f, p, e)"
  using assms by (rule unpack_packPos)

theorem position_roundtrip_witness:
  "unpackPos (packPos ''mysql-bin.000059'' 123456 20 @ [9]) = Ret (''mysql-bin.000059'', 123456, 20)"
  by (rule position_roundtrip) simp

text \<open>
  What \<open>unpackPos\<close> does with any bytes: fewer than 18 panic; a length field that is too small
  or larger than the data gives the empty position; otherwise the fields are read from their places.
\<close>

theorem unpackPos_outcomes:
  "(length data < 18 \<longrightarrow> unpackPos data = Panic IndexOutOfRange) \<and>
   (18 \<le> length data \<longrightarrow> unpackPos data =
     (let dl = unat (le_dec (take 2 data))
      in if dl < 16 \<or> length data < dl + 2 then Ret ('''', 0, 0)
         else Ret (string_of (take (dl - 16) (drop 18 data)),
                   le_dec (take 8 (drop 2 data)), le_dec (take 8 (drop 10 data)))))"
  using unpackPos_short unpackPos_long by blast

theorem unpackPos_outcomes_witness:
  "unpackPos [1, 2, 3] = Panic IndexOutOfRange \<and> unpackPos (replicate 18 0) = Ret ('''', 0, 0)"
  using unpackPos_outcomes [of "[1, 2, 3]"] unpackPos_outcomes [of "replicate 18 0"]
  by (simp add: numeral_2_eq_2)

end
