(* ===== verification/Net.thy ===== *)
theory Net
  imports Go_Base
begin

text \<open>
  The network connections of Go's \<open>net\<close> package as the sources use them, and the decimal
  printing of \<open>fmt\<close>'s verb for integers.
\<close>

subsection \<open>Connections\<close>

text \<open>
  A connection as the program sees it: what was written to it, whether this side closed it,
  and whether the peer is gone. A write to a closed or broken connection is an error and
  transmits nothing.
\<close>

record conn =
  conn_out :: "bytes list"
  conn_closed :: bool
  conn_broken :: bool

datatype net_error = WriteError | NodeOffline

definition conn_write :: "conn \<Rightarrow> bytes \<Rightarrow> conn \<times> (net_error + nat)" where
  "conn_write c data =
     (if conn_closed c \<or> conn_broken c then (c, Inl WriteError)
      else (c\<lparr>conn_out := conn_out c @ [data]\<rparr>, Inr (length data)))"

definition conn_close :: "conn \<Rightarrow> conn" where
  "conn_close c = c\<lparr>conn_closed := True\<rparr>"

definition new_conn :: conn where
  "new_conn = \<lparr>conn_out = [], conn_closed = False, conn_broken = False\<rparr>"

definition conn_up :: "conn \<Rightarrow> bool" where
  "conn_up c \<longleftrightarrow> \<not> conn_closed c \<and> \<not> conn_broken c"

lemma conn_write_up [simp]:
  "conn_up c \<Longrightarrow> conn_write c data = (c\<lparr>conn_out := conn_out c @ [data]\<rparr>, Inr (length data))"
  by (simp add: conn_write_def conn_up_def)

lemma conn_write_down [simp]: "\<not> conn_up c \<Longrightarrow> conn_write c data = (c, Inl WriteError)"
  by (auto simp: conn_write_def conn_up_def)

lemma conn_up_upd [simp]: "conn_up (c\<lparr>conn_out := x\<rparr>) = conn_up c"
  by (simp add: conn_up_def)

lemma conn_up_new [simp]: "conn_up new_conn"
  by (simp add: conn_up_def new_conn_def)

lemma conn_up_close [simp]: "\<not> conn_up (conn_close c)"
  by (simp add: conn_up_def conn_close_def)

lemma conn_out_close [simp]: "conn_out (conn_close c) = conn_out c"
  by (simp add: conn_close_def)

subsection \<open>Decimal numbers\<close>

fun nat_digits :: "nat \<Rightarrow> string" where
  "nat_digits n =
     (if n < 10 then [char_of (48 + n)] else nat_digits (n div 10) @ [char_of (48 + n mod 10)])"

declare nat_digits.simps [simp del]

definition int_digits :: "int \<Rightarrow> string" where
  "int_digits i = (if i < 0 then CHR ''-'' # nat_digits (nat (- i)) else nat_digits (nat i))"

fun nat_of_digits :: "nat \<Rightarrow> string \<Rightarrow> nat" where
  "nat_of_digits acc [] = acc"
| "nat_of_digits acc (c # cs) = nat_of_digits (10 * acc + (of_char c - 48)) cs"

lemma nat_of_digits_append: "nat_of_digits acc (xs @ ys) = nat_of_digits (nat_of_digits acc xs) ys"
  by (induction xs arbitrary: acc) simp_all

lemma nat_of_digits_inverse: "nat_of_digits 0 (nat_digits n) = n"
proof (induction n rule: nat_digits.induct)
  case (1 n)
  have digit: "of_char (char_of (48 + d :: nat)) = (48 + d :: nat)" if "d < 10" for d :: nat
    using that by simp
  show ?case
  proof (cases "n < 10")
    case True
    then show ?thesis by (simp add: nat_digits.simps [of n] digit)
  next
    case False
    then show ?thesis
      using 1 digit [of "n mod 10"]
      by (simp add: nat_digits.simps [of n] nat_of_digits_append)
  qed
qed

lemma nat_digits_inject: "nat_digits m = nat_digits n \<longleftrightarrow> m = n"
  by (metis nat_of_digits_inverse)

lemma nat_digits_range: "c \<in> set (nat_digits n) \<Longrightarrow> 48 \<le> (of_char c :: nat) \<and> (of_char c :: nat) < 58"
proof (induction n rule: nat_digits.induct)
  case (1 n)
  have digit: "of_char (char_of (48 + d :: nat)) = (48 + d :: nat)" if "d < 10" for d :: nat
    using that by simp
  have d: "n mod 10 < 10" by simp
  from 1 digit [of n] digit [OF d] d show ?case
    by (cases "n < 10") (auto simp: nat_digits.simps [of n])
qed

text \<open>
  \<open>strconv.ParseUint(s, 10, bits)\<close>, byte by byte: the first byte that is not a digit is a syntax
  error, the first digit that takes the number out of range a range error, whatever follows it.
\<close>

datatype num_error = ErrSyntax | ErrRange

definition is_digit :: "char \<Rightarrow> bool" where
  "is_digit c \<longleftrightarrow> 48 \<le> (of_char c :: nat) \<and> (of_char c :: nat) \<le> 57"

fun parse_digits :: "nat \<Rightarrow> nat \<Rightarrow> string \<Rightarrow> num_error + nat" where
  "parse_digits bits acc [] = Inr acc"
| "parse_digits bits acc (c # cs) =
     (if \<not> is_digit c then Inl ErrSyntax
      else let n = 10 * acc + (of_char c - 48)
           in if 2 ^ bits \<le> n then Inl ErrRange else parse_digits bits n cs)"

definition ParseUint :: "nat \<Rightarrow> string \<Rightarrow> num_error + nat" where
  "ParseUint bits s = (if s = [] then Inl ErrSyntax else parse_digits bits 0 s)"

text \<open>
  \<open>strconv.ParseInt(s, 10, bits)\<close>: the value and whether there was an error. A string that is
  not an optional sign and digits gives 0; a number out of range gives the nearest bound.
\<close>

definition ParseInt :: "nat \<Rightarrow> string \<Rightarrow> int \<times> bool" where
  "ParseInt bits s =
     (let neg = (s \<noteq> [] \<and> hd s = CHR ''-'');
          ds = (if s \<noteq> [] \<and> (hd s = CHR ''-'' \<or> hd s = CHR ''+'') then tl s else s);
          hi = 2 ^ (bits - 1) - 1; lo = - (2 ^ (bits - 1))
      in case ParseUint bits ds of
           Inl ErrSyntax \<Rightarrow> (0, True)
         | Inl ErrRange \<Rightarrow> (if neg then lo else hi, True)
         | Inr n \<Rightarrow>
             let v = (if neg then - int n else int n)
             in if v < lo then (lo, True) else if hi < v then (hi, True) else (v, False))"

lemma nat_of_digits_mono: "acc \<le> nat_of_digits acc s"
proof (induction s arbitrary: acc)
  case Nil
  then show ?case by simp
next
  case (Cons c s)
  have "acc \<le> 10 * acc + (of_char c - 48)" by simp
  also have "\<dots> \<le> nat_of_digits (10 * acc + (of_char c - 48)) s" by (rule Cons)
  finally show ?case by simp
qed

lemma parse_digits_all:
  "list_all is_digit s \<Longrightarrow> acc < 2 ^ bits \<Longrightarrow>
     parse_digits bits acc s =
       (if nat_of_digits acc s < 2 ^ bits then Inr (nat_of_digits acc s) else Inl ErrRange)"
proof (induction s arbitrary: acc)
  case Nil
  then show ?case by simp
next
  case (Cons c s)
  let ?n = "10 * acc + (of_char c - 48)"
  have "?n \<le> nat_of_digits ?n s" by (rule nat_of_digits_mono)
  with Cons show ?case by (auto simp: Let_def)
qed

lemma ParseUint_digits:
  "list_all is_digit s \<Longrightarrow> s \<noteq> [] \<Longrightarrow>
     ParseUint bits s =
       (if nat_of_digits 0 s < 2 ^ bits then Inr (nat_of_digits 0 s) else Inl ErrRange)"
  by (simp add: ParseUint_def parse_digits_all)

text \<open>On a string of digits alone the value is clipped to the largest integer of the width.\<close>

lemma ParseInt_digits:
  assumes "list_all is_digit s" "s \<noteq> []" "0 < bits"
  shows "ParseInt bits s =
     (min (int (nat_of_digits 0 s)) (2 ^ (bits - 1) - 1), 2 ^ (bits - 1) \<le> int (nat_of_digits 0 s))"
proof -
  let ?n = "nat_of_digits 0 s"
  have sign: "hd s \<noteq> CHR ''-''" "hd s \<noteq> CHR ''+''"
    using assms by (cases s; auto simp: is_digit_def)+
  have pos: "\<not> int ?n < - (2 ^ (bits - 1))"
    by (simp add: not_less) (meson le_minus_one_simps(1) neg_le_0_iff_le of_nat_0_le_iff order_trans zero_le_numeral zero_le_power)
  define m :: nat where "m = 2 ^ (bits - 1)"
  have half: "(2 :: int) ^ (bits - 1) = int m" by (simp add: m_def)
  have full: "(2 :: nat) ^ bits = 2 * m"
    using assms(3) by (metis Suc_diff_1 m_def power_Suc)
  show ?thesis
    using sign pos assms(1,2)
    unfolding ParseInt_def Let_def half
    by (auto simp: min_def ParseUint_digits full)
qed

lemma nat_digits_not_Nil [simp]: "nat_digits n \<noteq> []"
  by (subst nat_digits.simps) simp

lemma nat_digits_is_digit: "list_all is_digit (nat_digits n)"
  using nat_digits_range [of _ n] by (force simp: list_all_iff is_digit_def)

lemma hd_nat_digits: "is_digit (hd (nat_digits n))"
  using nat_digits_is_digit [of n] by (cases "nat_digits n") simp_all

lemma ParseInt_nat_digits:
  assumes "int n < 2 ^ (bits - 1)" "0 < bits"
  shows "ParseInt bits (nat_digits n) = (int n, False)"
  using assms by (simp add: ParseInt_digits nat_digits_is_digit nat_of_digits_inverse)

subsection \<open>Splitting strings\<close>

text \<open>\<open>strings.Split(s, sep)\<close> for a separator of one byte.\<close>

fun split_on :: "char \<Rightarrow> string \<Rightarrow> string list" where
  "split_on sep [] = [[]]"
| "split_on sep (c # cs) =
     (if c = sep then [] # split_on sep cs
      else case split_on sep cs of [] \<Rightarrow> [[c]] | w # ws \<Rightarrow> (c # w) # ws)"

lemma split_on_not_Nil [simp]: "split_on sep s \<noteq> []"
  by (induction s) (auto split: list.splits)

lemma split_on_plain: "sep \<notin> set s \<Longrightarrow> split_on sep s = [s]"
  by (induction s) (auto split: list.splits)

lemma split_on_append: "sep \<notin> set s \<Longrightarrow> split_on sep (s @ sep # t) = s # split_on sep t"
  by (induction s) (auto split: list.splits)

text \<open>\<open>strings.Trim(_, " ")\<close>\<close>

definition trim_spaces :: "string \<Rightarrow> string" where
  "trim_spaces s = rev (dropWhile (\<lambda>c. c = CHR '' '') (rev (dropWhile (\<lambda>c. c = CHR '' '') s)))"

lemma trim_spaces_id:
  "s \<noteq> [] \<Longrightarrow> hd s \<noteq> CHR '' '' \<Longrightarrow> last s \<noteq> CHR '' '' \<Longrightarrow> trim_spaces s = s"
proof -
  assume s: "s \<noteq> []" "hd s \<noteq> CHR '' ''" "last s \<noteq> CHR '' ''"
  have "dropWhile (\<lambda>c. c = CHR '' '') s = s"
    using s by (simp add: dropWhile_eq_self_iff)
  moreover have "dropWhile (\<lambda>c. c = CHR '' '') (rev s) = rev s"
    using s by (simp add: dropWhile_eq_self_iff hd_rev)
  ultimately show ?thesis by (simp add: trim_spaces_def)
qed

end
