(* ===== verification/Binlog_Field.thy ===== *)
theory Binlog_Field
  imports Net "HOL-Library.AList"
begin

text \<open>
  \<open>fieldDecode\<close> of \<^verbatim>\<open>src/library/binlog/util.go\<close>: how a column of a row event becomes the value
  that is sent out. \<open>go_value\<close> is Go's \<open>interface{}\<close> restricted to the types the MySQL library and
  the handler put into it; floating point numbers are kept as their bits.
\<close>

datatype go_value =
    VNil
  | VString string
  | VBytes bytes
  | VInt int64
  | VInt8 "8 word"
  | VInt16 "16 word"
  | VInt32 "32 word"
  | VInt64 int64
  | VUint int64
  | VUint8 "8 word"
  | VUint16 "16 word"
  | VUint32 "32 word"
  | VUint64 int64
  | VFloat64 "64 word"
  | VFloat32 "32 word"
  | VOther string
  | VMap "(string \<times> go_value) list"

text \<open>\<open>m[k] = v\<close> on a map kept as an association list with one entry per key.\<close>

definition map_set :: "string \<Rightarrow> go_value \<Rightarrow> (string \<times> go_value) list \<Rightarrow> (string \<times> go_value) list" where
  "map_set k v m = AList.update k v m"

lemma map_set_lookup: "map_of (map_set k v m) k' = (if k' = k then Some v else map_of m k')"
  by (simp add: map_set_def update_conv')

record table_column =
  tc_ColName :: string
  tc_RawType :: string
  tc_IsUnsigned :: bool
  tc_EnumValues :: "string list"
  tc_SetValues :: "string list"

text \<open>The loop over the members of a set column; \<open>1 << i\<close> on a \<open>uint\<close> is 0 from 64 on.\<close>

fun set_loop :: "int64 \<Rightarrow> nat \<Rightarrow> string list \<Rightarrow> string \<Rightarrow> string" where
  "set_loop v i [] res = res"
| "set_loop v i (s # ss) res =
     (if v AND push_bit i 1 > 0
      then set_loop v (Suc i) ss ((if res \<noteq> '''' then res @ '','' else res) @ s)
      else set_loop v (Suc i) ss res)"

definition fieldDecode :: "go_value \<Rightarrow> table_column \<Rightarrow> go_value go" where
  "fieldDecode edata column =
     (case edata of
        VString s \<Rightarrow> Ret edata
      | VBytes b \<Rightarrow> Ret edata
      | VInt i \<Rightarrow> Ret edata
      | VInt8 w \<Rightarrow>
          let r = scast w :: int64;
              r = (if tc_IsUnsigned column \<and> r <s 0 then 256 + scast w else r)
          in Ret (VInt64 r)
      | VInt16 w \<Rightarrow>
          let r = scast w :: int64;
              r = (if tc_IsUnsigned column \<and> r <s 0 then 65536 + scast w else r)
          in Ret (VInt64 r)
      | VInt32 w \<Rightarrow>
          let r = scast w :: int64
          in if tc_IsUnsigned column \<and> r <s 0
             then go_bind (go_slice (tc_RawType column) 0 3) (\<lambda>t.
                    if t \<noteq> ''int'' then Ret (VInt64 (push_bit 24 1 + scast w))
                    else Ret (VInt64 (4294967296 + scast w)))
             else Ret (VInt64 r)
      | VInt64 w \<Rightarrow>
          if length (tc_RawType column) > 4 \<and> take 4 (tc_RawType column) = ''enum''
          then go_bind (go_index (tc_EnumValues column) (sint (w - 1))) (\<lambda>str. Ret (VString str))
          else if length (tc_RawType column) > 3 \<and> take 3 (tc_RawType column) = ''set''
          then Ret (VString (set_loop w 0 (tc_SetValues column) ''''))
          else if tc_IsUnsigned column then Ret (VUint64 w) else Ret edata
      | VUint i \<Rightarrow> Ret edata
      | VUint8 i \<Rightarrow> Ret edata
      | VUint16 i \<Rightarrow> Ret edata
      | VUint32 i \<Rightarrow> Ret edata
      | VUint64 i \<Rightarrow> Ret edata
      | VFloat64 f \<Rightarrow> Ret edata
      | VFloat32 f \<Rightarrow> Ret edata
      | VNil \<Rightarrow> Ret edata
      | VOther ty \<Rightarrow> Ret edata
      | VMap m \<Rightarrow> Ret edata)"

subsection \<open>Unsigned columns\<close>

lemma scast_neg_unsigned:
  fixes w :: "'a::len word"
  assumes "LENGTH('a) < 64"
  shows "sint (scast w :: int64) = sint w"
proof -
  have "- (2 ^ 63) \<le> sint w \<and> sint w < 2 ^ 63"
  proof -
    have "(2::int) ^ (LENGTH('a) - 1) \<le> 2 ^ 63"
      using assms by (intro power_increasing) auto
    moreover have "- (2 ^ (LENGTH('a) - 1)) \<le> sint w" "sint w < 2 ^ (LENGTH('a) - 1)"
      using sint_ge [of w] sint_lt [of w] by auto
    ultimately show ?thesis by linarith
  qed
  then have "signed_take_bit 63 (sint w) = sint w"
    by (intro signed_take_bit_int_eq_self) simp_all
  then show ?thesis by (simp add: signed_scast_eq)
qed

lemma sint_uint_cases:
  fixes w :: "'a::len word"
  shows "uint w = (if sint w < 0 then 2 ^ LENGTH('a) + sint w else sint w)"
proof -
  have "sint w mod 2 ^ LENGTH('a) = uint w"
    by (metis take_bit_eq_mod uint_sint)
  moreover have "- (2 ^ LENGTH('a)) < sint w" "sint w < 2 ^ LENGTH('a)"
  proof -
    have "(2::int) ^ (LENGTH('a) - 1) < 2 ^ LENGTH('a)" by (intro power_strict_increasing) auto
    then show "- (2 ^ LENGTH('a)) < sint w" "sint w < 2 ^ LENGTH('a)"
      using sint_ge [of w] sint_lt [of w] by linarith+
  qed
  ultimately show ?thesis
    by (smt (verit) mod_add_self1 mod_pos_pos_trivial)
qed

lemma unsigned_repair:
  fixes w :: "'a::len word"
  assumes "LENGTH('a) < 64"
  shows "(if (scast w :: int64) <s 0 then of_int (2 ^ LENGTH('a)) + scast w else scast w) =
    (of_nat (unat w) :: int64)"
proof -
  have neg: "(scast w :: int64) <s 0 \<longleftrightarrow> sint w < 0"
    by (simp add: word_sless_alt scast_neg_unsigned [OF assms])
  have u: "(of_int (uint w) :: int64) = of_nat (unat w)" by simp
  have "(scast w :: int64) = of_int (sint w)" by (metis of_int_sint)
  then have "(of_int (2 ^ LENGTH('a)) + scast w :: int64) = of_int (2 ^ LENGTH('a) + sint w)"
    "(scast w :: int64) = of_int (sint w)"
    by (simp_all only: of_int_add)
  with neg u sint_uint_cases [of w] show ?thesis by (simp only: if_distrib [of of_int] split: if_splits)
qed

lemma mediumint_repair:
  fixes m :: "24 word"
  assumes "w = (scast m :: 32 word)"
  shows "sint w = sint m"
proof -
  have "- (2 ^ 31) \<le> sint m \<and> sint m < 2 ^ 31" using sint_ge [of m] sint_lt [of m] by simp
  then have "signed_take_bit 31 (sint m) = sint m" by (intro signed_take_bit_int_eq_self) simp_all
  then show ?thesis by (simp add: assms signed_scast_eq)
qed

lemma scast_of_sint: "sint (v :: 'a::len word) = sint (w :: 'b::len word) \<Longrightarrow> (scast v :: int64) = scast w"
  by (metis of_int_sint)

subsection \<open>Set columns\<close>

text \<open>Reference: the chosen members, joined with commas.\<close>

fun join_comma :: "string list \<Rightarrow> string" where
  "join_comma [] = ''''"
| "join_comma [s] = s"
| "join_comma (s # ss) = s @ '','' @ join_comma ss"

definition chosen :: "int64 \<Rightarrow> nat \<Rightarrow> string list \<Rightarrow> string list" where
  "chosen v i ss = map snd (filter (\<lambda>(j, _). bit v j) (enumerate i ss))"

lemma chosen_simps [simp]:
  "chosen v i [] = []"
  "chosen v i (s # ss) = (if bit v i then s # chosen v (Suc i) ss else chosen v (Suc i) ss)"
  by (simp_all add: chosen_def)

lemma and_bit_pos: "v AND push_bit i 1 > (0 :: int64) \<longleftrightarrow> bit v i"
proof -
  have "v AND push_bit i 1 = 0 \<longleftrightarrow> \<not> bit v i"
  proof
    assume "v AND push_bit i 1 = 0"
    then have "\<not> bit (v AND push_bit i 1) i" by simp
    then show "\<not> bit v i" by (auto simp: bit_simps dest: bit_imp_le_length)
  next
    assume "\<not> bit v i"
    then show "v AND push_bit i 1 = 0" by (intro bit_word_eqI) (auto simp: bit_simps)
  qed
  then show ?thesis by (simp add: word_gt_0)
qed

lemma join_comma_step:
  "ss \<noteq> [] \<Longrightarrow> join_comma (s # ss) = s @ '','' @ join_comma ss"
  by (cases ss) simp_all

lemma set_loop_join:
  "'''' \<notin> set ss \<Longrightarrow> set_loop v i ss res =
     (if res = '''' then join_comma (chosen v i ss)
      else if chosen v i ss = [] then res else res @ '','' @ join_comma (chosen v i ss))"
proof (induction ss arbitrary: i res)
  case Nil
  then show ?case by simp
next
  case (Cons s ss)
  then show ?case by (auto simp: and_bit_pos [simplified] join_comma_step)
qed

subsection \<open>Properties\<close>

text \<open>
  C19: Integer columns declared unsigned come out unsigned. The MySQL library delivers them sign
  extended; for tinyint, smallint, mediumint (24 bits in an \<open>int32\<close>), int and bigint columns the
  decoded value is the unsigned reading of the stored bits.
\<close>

theorem unsigned_fields:
  assumes "tc_IsUnsigned col"
  shows "fieldDecode (VInt8 a) col = Ret (VInt64 (of_nat (unat a))) \<and>
    fieldDecode (VInt16 b) col = Ret (VInt64 (of_nat (unat b))) \<and>
    fieldDecode (VInt32 c) (col\<lparr>tc_RawType := ''int'' @ t\<rparr>) = Ret (VInt64 (of_nat (unat c))) \<and>
    fieldDecode (VInt32 (scast (m :: 24 word))) (col\<lparr>tc_RawType := ''mediumint'' @ t\<rparr>) =
      Ret (VInt64 (of_nat (unat m))) \<and>
    fieldDecode (VInt64 d) (col\<lparr>tc_RawType := ''bigint'' @ t\<rparr>) = Ret (VUint64 d)"
proof -
  note m = mediumint_repair [of _ m, OF refl]
  have cast: "(scast (scast m :: 32 word) :: int64) = scast m" by (rule scast_of_sint [OF m])
  show ?thesis
    using assms unsigned_repair [of a] unsigned_repair [of b] unsigned_repair [of c] unsigned_repair [of m]
    by (auto simp: fieldDecode_def Let_def go_slice_def cast push_bit_eq_mult split: if_splits)
qed

theorem unsigned_fields_witness:
  "\<exists>col. tc_IsUnsigned col \<and> fieldDecode (VInt8 255) col = Ret (VInt64 255) \<and>
     fieldDecode (VInt32 (scast (- 1 :: 24 word))) (col\<lparr>tc_RawType := ''mediumint(8) unsigned''\<rparr>) =
       Ret (VInt64 16777215)"
proof -
  let ?col = "\<lparr>tc_ColName = ''c'', tc_RawType = ''tinyint(4)'', tc_IsUnsigned = True, tc_EnumValues = [],
    tc_SetValues = []\<rparr>"
  have "tc_IsUnsigned ?col" by simp
  from unsigned_fields [OF this, of 255 0 0 "''(8) unsigned''" "- 1" 0]
  show ?thesis by (intro exI [of _ ?col]) (simp add: unsigned_minus_1_eq_mask mask_eq_exp_minus_1)
qed

text \<open>
  A set column comes out as the chosen members, in the order of the declaration, separated by
  commas (when no member is the empty string, which would swallow its comma).
\<close>

theorem set_field:
  assumes "tc_RawType col = ''set('' @ t" and "'''' \<notin> set (tc_SetValues col)"
  shows "fieldDecode (VInt64 v) col =
    Ret (VString (join_comma (map snd (filter (\<lambda>(j, _). bit v j) (enumerate 0 (tc_SetValues col))))))"
  using assms set_loop_join [OF assms(2), of v 0 "''''"]
  by (simp add: fieldDecode_def chosen_def)

theorem set_field_witness:
  "fieldDecode (VInt64 5) \<lparr>tc_ColName = ''c'', tc_RawType = ''set(a,b,c)'', tc_IsUnsigned = False,
     tc_EnumValues = [], tc_SetValues = [''a'', ''b'', ''c'']\<rparr> = Ret (VString ''a,c'')"
  using set_field [of "\<lparr>tc_ColName = ''c'', tc_RawType = ''set(a,b,c)'', tc_IsUnsigned = False,
     tc_EnumValues = [], tc_SetValues = [''a'', ''b'', ''c'']\<rparr>" "''a,b,c)''" 5]
  by (simp add: bit_numeral_rec eval_nat_numeral)

text \<open>
  C35: An enum column comes out as its declared name for the indices 1 to n. MySQL stores the empty
  string that replaces an invalid value as index 0; for it, as for any index beyond the declared
  ones, decoding the row panics.
\<close>

theorem enum_field:
  assumes "tc_RawType col = ''enum('' @ t" and "k < 2 ^ 16"
  shows "fieldDecode (VInt64 (of_nat k)) col =
    (if k = 0 \<or> length (tc_EnumValues col) < k then Panic IndexOutOfRange
     else Ret (VString (tc_EnumValues col ! (k - 1))))"
proof -
  have "sint (of_nat k - 1 :: int64) = int k - 1"
  proof (cases k)
    case 0
    then show ?thesis by simp
  next
    case (Suc j)
    then have "unat (of_nat j :: int64) = j"
      using assms(2) by (simp add: unat_of_nat take_bit_nat_eq_self)
    then show ?thesis using Suc assms(2) sint_nonneg [of "of_nat j"] by simp
  qed
  then show ?thesis
    using assms by (auto simp: fieldDecode_def go_index_def nat_diff_distrib)
qed

theorem enum_field_witness:
  "fieldDecode (VInt64 (of_nat 0)) \<lparr>tc_ColName = ''c'', tc_RawType = ''enum(a,b)'', tc_IsUnsigned = False,
     tc_EnumValues = [''a'', ''b''], tc_SetValues = []\<rparr> = Panic IndexOutOfRange"
  using enum_field [of "\<lparr>tc_ColName = ''c'', tc_RawType = ''enum(a,b)'', tc_IsUnsigned = False,
     tc_EnumValues = [''a'', ''b''], tc_SetValues = []\<rparr>" "''a,b)''" 0]
  by simp

end
