(* ===== verification/Files.thy ===== *)
theory Files
  imports Net
begin

text \<open>
  \<^verbatim>\<open>src/library/path/util.go\<close> and \<^verbatim>\<open>src/library/file/file.go\<close>, over the file system calls of Go's
  \<open>os\<close> package. A file system is a tree of directories and files, named by the components of
  their absolute paths; \<open>fs_deny\<close> are the paths the process may neither create nor write.
  A failing call leaves the tree unchanged.
\<close>

subsection \<open>The file system\<close>

datatype fnode = FDir | FFile bytes

record file_system =
  fs_tree :: "string list \<Rightarrow> fnode option"
  fs_cwd :: "string list"
  fs_deny :: "string list \<Rightarrow> bool"

fun norm_comps :: "string list \<Rightarrow> string list \<Rightarrow> string list" where
  "norm_comps acc [] = rev acc"
| "norm_comps acc (c # cs) =
     (if c = '''' \<or> c = ''.'' then norm_comps acc cs
      else if c = ''..'' then norm_comps (tl acc) cs
      else norm_comps (c # acc) cs)"

definition resolve :: "file_system \<Rightarrow> string \<Rightarrow> string list" where
  "resolve fs p =
     norm_comps (if p \<noteq> [] \<and> hd p = CHR ''/'' then [] else rev (fs_cwd fs)) (split_on (CHR ''/'') p)"

definition fs_node :: "file_system \<Rightarrow> string list \<Rightarrow> fnode option" where
  "fs_node fs p = (if p = [] then Some FDir else fs_tree fs p)"

text \<open>\<open>os.Stat\<close>; the empty path is an error.\<close>

definition os_Stat :: "file_system \<Rightarrow> string \<Rightarrow> fnode option" where
  "os_Stat fs p = (if p = [] then None else fs_node fs (resolve fs p))"

text \<open>\<open>os.MkdirAll\<close>: every missing directory on the way; a file in the way is an error.\<close>

fun mkdirs :: "file_system \<Rightarrow> string list \<Rightarrow> string list \<Rightarrow> file_system option" where
  "mkdirs fs done [] = Some fs"
| "mkdirs fs done (c # cs) =
     (let p = done @ [c] in
      case fs_tree fs p of
        Some FDir \<Rightarrow> mkdirs fs p cs
      | Some (FFile _) \<Rightarrow> None
      | None \<Rightarrow> if fs_deny fs p then None
                else mkdirs (fs\<lparr>fs_tree := (fs_tree fs)(p \<mapsto> FDir)\<rparr>) p cs)"

definition os_MkdirAll :: "file_system \<Rightarrow> string \<Rightarrow> file_system \<times> bool" where
  "os_MkdirAll fs p =
     (if p = [] then (fs, False)
      else case mkdirs fs [] (resolve fs p) of None \<Rightarrow> (fs, False) | Some fs' \<Rightarrow> (fs', True))"

text \<open>\<open>os.RemoveAll\<close>: the path and everything below it.\<close>

definition os_RemoveAll :: "file_system \<Rightarrow> string \<Rightarrow> file_system \<times> bool" where
  "os_RemoveAll fs p =
     (let q = resolve fs p in
      if fs_deny fs q then (fs, False)
      else (fs\<lparr>fs_tree := (\<lambda>r. if take (length q) r = q then None else fs_tree fs r)\<rparr>, True))"

text \<open>\<open>os.Remove\<close> of a file; the program removes no directory this way.\<close>

definition os_Remove :: "file_system \<Rightarrow> string \<Rightarrow> file_system \<times> bool" where
  "os_Remove fs p =
     (let q = resolve fs p in
      case os_Stat fs p of
        Some (FFile _) \<Rightarrow>
          if fs_deny fs q then (fs, False) else (fs\<lparr>fs_tree := (fs_tree fs)(q := None)\<rparr>, True)
      | _ \<Rightarrow> (fs, False))"

text \<open>
  \<open>os.OpenFile\<close> for writing with \<open>O_CREATE\<close>: the content the handle starts from, or an error.
  The parent has to be a directory.
\<close>

definition os_OpenWrite :: "file_system \<Rightarrow> bool \<Rightarrow> string \<Rightarrow> (file_system \<times> bytes) option" where
  "os_OpenWrite fs trunc p =
     (let q = resolve fs p in
      if p = [] \<or> q = [] \<or> fs_deny fs q then None
      else case fs_node fs q of
        Some FDir \<Rightarrow> None
      | Some (FFile d) \<Rightarrow>
          Some (if trunc then (fs\<lparr>fs_tree := (fs_tree fs)(q \<mapsto> FFile [])\<rparr>, []) else (fs, d))
      | None \<Rightarrow>
          if fs_node fs (butlast q) = Some FDir
          then Some (fs\<lparr>fs_tree := (fs_tree fs)(q \<mapsto> FFile [])\<rparr>, [])
          else None)"

definition os_Append :: "file_system \<Rightarrow> string \<Rightarrow> bytes \<Rightarrow> file_system" where
  "os_Append fs p data =
     (let q = resolve fs p in
      case fs_node fs q of
        Some (FFile d) \<Rightarrow> fs\<lparr>fs_tree := (fs_tree fs)(q \<mapsto> FFile (d @ data))\<rparr>
      | _ \<Rightarrow> fs)"

subsection \<open>Paths\<close>

text \<open>\<open>strings.Replace(dir, "\\", "/", -1)\<close>\<close>

definition to_slash :: "string \<Rightarrow> string" where
  "to_slash dir = map (\<lambda>c. if c = CHR 92 then CHR ''/'' else c) dir"

lemma length_to_slash [simp]: "length (to_slash d) = length d"
  by (simp add: to_slash_def)

definition path_Exists :: "file_system \<Rightarrow> string \<Rightarrow> bool" where
  "path_Exists fs dir =
     (let dir = to_slash dir in case os_Stat fs dir of Some _ \<Rightarrow> True | None \<Rightarrow> False)"

text \<open>\<open>dir\<close> is \<open>filepath.Abs(filepath.Dir(os.Args[0]))\<close>, \<open>None\<close> its error; \<open>wd\<close> is \<open>os.Getwd()\<close>.\<close>

definition GetCurrentPath :: "string option \<Rightarrow> string" where
  "GetCurrentPath dir = (case dir of None \<Rightarrow> '''' | Some d \<Rightarrow> to_slash d)"

definition getWorkingPath :: "string option \<Rightarrow> string" where
  "getWorkingPath wd = (case wd of Some d \<Rightarrow> d @ ''/'' | None \<Rightarrow> ''/'')"

definition path_Mkdir :: "file_system \<Rightarrow> string \<Rightarrow> file_system \<times> bool" where
  "path_Mkdir fs dir = (if path_Exists fs dir then (fs, True) else os_MkdirAll fs dir)"

text \<open>\<open>strings.LastIndex\<close> of one byte, -1 when there is none.\<close>

fun last_index_from :: "int \<Rightarrow> int \<Rightarrow> char \<Rightarrow> string \<Rightarrow> int" where
  "last_index_from i best c [] = best"
| "last_index_from i best c (d # ds) = last_index_from (i + 1) (if d = c then i else best) c ds"

definition LastIndex :: "string \<Rightarrow> char \<Rightarrow> int" where
  "LastIndex s c = last_index_from 0 (- 1) c s"

definition GetParent :: "string \<Rightarrow> string go" where
  "GetParent dir =
     (let dir = to_slash dir in
      go_bind (go_slice dir 0 (int (length dir) - 1)) (\<lambda>d.
        let lastIndex = LastIndex d (CHR ''/'')
        in go_slice dir 0 lastIndex))"

definition GetPath :: "string \<Rightarrow> string go" where
  "GetPath dir =
     (let dir = to_slash dir in
      go_bind (go_slice dir (int (length dir) - 1) (int (length dir))) (\<lambda>l.
        if l = ''/'' then go_slice dir 0 (int (length dir) - 1) else Ret dir))"

definition path_Delete :: "file_system \<Rightarrow> string \<Rightarrow> file_system \<times> bool" where
  "path_Delete fs dir = (if \<not> path_Exists fs dir then (fs, False) else os_RemoveAll fs dir)"

subsection \<open>Files\<close>

definition file_Exists :: "file_system \<Rightarrow> string \<Rightarrow> bool" where
  "file_Exists fs filePath = (case os_Stat fs filePath of None \<Rightarrow> False | Some _ \<Rightarrow> True)"

definition file_Read :: "file_system \<Rightarrow> string \<Rightarrow> string" where
  "file_Read fs filePath =
     (if \<not> file_Exists fs filePath then ''''
      else case os_Stat fs filePath of Some (FFile d) \<Rightarrow> string_of d | _ \<Rightarrow> '''')"

text \<open>
  \<open>ReadAt\<close>: the length is cut to the size of the file, the offset to its bounds, and the buffer of
  that length is returned whole even when fewer bytes were left to read. \<open>make\<close> of a negative
  length panics.
\<close>

definition file_ReadAt :: "file_system \<Rightarrow> string \<Rightarrow> int \<Rightarrow> int \<Rightarrow> string go" where
  "file_ReadAt fs filePath offset len =
     (if \<not> file_Exists fs filePath then Ret ''''
      else case os_Stat fs filePath of
        Some (FFile d) \<Rightarrow>
          let nf1 = int (length d);
              len = (if len > nf1 then nf1 else len);
              pos = (if offset \<ge> 0 then (if offset > nf1 then nf1 else offset)
                     else nf1 + (if offset < 0 - nf1 then 0 - nf1 else offset))
          in if len < 0 then Panic SliceBounds
             else let buf = go_copy (replicate (nat len) 0) 0 (drop (nat pos) d);
                      n = min (nat len) (length d - nat pos)
                  in if n \<le> 0 then Ret '''' else Ret (string_of buf)
      | _ \<Rightarrow> Ret '''')"

text \<open>
  The loop of \<open>Write\<close> after the first write of \<open>n\<close> bytes. A turn is whether more than a second
  has passed and whether the write of the turn fails; \<open>os.File.Write\<close> writes all of its
  argument or fails. The result is the number of bytes and what the loop wrote.
\<close>

fun write_loop :: "int \<Rightarrow> int \<Rightarrow> bytes \<Rightarrow> (bool \<times> bool) list \<Rightarrow> (int \<times> bytes) go" where
  "write_loop n dlen wdata [] = Ret (n, [])"
| "write_loop n dlen wdata ((late, fails) # turns) =
     (if late then Ret (n, [])
      else if n \<ge> dlen then Ret (n, [])
      else go_bind (go_slice wdata n (dlen - n)) (\<lambda>wdata.
        if fails then Ret (n, [])
        else go_bind (write_loop (n + int (length wdata)) dlen wdata turns) (\<lambda>(m, out).
          Ret (m, wdata @ out))))"

definition file_Write ::
    "file_system \<Rightarrow> bool \<Rightarrow> string \<Rightarrow> string \<Rightarrow> bool \<Rightarrow> (bool \<times> bool) list
       \<Rightarrow> (file_system \<times> int) go" where
  "file_Write fs fails filePath data app turns =
     go_bind (GetParent filePath) (\<lambda>dir.
       let fs = fst (path_Mkdir fs dir)
       in case os_OpenWrite fs (\<not> app) filePath of
            None \<Rightarrow> Ret (fs, 0)
          | Some (fs, _) \<Rightarrow>
              if fails then Ret (fs, 0)
              else let wdata = bytes_of data;
                       fs = os_Append fs filePath wdata;
                       n = int (length wdata);
                       dlen = int (length data)
                   in go_bind (write_loop n dlen wdata turns) (\<lambda>(n, more).
                        Ret (os_Append fs filePath more, n)))"

definition file_Delete :: "file_system \<Rightarrow> string \<Rightarrow> file_system \<times> bool" where
  "file_Delete fs filePath = os_Remove fs filePath"

definition file_Length :: "file_system \<Rightarrow> string \<Rightarrow> int" where
  "file_Length fs filePath =
     (if \<not> file_Exists fs filePath then 0
      else case os_Stat fs filePath of Some (FFile d) \<Rightarrow> int (length d) | _ \<Rightarrow> 0)"

subsection \<open>Paths: lemmas\<close>

lemma last_index_from_append:
  "last_index_from i best c (xs @ ys) =
     last_index_from (i + int (length xs)) (last_index_from i best c xs) c ys"
  by (induction xs arbitrary: i best) (simp_all add: algebra_simps)

lemma last_index_from_notin: "c \<notin> set xs \<Longrightarrow> last_index_from i best c xs = best"
  by (induction xs arbitrary: i best) auto

lemma LastIndex_last: "c \<notin> set ys \<Longrightarrow> LastIndex (xs @ c # ys) c = int (length xs)"
  by (simp add: LastIndex_def last_index_from_append last_index_from_notin)

lemma LastIndex_none: "c \<notin> set xs \<Longrightarrow> LastIndex xs c = - 1"
  by (simp add: LastIndex_def last_index_from_notin)

lemma to_slash_append [simp]: "to_slash (a @ b) = to_slash a @ to_slash b"
  by (simp add: to_slash_def)

lemma to_slash_slash [simp]: "to_slash ''/'' = ''/''"
  by (simp add: to_slash_def)

lemma to_slash_id: "CHR 92 \<notin> set d \<Longrightarrow> to_slash d = d"
  unfolding to_slash_def by (rule map_idI) auto

lemma slash_notin: "CHR ''/'' \<notin> set b \<Longrightarrow> CHR 92 \<notin> set b \<Longrightarrow> CHR ''/'' \<notin> set (to_slash b)"
  by (simp add: to_slash_id)

lemma GetParent_joined:
  assumes "CHR ''/'' \<notin> set b" and "CHR 92 \<notin> set b" and "b \<noteq> []"
  shows "GetParent (d @ ''/'' @ b) = Ret (to_slash d)"
proof -
  obtain b' x where b: "b = b' @ [x]" using assms(3) by (cases b rule: rev_cases) auto
  have nb: "CHR ''/'' \<notin> set b'" "to_slash b = b" "to_slash b' = b'"
    using assms by (auto simp: b to_slash_id)
  let ?dir = "to_slash (d @ ''/'' @ b)"
  have sl: "go_slice ?dir 0 (int (length ?dir) - 1) = Ret (to_slash d @ CHR ''/'' # b')"
    using b nb by (simp add: go_slice_def to_slash_def nat_add_distrib)
  have "LastIndex (to_slash d @ CHR ''/'' # b') (CHR ''/'') = int (length d)"
    using LastIndex_last [OF nb(1), of "to_slash d"] by simp
  then show ?thesis
    unfolding GetParent_def Let_def sl by (simp add: go_slice_def)
qed

lemma GetParent_panics:
  "CHR ''/'' \<notin> set (to_slash p) \<Longrightarrow> GetParent p = Panic SliceBounds"
proof -
  assume none: "CHR ''/'' \<notin> set (to_slash p)"
  show ?thesis
  proof (cases "p = []")
    case True
    then show ?thesis by (simp add: GetParent_def go_slice_def to_slash_def)
  next
    case False
    have "LastIndex (take n (to_slash p)) (CHR ''/'') = - 1" for n
      using none by (intro LastIndex_none) (auto dest: in_set_takeD)
    with False show ?thesis by (simp add: GetParent_def go_slice_def Let_def)
  qed
qed

subsection \<open>Files: lemmas\<close>

lemma resolve_tree [simp]: "resolve (fs\<lparr>fs_tree := t\<rparr>) p = resolve fs p"
  by (simp add: resolve_def)

lemma os_OpenWrite_node:
  assumes "os_OpenWrite fs trunc p = Some (fs', d)"
  shows "p \<noteq> []" "resolve fs' p = resolve fs p" "fs_node fs' (resolve fs p) = Some (FFile d)"
    "resolve fs p \<noteq> []"
    "d = (case fs_node fs (resolve fs p) of Some (FFile c) \<Rightarrow> if trunc then [] else c | _ \<Rightarrow> [])"
  using assms
  by (auto simp: os_OpenWrite_def fs_node_def Let_def split: if_splits option.splits fnode.splits)

lemma write_loop_complete: "n \<ge> dlen \<Longrightarrow> write_loop n dlen w turns = Ret (n, [])"
  by (cases turns) auto

lemma os_Append_Nil [simp]: "os_Append fs p [] = fs"
  by (auto simp: os_Append_def fs_node_def Let_def fun_upd_idem split: option.split fnode.split)

lemma file_Write_complete:
  assumes "GetParent p = Ret dir"
    and "os_OpenWrite (fst (path_Mkdir fs dir)) (\<not> app) p = Some (fs', old)"
  shows "file_Write fs False p data app turns =
    Ret (os_Append fs' p (bytes_of data), int (length data))"
  using assms by (simp add: file_Write_def write_loop_complete)

lemma file_Read_Append:
  assumes "os_OpenWrite fs trunc p = Some (fs', old)"
  shows "file_Read (os_Append fs' p data) p = string_of (old @ data)"
  using os_OpenWrite_node [OF assms]
  by (simp add: file_Read_def file_Exists_def os_Stat_def os_Append_def Let_def fs_node_def)

lemma file_Write_Read:
  assumes "GetParent p = Ret dir"
    and "os_OpenWrite (fst (path_Mkdir fs dir)) True p = Some (fs', old)"
  shows "\<exists>fs''. file_Write fs False p data False turns = Ret (fs'', int (length data)) \<and>
    file_Read fs'' p = data"
proof -
  have "old = []" using os_OpenWrite_node(5) [OF assms(2)] by (auto split: option.splits fnode.splits)
  then show ?thesis
    using file_Write_complete [OF assms(1), of fs False] assms(2) file_Read_Append [OF assms(2)]
    by simp
qed

text \<open>The part of a file that \<open>ReadAt\<close> returns when it lies within the file.\<close>

lemma file_ReadAt_inside:
  assumes "os_Stat fs p = Some (FFile d)" and "0 \<le> off" and "0 < n" and "off + n \<le> int (length d)"
  shows "file_ReadAt fs p off n = Ret (string_of (take (nat n) (drop (nat off) d)))"
    and "file_ReadAt fs p (off - int (length d)) n = Ret (string_of (take (nat n) (drop (nat off) d)))"
proof -
  have c: "go_copy (replicate (nat n) 0) 0 (drop (nat off) d) = take (nat n) (drop (nat off) d)"
    using assms by (simp add: go_copy_def Let_def min_def) linarith
  have e: "file_Exists fs p" using assms(1) by (simp add: file_Exists_def)
  show "file_ReadAt fs p off n = Ret (string_of (take (nat n) (drop (nat off) d)))"
    using assms e c by (simp add: file_ReadAt_def Let_def)
  show "file_ReadAt fs p (off - int (length d)) n = Ret (string_of (take (nat n) (drop (nat off) d)))"
    using assms e c by (simp add: file_ReadAt_def Let_def)
qed

text \<open>Creating directories changes no file.\<close>

lemma mkdirs_keeps_file:
  "mkdirs fs done cs = Some fs' \<Longrightarrow> fs_tree fs q = Some (FFile d) \<Longrightarrow>
     fs_tree fs' q = Some (FFile d) \<and> fs_cwd fs' = fs_cwd fs"
proof (induction cs arbitrary: fs "done")
  case Nil
  then show ?case by simp
next
  case (Cons c cs)
  let ?p = "done @ [c]"
  show ?case
  proof (cases "fs_tree fs ?p")
    case None
    then have "q \<noteq> ?p" using Cons.prems(2) by auto
    with None Cons.prems have "mkdirs (fs\<lparr>fs_tree := (fs_tree fs)(?p \<mapsto> FDir)\<rparr>) ?p cs = Some fs'"
      "fs_tree (fs\<lparr>fs_tree := (fs_tree fs)(?p \<mapsto> FDir)\<rparr>) q = Some (FFile d)"
      by (auto simp: Let_def split: if_splits)
    from Cons.IH [OF this] show ?thesis by simp
  next
    case (Some n)
    with Cons show ?thesis by (cases n) (auto simp: Let_def)
  qed
qed

lemma mkdir_keeps_file:
  assumes "fs_node fs q = Some (FFile d)"
  shows "fs_node (fst (path_Mkdir fs dir)) q = Some (FFile d)"
    and "resolve (fst (path_Mkdir fs dir)) p = resolve fs p"
proof -
  have q: "q \<noteq> []" "fs_tree fs q = Some (FFile d)" using assms by (auto simp: fs_node_def split: if_splits)
  let ?fs = "fst (path_Mkdir fs dir)"
  have "fs_tree ?fs q = Some (FFile d) \<and> fs_cwd ?fs = fs_cwd fs"
  proof (cases "mkdirs fs [] (resolve fs dir)")
    case None
    then show ?thesis using q(2) by (simp add: path_Mkdir_def os_MkdirAll_def)
  next
    case (Some fs')
    from mkdirs_keeps_file [OF Some q(2)] show ?thesis
      using q(2) Some by (simp add: path_Mkdir_def os_MkdirAll_def)
  qed
  with q(1) show "fs_node ?fs q = Some (FFile d)" "resolve ?fs p = resolve fs p"
    by (simp_all add: fs_node_def resolve_def)
qed

end
