(* ===== verification/Utf8.thy ===== *)
theory Utf8
  imports Go_Base
begin

text \<open>
  Go's view of a string as code points: \<open>range\<close> over a string, \<open>[]rune(s)\<close>, \<open>string(runes)\<close> and
  the functions \<open>utf8.DecodeRune\<close> and \<open>utf8.EncodeRune\<close> they rest on. A byte that does not start a
  well-formed sequence is the code point U+FFFD of width one. A string is a list of bytes, so the
  functions work on the numbers of its characters.
\<close>

type_synonym rune = nat

definition RuneError :: rune where
  "RuneError = 0xFFFD"

definition is_cont :: "nat \<Rightarrow> bool" where
  "is_cont b \<longleftrightarrow> 0x80 \<le> b \<and> b \<le> 0xBF"

text \<open>
  The rune at the head of \<open>b # bs\<close> and how many bytes of \<open>bs\<close> belong to it. The bounds of the
  second byte exclude overlong forms, surrogates and numbers past U+10FFFF.
\<close>

fun decode_rune :: "nat \<Rightarrow> nat list \<Rightarrow> rune \<times> nat" where
  "decode_rune b bs =
     (if b < 0x80 then (b, 0)
      else if 0xC2 \<le> b \<and> b \<le> 0xDF then
        (case bs of
           c # _ \<Rightarrow> if is_cont c then ((b - 0xC0) * 64 + (c - 0x80), 1) else (RuneError, 0)
         | _ \<Rightarrow> (RuneError, 0))
      else if 0xE0 \<le> b \<and> b \<le> 0xEF then
        (case bs of
           c # d # _ \<Rightarrow>
             if is_cont c \<and> (b = 0xE0 \<longrightarrow> 0xA0 \<le> c) \<and> (b = 0xED \<longrightarrow> c \<le> 0x9F) \<and> is_cont d
             then ((b - 0xE0) * 4096 + (c - 0x80) * 64 + (d - 0x80), 2) else (RuneError, 0)
         | _ \<Rightarrow> (RuneError, 0))
      else if 0xF0 \<le> b \<and> b \<le> 0xF4 then
        (case bs of
           c # d # e # _ \<Rightarrow>
             if is_cont c \<and> (b = 0xF0 \<longrightarrow> 0x90 \<le> c) \<and> (b = 0xF4 \<longrightarrow> c \<le> 0x8F) \<and> is_cont d \<and> is_cont e
             then ((b - 0xF0) * 262144 + (c - 0x80) * 4096 + (d - 0x80) * 64 + (e - 0x80), 3)
             else (RuneError, 0)
         | _ \<Rightarrow> (RuneError, 0))
      else (RuneError, 0))"

declare decode_rune.simps [simp del]

definition valid_rune :: "rune \<Rightarrow> bool" where
  "valid_rune r \<longleftrightarrow> r < 0xD800 \<or> 0xDFFF < r \<and> r \<le> 0x10FFFF"

definition encode_rune :: "rune \<Rightarrow> nat list" where
  "encode_rune r =
     (if r < 0x80 then [r]
      else if r < 0x800 then [0xC0 + r div 64, 0x80 + r mod 64]
      else if \<not> valid_rune r then [0xEF, 0xBF, 0xBD]
      else if r < 0x10000 then [0xE0 + r div 4096, 0x80 + r div 64 mod 64, 0x80 + r mod 64]
      else [0xF0 + r div 262144, 0x80 + r div 4096 mod 64, 0x80 + r div 64 mod 64, 0x80 + r mod 64])"

text \<open>
  The decoded parts of a byte sequence: each rune with the bytes it was read from.
\<close>

function decode_parts :: "nat list \<Rightarrow> (rune \<times> nat list) list" where
  "decode_parts [] = []"
| "decode_parts (b # bs) =
     (case decode_rune b bs of (r, n) \<Rightarrow> (r, b # take n bs) # decode_parts (drop n bs))"
  by pat_completeness auto
termination by (relation "measure length") auto

definition decode_runes :: "nat list \<Rightarrow> rune list" where
  "decode_runes bs = map fst (decode_parts bs)"

definition codes :: "string \<Rightarrow> nat list" where
  "codes s = map of_char s"

definition chars :: "nat list \<Rightarrow> string" where
  "chars ns = map char_of ns"

text \<open>\<open>[]rune(s)\<close> and \<open>string(runes)\<close>.\<close>

definition runes_of :: "string \<Rightarrow> rune list" where
  "runes_of s = decode_runes (codes s)"

definition string_of_runes :: "rune list \<Rightarrow> string" where
  "string_of_runes rs = chars (concat (map encode_rune rs))"

subsection \<open>Conversions\<close>

lemma chars_codes [simp]: "chars (codes s) = s"
  by (simp add: chars_def codes_def comp_def)

lemma codes_chars: "list_all (\<lambda>n. n < 256) ns \<Longrightarrow> codes (chars ns) = ns"
  by (induction ns) (simp_all add: codes_def chars_def)

lemma codes_append [simp]: "codes (s @ t) = codes s @ codes t"
  by (simp add: codes_def)

lemma codes_Nil [simp]: "codes [] = []"
  by (simp add: codes_def)

lemma codes_Cons [simp]: "codes (c # s) = of_char c # codes s"
  by (simp add: codes_def)

lemma chars_append [simp]: "chars (s @ t) = chars s @ chars t"
  by (simp add: chars_def)

lemma chars_Nil [simp]: "chars [] = []"
  by (simp add: chars_def)

lemma chars_Cons [simp]: "chars (n # ns) = char_of n # chars ns"
  by (simp add: chars_def)

lemma length_codes [simp]: "length (codes s) = length s"
  by (simp add: codes_def)

lemma codes_bytes: "list_all (\<lambda>n. n < 256) (codes s)"
  by (auto simp: codes_def list_all_iff)

subsection \<open>Decoding\<close>

lemma decode_rune_ascii: "b < 0x80 \<Longrightarrow> decode_rune b bs = (b, 0)"
  by (simp add: decode_rune.simps)

lemma encode_rune_ascii: "r < 0x80 \<Longrightarrow> encode_rune r = [r]"
  by (simp add: encode_rune_def)

lemma encode_rune_not_Nil [simp]: "encode_rune r \<noteq> []"
  by (simp add: encode_rune_def)

lemma base64_digits:
  fixes r :: nat
  obtains a b c d where "b < 64" "c < 64" "d < 64" "r = a * 262144 + b * 4096 + c * 64 + d"
    "r div 262144 = a" "r div 4096 = a * 64 + b" "r div 64 = a * 4096 + b * 64 + c"
    "r div 4096 mod 64 = b" "r div 64 mod 64 = c" "r mod 64 = d"
proof
  let ?a = "r div 262144" and ?b = "r div 4096 mod 64" and ?c = "r div 64 mod 64" and ?d = "r mod 64"
  have two: "r div 4096 = r div 64 div 64" and three: "r div 262144 = r div 4096 div 64"
    by (simp_all add: div_mult2_eq [symmetric])
  show d1: "r div 4096 = ?a * 64 + ?b" unfolding three by (simp add: mult.commute)
  show d2: "r div 64 = ?a * 4096 + ?b * 64 + ?c"
    using div_mult_mod_eq [of "r div 64" 64] d1 unfolding two [symmetric] by linarith
  show "r = ?a * 262144 + ?b * 4096 + ?c * 64 + ?d"
    using div_mult_mod_eq [of r 64] d2 by linarith
qed simp_all

text \<open>Every valid rune is read back from its encoding, whatever follows.\<close>

lemma decode_encode_2:
  assumes "0x80 \<le> r" "r < 0x800"
  shows "decode_rune (0xC0 + r div 64) ((0x80 + r mod 64) # rest) = (r, 1)"
proof (rule base64_digits [of r])
  fix a b c d :: nat
  assume "b < 64" "c < 64" "d < 64" and r: "r = a * 262144 + b * 4096 + c * 64 + d"
    and d: "r div 64 = a * 4096 + b * 64 + c" "r mod 64 = d"
  with assms have "a = 0" "b = 0" by linarith+
  with assms r \<open>d < 64\<close> have "2 \<le> c" "c < 32" by linarith+
  with \<open>a = 0\<close> \<open>b = 0\<close> show ?thesis using \<open>d < 64\<close> unfolding d by (simp add: decode_rune.simps is_cont_def r)
qed

lemma decode_encode_3:
  assumes "0x800 \<le> r" "r < 0x10000" "valid_rune r"
  shows "decode_rune (0xE0 + r div 4096) ((0x80 + r div 64 mod 64) # (0x80 + r mod 64) # rest) = (r, 2)"
proof (rule base64_digits [of r])
  fix a b c d :: nat
  assume lt: "b < 64" "c < 64" "d < 64" and r: "r = a * 262144 + b * 4096 + c * 64 + d"
    and d: "r div 4096 = a * 64 + b" "r div 64 mod 64 = c" "r mod 64 = d"
  with assms have "a = 0" by linarith
  moreover from this assms r lt have "b < 16" "b = 0 \<Longrightarrow> 32 \<le> c" by linarith+
  moreover from \<open>a = 0\<close> assms(3) r lt have "b = 13 \<Longrightarrow> c \<le> 31" unfolding valid_rune_def by linarith
  ultimately show ?thesis using lt unfolding d by (simp add: decode_rune.simps is_cont_def r)
qed

lemma decode_encode_4:
  assumes "0x10000 \<le> r" "valid_rune r"
  shows "decode_rune (0xF0 + r div 262144)
      ((0x80 + r div 4096 mod 64) # (0x80 + r div 64 mod 64) # (0x80 + r mod 64) # rest) = (r, 3)"
proof (rule base64_digits [of r])
  fix a b c d :: nat
  assume lt: "b < 64" "c < 64" "d < 64" and r: "r = a * 262144 + b * 4096 + c * 64 + d"
    and d: "r div 262144 = a" "r div 4096 mod 64 = b" "r div 64 mod 64 = c" "r mod 64 = d"
  have top: "r \<le> 0x10FFFF" using assms unfolding valid_rune_def by linarith
  from assms(1) r lt top have "a < 5" "a = 0 \<Longrightarrow> 16 \<le> b" "a = 4 \<Longrightarrow> b \<le> 15" by linarith+
  then show ?thesis using lt unfolding d by (simp add: decode_rune.simps is_cont_def r)
qed

lemma decode_encode_rune:
  assumes "valid_rune r"
  shows "decode_rune (hd (encode_rune r)) (tl (encode_rune r) @ rest) = (r, length (encode_rune r) - 1)"
  using assms decode_encode_2 [of r rest] decode_encode_3 [of r rest] decode_encode_4 [of r rest]
  by (auto simp: encode_rune_def decode_rune_ascii)

lemma decode_parts_encode:
  assumes "valid_rune r"
  shows "decode_parts (encode_rune r @ rest) = (r, encode_rune r) # decode_parts rest"
proof -
  obtain b bs where e: "encode_rune r = b # bs" by (cases "encode_rune r") auto
  with decode_encode_rune [OF assms, of rest] show ?thesis by simp
qed

lemma decode_runes_encode:
  "list_all valid_rune rs \<Longrightarrow> decode_runes (concat (map encode_rune rs)) = rs"
  by (induction rs) (simp_all add: decode_runes_def decode_parts_encode)

lemma encode_rune_bytes: "list_all (\<lambda>n. n < 256) (encode_rune r)"
proof (cases "valid_rune r")
  case True
  then have "r \<le> 0x10FFFF" unfolding valid_rune_def by linarith
  then have "r div 262144 < 5" by (simp add: less_mult_imp_div_less)
  moreover have "r < 0x10000 \<Longrightarrow> r div 4096 < 16" "r < 0x800 \<Longrightarrow> r div 64 < 32"
    by (simp_all add: less_mult_imp_div_less)
  moreover have "x mod 64 < 128" for x :: nat by (rule less_trans [OF mod_less_divisor]) simp_all
  ultimately show ?thesis using True by (fastforce simp: encode_rune_def)
next
  case False
  then show ?thesis by (auto simp: encode_rune_def valid_rune_def)
qed

lemma concat_encode_bytes: "list_all (\<lambda>n. n < 256) (concat (map encode_rune rs))"
  by (induction rs) (simp_all add: encode_rune_bytes)

text \<open>Valid code points survive \<open>string\<close> and \<open>[]rune\<close>.\<close>

lemma runes_of_string_of_runes:
  "list_all valid_rune rs \<Longrightarrow> runes_of (string_of_runes rs) = rs"
  by (simp add: runes_of_def string_of_runes_def codes_chars concat_encode_bytes decode_runes_encode)

text \<open>A decoded rune is always a valid one.\<close>

lemma decode_rune_valid:
  assumes "decode_rune b bs = (r, n)"
  shows "valid_rune r" and "n \<le> length bs"
proof -
  have digits: "valid_rune (x * 4096 + y * 64 + z)"
    if "x \<le> 15" "y \<le> 63" "z \<le> 63" "x = 13 \<Longrightarrow> y \<le> 31" for x y z :: nat
    using that unfolding valid_rune_def by (cases x "13 :: nat" rule: linorder_cases) linarith+
  have three: "valid_rune ((b - 0xE0) * 4096 + (c - 0x80) * 64 + (d - 0x80))"
    if "0xE0 \<le> b" "b \<le> 0xEF" "is_cont c" "is_cont d" "b = 0xED \<longrightarrow> c \<le> 0x9F" for c d :: nat
    using that by (intro digits) (auto simp: is_cont_def)
  have four: "valid_rune ((b - 0xF0) * 262144 + (c - 0x80) * 4096 + (d - 0x80) * 64 + (e - 0x80))"
    if "0xF0 \<le> b" "b \<le> 0xF4" "is_cont c" "is_cont d" "is_cont e"
      "b = 0xF0 \<longrightarrow> 0x90 \<le> c" "b = 0xF4 \<longrightarrow> c \<le> 0x8F" for c d e :: nat
  proof -
    from that obtain w x y z where "b = 0xF0 + w" "c = 0x80 + x" "d = 0x80 + y" "e = 0x80 + z"
      unfolding is_cont_def le_iff_add by blast
    moreover from this that have "w \<le> 4" "x \<le> 63" "y \<le> 63" "z \<le> 63" "w = 0 \<Longrightarrow> 16 \<le> x" "w = 4 \<Longrightarrow> x \<le> 15"
      by (auto simp: is_cont_def)
    ultimately show ?thesis by (cases "w = 0"; cases "w = 4") (auto simp: valid_rune_def)
  qed
  have err: "valid_rune RuneError" by (simp add: RuneError_def valid_rune_def)
  from assms three four err show "valid_rune r"
    by (auto simp: decode_rune.simps is_cont_def valid_rune_def split: if_splits list.splits)
  from assms show "n \<le> length bs"
    by (auto simp: decode_rune.simps split: if_splits list.splits)
qed

lemma decode_parts_valid: "list_all (\<lambda>p. valid_rune (fst p)) (decode_parts bs)"
  by (induction bs rule: decode_parts.induct) (auto split: prod.splits dest: decode_rune_valid)

lemma decode_runes_valid: "list_all valid_rune (decode_runes bs)"
  using decode_parts_valid [of bs] by (simp add: decode_runes_def list_all_iff)

lemma runes_of_valid: "list_all valid_rune (runes_of s)"
  by (simp add: runes_of_def decode_runes_valid)

text \<open>The parts, put back together, are the bytes that were read.\<close>

lemma decode_parts_raw: "concat (map snd (decode_parts bs)) = bs"
  by (induction bs rule: decode_parts.induct) (auto split: prod.splits)

text \<open>A text of ASCII characters is its own list of runes.\<close>

lemma decode_parts_ascii:
  "list_all (\<lambda>b. b < 0x80) bs \<Longrightarrow> decode_parts bs = map (\<lambda>b. (b, [b])) bs"
  by (induction bs) (simp_all add: decode_rune_ascii)

lemma runes_of_ascii: "list_all (\<lambda>c. of_char c < (0x80 :: nat)) s \<Longrightarrow> runes_of s = codes s"
  by (simp add: runes_of_def decode_runes_def decode_parts_ascii codes_def list_all_iff comp_def)

lemma encode_ascii: "list_all (\<lambda>b. b < 0x80) bs \<Longrightarrow> concat (map encode_rune bs) = bs"
  by (induction bs) (simp_all add: encode_rune_ascii)

end
