(* ===== verification/Wstring.thy ===== *)
theory Wstring
  imports Net Utf8
begin

text \<open>
  The string helpers of \<open>library/string\<close>. A \<open>WString\<close> wraps an \<open>interface{}\<close>; its methods switch on
  the dynamic type. \<open>int\<close> and \<open>uint\<close> are 64 bits wide, so \<open>int(x)\<close> of an \<open>int64\<close> changes nothing and of
  a \<open>uint\<close> reinterprets its bits: all integers are kept as 64-bit words and read signed.
  \<open>strconv.ParseFloat\<close> and the conversions of integers to floating point are arguments of the
  definitions that use them.
\<close>

datatype wstr =
    WStr string
  | WBytes bytes
  | WInt int64
  | WInt64 int64
  | WUint int64
  | WOther

fun ws_ToString :: "wstr \<Rightarrow> string" where
  "ws_ToString (WStr s) = s"
| "ws_ToString (WBytes b) = string_of b"
| "ws_ToString (WInt i) = int_digits (sint i)"
| "ws_ToString (WInt64 i) = int_digits (sint i)"
| "ws_ToString (WUint u) = int_digits (sint u)"
| "ws_ToString WOther = []"

text \<open>\<open>pos + length\<close> wraps at 64 bits.\<close>

definition ws_Substr :: "wstr \<Rightarrow> int64 \<Rightarrow> int64 \<Rightarrow> string go" where
  "ws_Substr w pos len =
     (let runes = runes_of (ws_ToString w);
          pos = (if sint pos < 0 then of_nat (length runes) + pos else pos);
          l = pos + len;
          l = (if int (length runes) < sint l then of_nat (length runes) else l)
      in go_bind (go_slice runes (sint pos) (sint l)) (\<lambda>rs. Ret (string_of_runes rs)))"

definition ws_Length :: "wstr \<Rightarrow> nat" where
  "ws_Length w = length (runes_of (ws_ToString w))"

text \<open>
  The scanning loop of \<open>ToInt\<close>, over the bytes, and of \<open>ToInt64\<close>, over the runes: bytes before the
  first digit are skipped, the first other byte after it ends the loop. \<open>v\<close> is a code, \<open>res\<close> the
  digits collected so far, \<open>start\<close> whether there is one.
\<close>

fun scan_digits :: "string \<Rightarrow> bool \<Rightarrow> nat list \<Rightarrow> string" where
  "scan_digits res start [] = res"
| "scan_digits res start (v # vs) =
     (if v \<ge> 48 \<and> v \<le> 57 then scan_digits (res @ [char_of v]) True vs
      else if start then res
      else scan_digits res start vs)"

definition or_zero :: "string \<Rightarrow> string" where
  "or_zero res = (if res = [] then ''0'' else res)"

definition Atoi :: "string \<Rightarrow> int \<times> bool" where
  "Atoi s = ParseInt 64 s"

fun ws_ToInt :: "wstr \<Rightarrow> int" where
  "ws_ToInt (WStr s) = fst (Atoi (or_zero (scan_digits [] False (codes s))))"
| "ws_ToInt (WBytes b) = fst (Atoi (string_of b))"
| "ws_ToInt (WInt i) = sint i"
| "ws_ToInt (WInt64 i) = sint i"
| "ws_ToInt (WUint u) = sint u"
| "ws_ToInt WOther = 0"

fun ws_ToInt64 :: "wstr \<Rightarrow> int" where
  "ws_ToInt64 (WStr s) = fst (ParseInt 64 (or_zero (scan_digits [] False (runes_of s))))"
| "ws_ToInt64 (WBytes b) = fst (ParseInt 64 (string_of b))"
| "ws_ToInt64 (WInt i) = sint i"
| "ws_ToInt64 (WInt64 i) = sint i"
| "ws_ToInt64 (WUint u) = sint u"
| "ws_ToInt64 WOther = 0"

text \<open>
  The loop of \<open>ToFloat32\<close> and \<open>ToFloat64\<close>: \<open>k\<close> is the byte offset of the rune \<open>v\<close>, which matters only
  at the first one.
\<close>

fun scan_float :: "nat \<Rightarrow> string \<Rightarrow> bool \<Rightarrow> nat list \<Rightarrow> string" where
  "scan_float k res start [] = res"
| "scan_float k res start (v # vs) =
     (if k = 0 \<and> (v < 48 \<or> v > 57) then res
      else if v \<ge> 48 \<and> v \<le> 57 \<or> v = 46 then scan_float (Suc k) (res @ [char_of v]) True vs
      else if start then res
      else scan_float (Suc k) res start vs)"

text \<open>
  \<open>parse_float bits s\<close> stands for \<open>strconv.ParseFloat(s, bits)\<close>, \<open>from_int\<close> and \<open>from_uint\<close> for the
  conversions of an integer to the floating-point type \<open>'f\<close>.
\<close>

fun ws_ToFloat :: "(nat \<Rightarrow> string \<Rightarrow> 'f \<times> bool) \<Rightarrow> (int64 \<Rightarrow> 'f) \<Rightarrow> (int64 \<Rightarrow> 'f) \<Rightarrow> 'f \<Rightarrow> nat \<Rightarrow> wstr \<Rightarrow> 'f" where
  "ws_ToFloat parse_float from_int from_uint zero bits (WStr s) =
     fst (parse_float bits (or_zero (scan_float 0 [] False (runes_of s))))"
| "ws_ToFloat parse_float from_int from_uint zero bits (WBytes b) = fst (parse_float bits (string_of b))"
| "ws_ToFloat parse_float from_int from_uint zero bits (WInt i) = from_int i"
| "ws_ToFloat parse_float from_int from_uint zero bits (WInt64 i) = from_int i"
| "ws_ToFloat parse_float from_int from_uint zero bits (WUint u) = from_uint u"
| "ws_ToFloat parse_float from_int from_uint zero bits WOther = zero"

definition ws_ToFloat32 :: "(nat \<Rightarrow> string \<Rightarrow> 'f \<times> bool) \<Rightarrow> (int64 \<Rightarrow> 'f) \<Rightarrow> (int64 \<Rightarrow> 'f) \<Rightarrow> 'f \<Rightarrow> wstr \<Rightarrow> 'f" where
  "ws_ToFloat32 parse_float from_int from_uint zero = ws_ToFloat parse_float from_int from_uint zero 32"

definition ws_ToFloat64 :: "(nat \<Rightarrow> string \<Rightarrow> 'f \<times> bool) \<Rightarrow> (int64 \<Rightarrow> 'f) \<Rightarrow> (int64 \<Rightarrow> 'f) \<Rightarrow> 'f \<Rightarrow> wstr \<Rightarrow> 'f" where
  "ws_ToFloat64 parse_float from_int from_uint zero = ws_ToFloat parse_float from_int from_uint zero 64"

text \<open>
  \<open>RandString\<close>: \<open>draws\<close> are the successive results of \<open>r.Intn(len(bt))\<close>, as many as \<open>slen\<close>; a
  negative \<open>slen\<close> gives the empty string.
\<close>

definition rand_alphabet :: string where
  "rand_alphabet = ''0123456789abcdefghijklmnopqrstuvwxyzABCDEFGHIJKLMNOPQRSTUVWXYZ''"

definition RandString :: "(nat \<Rightarrow> nat) \<Rightarrow> int \<Rightarrow> string go" where
  "RandString draws slen =
     go_bind (go_foldM (\<lambda>result i. go_bind (go_index rand_alphabet (int (draws i)))
                (\<lambda>c. Ret (result @ [c]))) [] [0..<nat slen]) Ret"

subsection \<open>Scanning\<close>

definition digit_code :: "nat \<Rightarrow> bool" where
  "digit_code v \<longleftrightarrow> 48 \<le> v \<and> v \<le> 57"

text \<open>The reference: the first maximal run of digits.\<close>

definition first_number :: "nat list \<Rightarrow> nat list" where
  "first_number vs = takeWhile digit_code (dropWhile (\<lambda>v. \<not> digit_code v) vs)"

lemma scan_digits_started: "scan_digits res True vs = res @ chars (takeWhile digit_code vs)"
  by (induction vs arbitrary: res) (auto simp: digit_code_def)

lemma scan_digits_eq: "scan_digits [] False vs = chars (first_number vs)"
proof (induction vs)
  case Nil
  then show ?case by (simp add: first_number_def)
next
  case (Cons v vs)
  then show ?case
    by (auto simp: first_number_def scan_digits_started digit_code_def)
qed

lemma first_number_ascii: "list_all digit_code (first_number vs)"
  by (auto simp: first_number_def list_all_iff dest: set_takeWhileD)

lemma chars_digits: "list_all digit_code ns \<Longrightarrow> list_all is_digit (chars ns)"
  by (induction ns) (auto simp: digit_code_def is_digit_def)

text \<open>
  The runes of a string and its bytes have the same digits in the same places: a digit is never
  part of a longer sequence and a rune of several bytes is never a digit.
\<close>

lemma decode_rune_cases:
  "decode_rune b bs = (r, n) \<Longrightarrow>
     (digit_code r \<longleftrightarrow> digit_code b) \<and> (digit_code b \<longrightarrow> r = b \<and> n = 0) \<and>
     list_all (\<lambda>c. \<not> digit_code c) (take n bs)"
  by (auto simp: decode_rune.simps digit_code_def is_cont_def RuneError_def
      split: if_splits list.splits)

lemma dropWhile_none: "list_all P xs \<Longrightarrow> dropWhile P (xs @ ys) = dropWhile P ys"
  by (induction xs) simp_all

lemma takeWhile_decode: "takeWhile digit_code (decode_runes bs) = takeWhile digit_code bs"
proof (induction bs rule: decode_parts.induct)
  case 1
  then show ?case by (simp add: decode_runes_def)
next
  case (2 b bs)
  obtain r n where rn: "decode_rune b bs = (r, n)" by fastforce
  with decode_rune_cases [OF rn] 2 [OF rn [symmetric]] show ?case
    by (auto simp: decode_runes_def)
qed

lemma first_number_decode: "first_number (decode_runes bs) = first_number bs"
proof (induction bs rule: decode_parts.induct)
  case 1
  then show ?case by (simp add: decode_runes_def)
next
  case (2 b bs)
  obtain r n where rn: "decode_rune b bs = (r, n)" by fastforce
  note c = decode_rune_cases [OF rn]
  have runes: "decode_runes (b # bs) = r # decode_runes (drop n bs)"
    by (simp add: decode_runes_def rn)
  show ?case
  proof (cases "digit_code b")
    case True
    with c show ?thesis
      by (simp add: runes first_number_def takeWhile_decode)
  next
    case False
    have "dropWhile (\<lambda>v. \<not> digit_code v) bs = dropWhile (\<lambda>v. \<not> digit_code v) (drop n bs)"
      using dropWhile_none [of "\<lambda>v. \<not> digit_code v" "take n bs" "drop n bs"] c by simp
    with False c 2 [OF rn [symmetric]] show ?thesis
      by (simp add: runes first_number_def)
  qed
qed

lemma to_int_first:
  "ws_ToInt (WStr s) = min (int (nat_of_digits 0 (chars (first_number (codes s))))) (2 ^ 63 - 1) \<and>
   ws_ToInt64 (WStr s) = ws_ToInt (WStr s)"
proof -
  let ?ns = "first_number (codes s)"
  have "fst (ParseInt 64 (or_zero (chars ?ns))) = min (int (nat_of_digits 0 (chars ?ns))) (2 ^ 63 - 1)"
  proof (cases "?ns = []")
    case True
    then show ?thesis
      by (simp add: or_zero_def ParseInt_digits is_digit_def)
  next
    case False
    then have "chars ?ns \<noteq> []" by (simp add: chars_def)
    then show ?thesis
      using chars_digits [OF first_number_ascii] by (simp add: or_zero_def ParseInt_digits)
  qed
  then show ?thesis
    by (simp add: scan_digits_eq Atoi_def runes_of_def first_number_decode)
qed

text \<open>
  C39: On every string \<open>ToInt\<close> and \<open>ToInt64\<close> agree, and give the value of the first maximal run of
  digits, whatever precedes and follows it, 0 when there is no digit and the largest 64-bit integer
  when the number does not fit. The two are written differently: one scans bytes, the other code
  points.\<close>

theorem to_int_first_number:
  "ws_ToInt (WStr s) = min (int (nat_of_digits 0 (chars (first_number (codes s))))) (2 ^ 63 - 1) \<and>
   ws_ToInt64 (WStr s) = ws_ToInt (WStr s)"
  by (rule to_int_first)

subsection \<open>Numbers and their text\<close>

lemma first_number_digits: "list_all digit_code ns \<Longrightarrow> first_number ns = ns"
  by (cases ns) (auto simp: first_number_def list_all_iff)

lemma codes_nat_digits: "list_all digit_code (codes (nat_digits n))"
  using nat_digits_is_digit [of n] by (simp add: codes_def list_all_iff digit_code_def is_digit_def)

lemma first_number_int_digits: "first_number (codes (int_digits i)) = codes (nat_digits (nat \<bar>i\<bar>))"
proof -
  have minus: "first_number (45 # ns) = first_number ns" for ns
    by (simp add: first_number_def digit_code_def)
  show ?thesis
    by (simp add: int_digits_def minus first_number_digits codes_nat_digits)
qed

lemma ParseInt_int_digits:
  assumes "- (2 ^ 63) \<le> i" "i < 2 ^ 63"
  shows "ParseInt 64 (int_digits i) = (i, False)"
proof (cases "i < 0")
  case True
  let ?n = "nat (- i)"
  have "?n < 2 ^ 64" using assms True by (simp add: nat_less_iff)
  then have "ParseUint 64 (nat_digits ?n) = Inr ?n"
    using nat_digits_is_digit [of ?n] by (simp add: ParseUint_digits nat_of_digits_inverse)
  with assms True show ?thesis by (simp add: ParseInt_def int_digits_def Let_def)
next
  case False
  with assms ParseInt_nat_digits [of "nat i" 64] show ?thesis by (simp add: int_digits_def)
qed

lemma sint_bounds: "- (2 ^ 63) \<le> sint (i :: int64)" "sint (i :: int64) < 2 ^ 63"
  using sint_greater_eq [of i] sint_less [of i] by simp_all

text \<open>
  An integer printed by \<open>ToString\<close> is read back by \<open>ToInt\<close> from the bytes with its sign, and
  from the string without it: the string branch skips the minus sign like any other character, so
  -5 comes back as 5.\<close>

theorem int_text_roundtrip:
  "ws_ToInt (WBytes (bytes_of (ws_ToString (WInt i)))) = sint i \<and>
   ws_ToInt (WStr (ws_ToString (WInt i))) = min \<bar>sint i\<bar> (2 ^ 63 - 1)"
proof -
  have "ws_ToInt (WStr (ws_ToString (WInt i))) =
      min (int (nat_of_digits 0 (nat_digits (nat \<bar>sint i\<bar>)))) (2 ^ 63 - 1)"
    by (simp only: ws_ToString.simps conjunct1 [OF to_int_first] first_number_int_digits chars_codes)
  then show ?thesis
    using sint_bounds [of i] by (simp add: Atoi_def ParseInt_int_digits nat_of_digits_inverse)
qed

lemma sint_of_int_small: "- (2 ^ 63) \<le> i \<Longrightarrow> i < 2 ^ 63 \<Longrightarrow> sint (of_int i :: int64) = i"
  by (simp add: int_word_sint mod_pos_pos_trivial)

text \<open>A \<open>uint\<close> is printed through \<open>int\<close>: from \<open>2 ^ 63\<close> on the text is a negative number.\<close>

lemma uint_text: "ws_ToString (WUint u) = int_digits (if unat u < 2 ^ 63 then int (unat u) else int (unat u) - 2 ^ 64)"
proof -
  have "sint u = (if unat u < 2 ^ 63 then int (unat u) else int (unat u) - 2 ^ 64)"
  proof (cases "unat u < 2 ^ 63")
    case True
    then show ?thesis by (simp add: sint_nonneg)
  next
    case False
    have "uint u < 2 ^ 64" using unsigned_less [of u, where 'a = int] by simp
    moreover have "int (2 ^ 63) \<le> int (unat u)" using False by (simp only: of_nat_le_iff not_less)
    then have "2 ^ 63 \<le> uint u" by simp
    ultimately have "sint (of_int (int (unat u) - 2 ^ 64) :: int64) = int (unat u) - 2 ^ 64"
      by (intro sint_of_int_small) simp_all
    moreover have e: "(of_int (int (unat u) - 2 ^ 64) :: int64) = u" by simp
    ultimately have "sint u = int (unat u) - 2 ^ 64" by (simp only: e)
    then show ?thesis using False by (simp only: if_False)
  qed
  then show ?thesis by simp
qed

subsection \<open>Parts of a string\<close>

text \<open>
  \<open>Substr\<close> counts code points; a negative position counts from the end, a length that reaches
  past the end is cut, and it panics exactly when the position is out of the string on either side
  or the length is negative.\<close>

theorem substr_bounds:
  assumes "int (ws_Length w) < 2 ^ 62" "\<bar>pos\<bar> < 2 ^ 62" "\<bar>len\<bar> < 2 ^ 62"
  shows "ws_Substr w (of_int pos) (of_int len) =
     (let n = int (ws_Length w); p = (if pos < 0 then n + pos else pos)
      in if 0 \<le> p \<and> p \<le> n \<and> 0 \<le> len
         then Ret (string_of_runes (take (nat len) (drop (nat p) (runes_of (ws_ToString w)))))
         else Panic SliceBounds)"
proof -
  define rs where "rs = runes_of (ws_ToString w)"
  define p where "p = (if pos < 0 then int (length rs) + pos else pos)"
  have n: "int (length rs) < 2 ^ 62" using assms(1) by (simp add: ws_Length_def rs_def)
  have pos: "sint (of_int pos :: int64) = pos" using assms(2) by (intro sint_of_int_small) simp_all
  have p: "(if sint (of_int pos :: int64) < 0 then of_nat (length rs) + of_int pos else of_int pos :: int64)
      = of_int p" by (simp add: pos p_def)
  have pb: "\<bar>p\<bar> < 2 ^ 62" using n assms(2) by (auto simp: p_def)
  then have "sint (of_int p :: int64) = p" by (intro sint_of_int_small) auto
  moreover have "sint (of_int (p + len) :: int64) = p + len"
    using pb assms(3) by (intro sint_of_int_small) auto
  moreover have "sint (of_nat (length rs) :: int64) = int (length rs)"
    using sint_of_int_small [of "int (length rs)"] n by simp
  ultimately show ?thesis
    unfolding ws_Substr_def ws_Length_def rs_def [symmetric] Let_def p p_def [symmetric]
    by (auto simp: go_slice_def min_def simp flip: of_int_add)
qed

theorem substr_bounds_witness:
  "ws_Substr (WStr ''hello'') (of_int (- 2)) (of_int 7) = Ret ''lo'' \<and>
   ws_Substr (WStr ''hello'') (of_int 6) (of_int 1) = Panic SliceBounds"
proof -
  have s: "runes_of ''hello'' = [104, 101, 108, 108, 111]" by code_simp
  have "string_of_runes [108, 111] = ''lo''" by code_simp
  with substr_bounds [of "WStr ''hello''" "- 2" 7] substr_bounds [of "WStr ''hello''" 6 1]
  show ?thesis by (simp add: ws_Length_def s Let_def eval_nat_numeral)
qed

subsection \<open>Random strings\<close>

lemma RandString_spec:
  assumes "\<And>i. draws i < 62"
  shows "RandString draws slen = Ret (map (\<lambda>i. rand_alphabet ! draws i) [0..<nat slen])"
proof -
  have len: "length rand_alphabet = 62" by (simp add: rand_alphabet_def)
  have "go_foldM (\<lambda>result i. go_bind (go_index rand_alphabet (int (draws i))) (\<lambda>c. Ret (result @ [c])))
      [] is = Ret (foldl (\<lambda>result i. result @ [rand_alphabet ! draws i]) [] is)" for "is"
    using assms by (intro go_foldM_Ret) (simp add: go_index_nat len)
  moreover have "foldl (\<lambda>result i. result @ [f i]) acc is = acc @ map f is" for f :: "nat \<Rightarrow> char" and acc "is"
    by (induction "is" arbitrary: acc) simp_all
  ultimately show ?thesis by (simp add: RandString_def)
qed

text \<open>
  The floating-point scan reads a prefix of digits and dots that starts with a digit; a text such
  as \<open>1.2.3\<close> is passed on whole and rejected by \<open>ParseFloat\<close>.
\<close>

definition float_code :: "nat \<Rightarrow> bool" where
  "float_code v \<longleftrightarrow> digit_code v \<or> v = 46"

lemma scan_float_started: "0 < k \<Longrightarrow> scan_float k res True vs = res @ chars (takeWhile float_code vs)"
  by (induction vs arbitrary: res k) (auto simp: float_code_def digit_code_def)

lemma scan_float_eq:
  "scan_float 0 [] False vs =
     (if vs \<noteq> [] \<and> digit_code (hd vs) then chars (takeWhile float_code vs) else [])"
  by (cases vs) (auto simp: scan_float_started float_code_def digit_code_def)

end
