(* ===== verification/App.thy ===== *)
theory App
  imports Files Wstring
begin

text \<open>
  \<^verbatim>\<open>src/library/app\<close>: the configuration files, the paths of the process, its pid file and the
  key file of a node. \<open>toml.DecodeFile\<close> is an argument \<open>dec\<close>: it maps the content of a file to the
  decoded structure, or \<open>None\<close> when it does not parse. A pointer result that is nil on an error is
  the \<open>Inl\<close> of a sum, and using it after dropping the error is a nil dereference.
\<close>

datatype app_error = ErrorFileNotFound | ErrorFileParse

definition config_file :: "string \<Rightarrow> string \<Rightarrow> string" where
  "config_file ConfigPath name = ConfigPath @ ''/'' @ name"

text \<open>The shape all the configuration readers have: test for the file, then decode it.\<close>

definition decode_file :: "file_system \<Rightarrow> (string \<Rightarrow> 'c option) \<Rightarrow> string \<Rightarrow> app_error + 'c" where
  "decode_file fs dec configFile =
     (if \<not> file_Exists fs configFile then Inl ErrorFileNotFound
      else case os_Stat fs configFile of
        Some (FFile d) \<Rightarrow>
          (case dec (string_of d) of None \<Rightarrow> Inl ErrorFileParse | Some c \<Rightarrow> Inr c)
      | _ \<Rightarrow> Inl ErrorFileParse)"

text \<open>Using a pointer whose error was ignored.\<close>

definition deref :: "'e + 'c \<Rightarrow> 'c go" where
  "deref r = (case r of Inl _ \<Rightarrow> Panic NilDereference | Inr c \<Rightarrow> Ret c)"

lemma deref_simps [simp]: "deref (Inl e) = Panic NilDereference" "deref (Inr c) = Ret c"
  by (simp_all add: deref_def)

subsection \<open>The application's configuration\<close>

record app_config =
  ac_LogLevel :: int
  ac_PprofListen :: string
  ac_ControlListen :: string
  ac_TimeZone :: string
  ac_CachePath :: string
  ac_LogPath :: string
  ac_PidFile :: string

text \<open>The package variables.\<close>

record app_env =
  ev_Pid :: string
  ev_ConfigPath :: string
  ev_CachePath :: string
  ev_LogPath :: string

definition app_env_init :: "string \<Rightarrow> app_env" where
  "app_env_init CurrentPath =
     \<lparr>ev_Pid = CurrentPath @ ''/wing-binlog-go.pid'', ev_ConfigPath = CurrentPath @ ''/config'',
      ev_CachePath = CurrentPath @ ''/cache'', ev_LogPath = CurrentPath @ ''/logs''\<rparr>"

definition pathParse :: "file_system \<Rightarrow> string \<Rightarrow> string \<Rightarrow> string" where
  "pathParse fs dir defaultValue =
     (if dir = '''' \<or> \<not> path_Exists fs dir then defaultValue
      else let dir = to_slash dir
           in if last dir = CHR ''/'' then butlast dir else dir)"

definition configPathParse :: "file_system \<Rightarrow> string \<Rightarrow> app_env \<Rightarrow> app_env" where
  "configPathParse fs configPath env =
     env\<lparr>ev_ConfigPath := pathParse fs configPath (ev_ConfigPath env)\<rparr>"

text \<open>The steps \<open>getAppConfig\<close> repeats for a directory: trim, create, parse, create.\<close>

definition ensure_dir :: "file_system \<Rightarrow> string \<Rightarrow> file_system" where
  "ensure_dir fs dir = (if dir \<noteq> '''' \<and> \<not> path_Exists fs dir then fst (path_Mkdir fs dir) else fs)"

definition dir_setting :: "file_system \<Rightarrow> string \<Rightarrow> string \<Rightarrow> file_system \<times> string" where
  "dir_setting fs dir defaultValue =
     (let dir = trim_spaces dir;
          fs = ensure_dir fs dir;
          dir = pathParse fs dir defaultValue;
          fs = ensure_dir fs dir
      in (fs, dir))"

definition getAppConfig ::
    "(string \<Rightarrow> app_config option) \<Rightarrow> app_env \<Rightarrow> file_system
       \<Rightarrow> (file_system \<times> (app_error + app_config)) go" where
  "getAppConfig dec env fs =
     (case decode_file fs dec (config_file (ev_ConfigPath env) ''wing-binlog-go.toml'') of
        Inl e \<Rightarrow> Ret (fs, Inl e)
      | Inr c \<Rightarrow>
          let c = (if ac_TimeZone c = '''' then c\<lparr>ac_TimeZone := ''Local''\<rparr> else c);
              (fs, cache) = dir_setting fs (ac_CachePath c) (ev_CachePath env);
              (fs, cache) = dir_setting fs cache (ev_CachePath env);
              (fs, log) = dir_setting fs (ac_LogPath c) (ev_LogPath env);
              c = c\<lparr>ac_CachePath := cache, ac_LogPath := log\<rparr>
          in if ac_PidFile c = '''' then Ret (fs, Inr (c\<lparr>ac_PidFile := ev_Pid env\<rparr>))
             else let pid = to_slash (ac_PidFile c)
                  in go_bind (GetParent pid) (\<lambda>dir.
                       Ret (fst (path_Mkdir fs dir), Inr (c\<lparr>ac_PidFile := pid\<rparr>))))"

record mysql_config =
  mc_Addr :: string
  mc_User :: string
  mc_Password :: string
  mc_Charset :: string
  mc_ServerID :: "32 word"
  mc_Flavor :: string
  mc_HeartbeatPeriod :: int64
  mc_ReadTimeout :: int64
  mc_BinFile :: string
  mc_BinPos :: "32 word"

definition getMysqlConfig ::
    "(string \<Rightarrow> mysql_config option) \<Rightarrow> app_env \<Rightarrow> file_system \<Rightarrow> app_error + mysql_config" where
  "getMysqlConfig dec env fs = decode_file fs dec (config_file (ev_ConfigPath env) ''canal.toml'')"

subsection \<open>Start of the process\<close>

text \<open>\<open>ioutil.WriteFile\<close>: create or truncate, then write; it creates no directory.\<close>

definition ioutil_WriteFile :: "file_system \<Rightarrow> string \<Rightarrow> bytes \<Rightarrow> file_system" where
  "ioutil_WriteFile fs p data =
     (case os_OpenWrite fs True p of None \<Rightarrow> fs | Some (fs', _) \<Rightarrow> os_Append fs' p data)"

text \<open>
  What \<open>Init\<close> sets in the process: the level of the logger (a \<open>uint32\<close> conversion of the setting), the
  directories of the log hooks and the address a goroutine serves pprof on, if any. The result of
  \<open>time.LoadLocation\<close> is dropped, so the time zone is no part of it.
\<close>

record app_settings =
  st_level :: "32 word"
  st_hooks :: "string list"
  st_pprof :: "string option"

datatype init_result =
    Initialised app_env file_system app_config app_settings
  | ExitProcess file_system

definition app_Init ::
    "(string \<Rightarrow> app_config option) \<Rightarrow> nat \<Rightarrow> bool \<Rightarrow> string \<Rightarrow> app_env \<Rightarrow> file_system
       \<Rightarrow> init_result go" where
  "app_Init dec pid hasCmd configPath env fs =
     (let env = configPathParse fs configPath env in
      go_bind (getAppConfig dec env fs) (\<lambda>(fs, r).
      go_bind (deref r) (\<lambda>appConfig.
        let env = env\<lparr>ev_Pid := ac_PidFile appConfig, ev_CachePath := ac_CachePath appConfig,
                      ev_LogPath := ac_LogPath appConfig\<rparr>
        in if file_Exists fs (ev_Pid env) \<and> \<not> hasCmd then Ret (ExitProcess fs)
           else let fs = ioutil_WriteFile fs (ev_Pid env) (bytes_of (nat_digits pid))
                in Ret (Initialised env fs appConfig
                     \<lparr>st_level = of_int (ac_LogLevel appConfig), st_hooks = [ev_LogPath env],
                      st_pprof = (if ac_PprofListen appConfig \<noteq> '''' then Some (ac_PprofListen appConfig)
                                  else None)\<rparr>))))"

text \<open>
  The key of a node: read from its file, or a new one of the time and 64 random characters.
\<close>

definition GetKey :: "nat \<Rightarrow> (nat \<Rightarrow> nat) \<Rightarrow> string \<Rightarrow> file_system \<Rightarrow> (file_system \<times> string) go" where
  "GetKey now rnd sessionFile fs =
     (let data = (if file_Exists fs sessionFile then file_Read fs sessionFile else '''') in
      if data \<noteq> '''' then Ret (fs, data)
      else go_bind (RandString rnd 64) (\<lambda>r.
           let key = nat_digits now @ ''-'' @ r
           in go_bind (GetParent sessionFile) (\<lambda>dir.
                let fs = fst (path_Mkdir fs dir)
                in go_bind (file_Write fs False sessionFile key False []) (\<lambda>(fs, n).
                     if n \<noteq> int (length key) then Ret (fs, '''') else Ret (fs, key)))))"

record tcp_group_config =
  tg_Name :: string
  tg_Filter :: "string list"

definition HasName :: "(string \<times> tcp_group_config) list \<Rightarrow> string \<Rightarrow> bool" where
  "HasName cs name = list_ex (\<lambda>(_, ngroup). name = tg_Name ngroup) cs"

record app_tcp_config =
  at_Listen :: string
  at_Port :: int
  at_Enable :: bool
  at_ServiceIp :: string
  at_Groups :: "(string \<times> tcp_group_config) list"

definition VERSION :: string where
  "VERSION = ''1.0.3''"

text \<open>The lines of \<open>Usage\<close>.\<close>

definition app_Usage :: "string list" where
  "app_Usage =
    [''*********************************************************************'',
     ''wing-binlog-go                                     --start service'',
     ''wing-binlog-go -version                            --show version info'',
     ''wing-binlog-go -stop                               --stop service'',
     ''wing-binlog-go -reload  http                       --reload http service'',
     ''wing-binlog-go -reload  tcp                        --reload tcp service'',
     ''wing-binlog-go -reload  redis                      --reload redis service'',
     ''wing-binlog-go -reload  all                        --reload all service'',
     ''wing-binlog-go -members                            --show cluster members'',
     ''wing-binlog-go -d|-daemon                          --run as daemon process'',
     ''wing-binlog-go -config-path [path like: /tmp/wing] --set config path'',
     ''*********************************************************************'']"

subsection \<open>The daemon\<close>

text \<open>
  \<open>Reborn\<close> of the daemon library is an argument: an error, the child process (in the parent) or nil
  (in the child). \<open>log.Fatal\<close> ends the process with status 1 and without its deferred calls.
\<close>

record daemon_context =
  dc_PidFileName :: string
  dc_LogFileName :: string
  dc_WorkDir :: string
  dc_Args :: "string list"

datatype reborn = RebornError | RebornParent | RebornChild

datatype daemon_result = DaemonReturns bool "daemon_context option" | DaemonFatal

definition DaemonProcess ::
    "(daemon_context \<Rightarrow> reborn) \<Rightarrow> string \<Rightarrow> string \<Rightarrow> app_env \<Rightarrow> bool \<Rightarrow> daemon_result" where
  "DaemonProcess Reborn arg CurrentPath env d =
     (if d then
        let exeFile = to_slash arg;
            lastIndex = LastIndex exeFile (CHR ''/'');
            fileName = (if lastIndex > - 1 then drop (nat (lastIndex + 1)) exeFile else exeFile);
            params = [CurrentPath @ ''/'' @ fileName, ''-daemon'', ''-config-path='' @ ev_ConfigPath env];
            ctx = \<lparr>dc_PidFileName = ev_Pid env, dc_LogFileName = '''', dc_WorkDir = CurrentPath, dc_Args = params\<rparr>
        in case Reborn ctx of
             RebornError \<Rightarrow> DaemonFatal
           | RebornParent \<Rightarrow> DaemonReturns True (Some ctx)
           | RebornChild \<Rightarrow> DaemonReturns False (Some ctx)
      else DaemonReturns False None)"

text \<open>The same file for Windows: no daemon.\<close>

definition DaemonProcess_windows :: "bool \<Rightarrow> bool" where
  "DaemonProcess_windows d = False"

text \<open>
  \<open>Release\<close> is deferred by \<open>main\<close>: it runs at every return and when a panic unwinds. The release of
  the daemon context unlinks the same pid file once more, if anything.
\<close>

definition app_Release :: "app_env \<Rightarrow> file_system \<Rightarrow> file_system" where
  "app_Release env fs = fst (file_Delete fs (ev_Pid env))"

definition app_Release_windows :: "app_env \<Rightarrow> file_system \<Rightarrow> file_system" where
  "app_Release_windows env fs = fst (file_Delete fs (ev_Pid env))"

subsection \<open>The context\<close>

text \<open>
  \<open>Stop\<close> and the signal handler send on an unbuffered channel, \<open>main\<close> receives once from it:
  \<open>cx_waiting\<close> are the senders that wait, \<open>cx_received\<close> whether \<open>main\<close> took a value.
\<close>

record app_context =
  cx_cancelled :: bool
  cx_waiting :: nat
  cx_received :: bool
  cx_MysqlConfig :: "app_error + mysql_config"
  cx_AppConfig :: "app_error + app_config"

definition NewContext ::
    "(string \<Rightarrow> mysql_config option) \<Rightarrow> (string \<Rightarrow> app_config option) \<Rightarrow> app_env \<Rightarrow> file_system
       \<Rightarrow> (file_system \<times> app_context) go" where
  "NewContext mdec adec env fs =
     go_bind (getAppConfig adec env fs) (\<lambda>(fs', appConfig).
       Ret (fs', \<lparr>cx_cancelled = False, cx_waiting = 0, cx_received = False,
                  cx_MysqlConfig = getMysqlConfig mdec env fs, cx_AppConfig = appConfig\<rparr>))"

definition ctx_Stop :: "app_context \<Rightarrow> app_context" where
  "ctx_Stop ctx = ctx\<lparr>cx_waiting := Suc (cx_waiting ctx)\<rparr>"

definition signalHandler :: "app_context \<Rightarrow> app_context" where
  "signalHandler ctx = ctx\<lparr>cx_waiting := Suc (cx_waiting ctx)\<rparr>"

definition ctx_Done :: "app_context \<Rightarrow> app_context go" where
  "ctx_Done ctx =
     (if cx_waiting ctx = 0 then Block
      else Ret (ctx\<lparr>cx_waiting := cx_waiting ctx - 1, cx_received := True\<rparr>))"

definition ctx_Cancel :: "app_context \<Rightarrow> app_context" where
  "ctx_Cancel ctx = ctx\<lparr>cx_cancelled := True\<rparr>"

end
