(* ===== verification/Binlog.thy ===== *)
theory Binlog
  imports Binlog_Pos Binlog_Field App
begin

text \<open>
  \<^verbatim>\<open>src/library/binlog/handler.go\<close> and \<^verbatim>\<open>binlog.go\<close>: the event handler that turns row events into
  notifications for the services, the cache of the binlog position, and the start and stop
  signals. The interface of the services is \<^verbatim>\<open>src/library/service/service.go\<close>.

  Arguments that stand for code outside the repository: \<open>json\<close> is \<open>json.Marshal\<close> of the event
  (\<open>None\<close> an error); the environment \<open>ce\<close> of the canal library says whether a canal can be
  configured and created and what position the master reports. \<open>ord\<close> is the order in which Go
  ranges over the map of services; it may be a different one for every event.
\<close>

subsection \<open>Services\<close>

record 'w service_if =
  si_Name :: string
  si_SendAll :: "string \<Rightarrow> bytes \<Rightarrow> 'w \<Rightarrow> ('w \<times> bool) go"
  si_Start :: "'w \<Rightarrow> 'w go"
  si_Close :: "'w \<Rightarrow> 'w go"
  si_Reload :: "'w \<Rightarrow> 'w go"

subsection \<open>State\<close>

record 'w binlog =
  bl_Config :: "app_error + mysql_config"
  bl_handler :: "nat option"            \<comment> \<open>which canal, by number of creation; \<open>None\<close> for nil\<close>
  bl_canals :: nat                      \<comment> \<open>how many canals were created\<close>
  bl_EventIndex :: int64
  bl_services :: "string \<Rightarrow> 'w service_if option"
  bl_cache :: bytes                     \<comment> \<open>content of the cache file\<close>
  bl_cacheFails :: bool                 \<comment> \<open>whether writing it fails\<close>
  bl_lastPos :: "32 word"
  bl_lastBinFile :: string
  bl_startChan :: nat
  bl_stopChan :: "bool list"
  bl_status :: int
  bl_onPosChanges :: "(bytes \<Rightarrow> 'w \<Rightarrow> 'w go) list"
  bl_onEvent :: "(string \<Rightarrow> bytes \<Rightarrow> 'w \<Rightarrow> 'w go) list"
  bl_world :: 'w

definition binlogIsRunning :: int where "binlogIsRunning = 1"
definition binlogIsExit :: int where "binlogIsExit = 2"
definition cacheHandlerIsOpened :: int where "cacheHandlerIsOpened = 4"

interpretation bl_run_exit: flag_pair binlogIsRunning 0 binlogIsExit 1
  by unfold_locales (simp_all add: binlogIsRunning_def binlogIsExit_def)

interpretation bl_run_cache: flag_pair binlogIsRunning 0 cacheHandlerIsOpened 2
  by unfold_locales (simp_all add: cacheHandlerIsOpened_def)

interpretation bl_exit_cache: flag_pair binlogIsExit 1 cacheHandlerIsOpened 2
  by unfold_locales simp

lemmas bl_flags =
  bl_run_exit.pair_simps bl_run_cache.pair_simps bl_exit_cache.pair_simps

record canal_env =
  ce_configOk :: bool
  ce_newOk :: bool
  ce_master :: "(string \<times> 32 word) option"

subsection \<open>The position cache\<close>

text \<open>\<open>WriteAt(r, 0)\<close> overwrites the beginning of the file and leaves what is behind.\<close>

definition bl_WriteAt :: "bytes \<Rightarrow> 'w binlog \<Rightarrow> 'w binlog" where
  "bl_WriteAt r h =
     (if bl_cacheFails h then h else h\<lparr>bl_cache := r @ drop (length r) (bl_cache h)\<rparr>)"

definition saveBinlogPositionCache :: "bytes \<Rightarrow> 'w binlog \<Rightarrow> 'w binlog go" where
  "saveBinlogPositionCache r h =
     (if has_flag (bl_status h) binlogIsExit then Ret h
      else let h = (if has_flag (bl_status h) cacheHandlerIsOpened then bl_WriteAt r h else h)
           in go_bind (go_foldM (\<lambda>w f. f r w) (bl_world h) (bl_onPosChanges h)) (\<lambda>w.
                Ret (h\<lparr>bl_world := w\<rparr>)))"

text \<open>\<open>bytes.MinRead\<close>\<close>

definition MinRead :: nat where "MinRead = 512"

definition getBinlogPositionCache :: "'w binlog \<Rightarrow> (string \<times> int64 \<times> int64) go" where
  "getBinlogPositionCache h =
     (if \<not> has_flag (bl_status h) cacheHandlerIsOpened then Ret ('''', 0, 0)
      else let data = go_copy (replicate MinRead 0) 0 (bl_cache h);
               n = min MinRead (length (bl_cache h))
           in if n \<le> 0 then Ret ('''', 0, 0) else unpackPos data)"

definition OnPosSynced :: "string \<times> 32 word \<Rightarrow> bool \<Rightarrow> 'w binlog \<Rightarrow> 'w binlog go" where
  "OnPosSynced p b h =
     (let eventIndex = bl_EventIndex h;
          pos = ucast (snd p) :: int64;
          data = packPos (fst p) pos eventIndex
      in go_bind (saveBinlogPositionCache data h) (\<lambda>h.
           Ret (h\<lparr>bl_lastBinFile := fst p, bl_lastPos := snd p\<rparr>)))"

definition SaveBinlogPosition :: "bytes \<Rightarrow> 'w binlog \<Rightarrow> 'w binlog go" where
  "SaveBinlogPosition r h =
     go_bind (unpackPos r) (\<lambda>(file, pos, index).
       saveBinlogPositionCache r
         (h\<lparr>bl_lastBinFile := file, bl_lastPos := ucast pos, bl_EventIndex := index\<rparr>))"

subsection \<open>Initialisation\<close>

definition setHandler :: "canal_env \<Rightarrow> 'w binlog \<Rightarrow> 'w binlog go" where
  "setHandler ce h =
     (if \<not> ce_configOk ce then Panic (LogPanic ''new canal config with error'')
      else if \<not> ce_newOk ce then Panic (LogPanic ''new canal with error'')
      else Ret (h\<lparr>bl_handler := Some (bl_canals h), bl_canals := Suc (bl_canals h)\<rparr>))"

definition cache_file :: "app_env \<Rightarrow> string" where
  "cache_file env = ev_CachePath env @ ''/mysql_binlog_position.pos''"

text \<open>The choice of the position to start from, in the configuration.\<close>

definition choose_pos ::
    "string \<Rightarrow> int64 \<Rightarrow> string \<times> 32 word \<Rightarrow> mysql_config \<Rightarrow> mysql_config" where
  "choose_pos f p currentPos config =
     (if f \<noteq> '''' \<and> 0 <s p
      then let config = config\<lparr>mc_BinFile := f, mc_BinPos := ucast p\<rparr>
           in if f = fst currentPos \<and> mc_BinPos config > snd currentPos
              then config\<lparr>mc_BinPos := snd currentPos\<rparr> else config
      else config\<lparr>mc_BinFile := fst currentPos, mc_BinPos := snd currentPos\<rparr>)"

definition handlerInit ::
    "app_env \<Rightarrow> canal_env \<Rightarrow> file_system \<Rightarrow> 'w binlog \<Rightarrow> (file_system \<times> 'w binlog) go" where
  "handlerInit env ce fs h =
     go_bind (GetParent (cache_file env)) (\<lambda>dir.
       let fs = fst (path_Mkdir fs dir)
       in case os_OpenWrite fs False (cache_file env) of
            None \<Rightarrow> Panic (LogPanic ''open cache file with error'')
          | Some (fs, content) \<Rightarrow>
              let h = h\<lparr>bl_cache := content, bl_status := bl_status h OR cacheHandlerIsOpened\<rparr>
              in go_bind (getBinlogPositionCache h) (\<lambda>(f, p, index).
                 go_bind (setHandler ce (h\<lparr>bl_EventIndex := index\<rparr>)) (\<lambda>h.
                   case ce_master ce of
                     None \<Rightarrow> Panic (LogPanic ''get master pos with error'')
                   | Some currentPos \<Rightarrow>
                       go_bind (deref (bl_Config h)) (\<lambda>config.
                         let config = choose_pos f p currentPos config
                         in Ret (fs, h\<lparr>bl_Config := Inr config, bl_lastBinFile := mc_BinFile config,
                                       bl_lastPos := mc_BinPos config\<rparr>)))))"

definition PosChange :: "(bytes \<Rightarrow> 'w \<Rightarrow> 'w go) \<Rightarrow> 'w binlog \<Rightarrow> 'w binlog" where
  "PosChange f h = h\<lparr>bl_onPosChanges := bl_onPosChanges h @ [f]\<rparr>"

definition OnEvent :: "(string \<Rightarrow> bytes \<Rightarrow> 'w \<Rightarrow> 'w go) \<Rightarrow> 'w binlog \<Rightarrow> 'w binlog" where
  "OnEvent f h = h\<lparr>bl_onEvent := bl_onEvent h @ [f]\<rparr>"

definition binlog_init :: "app_error + mysql_config \<Rightarrow> 'w \<Rightarrow> 'w binlog" where
  "binlog_init cfg w =
     \<lparr>bl_Config = cfg, bl_handler = None, bl_canals = 0, bl_EventIndex = 0,
      bl_services = (\<lambda>_. None), bl_cache = [], bl_cacheFails = False, bl_lastPos = 0,
      bl_lastBinFile = '''', bl_startChan = 0, bl_stopChan = [], bl_status = 0,
      bl_onPosChanges = [], bl_onEvent = [], bl_world = w\<rparr>"

definition NewBinlog ::
    "app_env \<Rightarrow> canal_env \<Rightarrow> app_error + mysql_config \<Rightarrow> 'w \<Rightarrow> ('w binlog \<Rightarrow> 'w binlog) list
       \<Rightarrow> file_system \<Rightarrow> (file_system \<times> 'w binlog) go" where
  "NewBinlog env ce cfg w opts fs =
     handlerInit env ce fs (foldl (\<lambda>h f. f h) (binlog_init cfg w) opts)"

definition RegisterService :: "'w service_if \<Rightarrow> 'w binlog \<Rightarrow> 'w binlog" where
  "RegisterService s h = h\<lparr>bl_services := (bl_services h)(si_Name s \<mapsto> s)\<rparr>"

subsection \<open>Events\<close>

definition as_string :: "(string \<times> go_value) list \<Rightarrow> string \<Rightarrow> string go" where
  "as_string data k =
     (case map_of data k of Some (VString s) \<Rightarrow> Ret s | _ \<Rightarrow> Panic TypeAssertion)"

definition notify_services ::
    "string list \<Rightarrow> string \<Rightarrow> bytes \<Rightarrow> 'w binlog \<Rightarrow> 'w go" where
  "notify_services names table jsonData h =
     go_foldM (\<lambda>w name. case bl_services h name of
                 None \<Rightarrow> Ret w
               | Some s \<Rightarrow> go_bind (si_SendAll s table jsonData w) (\<lambda>(w', _). Ret w'))
       (bl_world h) names"

definition notify ::
    "(go_value \<Rightarrow> bytes option) \<Rightarrow> (go_value \<Rightarrow> string list) \<Rightarrow> (string \<times> go_value) list
       \<Rightarrow> 'w binlog \<Rightarrow> 'w binlog go" where
  "notify json ord data h =
     (case json (VMap data) of
        None \<Rightarrow> Ret h
      | Some jsonData \<Rightarrow>
          go_bind (as_string data ''database'') (\<lambda>db.
          go_bind (as_string data ''table'') (\<lambda>tb.
            let table = db @ ''.'' @ tb
            in go_bind (notify_services (ord (VMap data)) table jsonData h) (\<lambda>w.
               go_bind (go_foldM (\<lambda>w f. f table jsonData w) w (bl_onEvent h)) (\<lambda>w.
                 Ret (h\<lparr>bl_world := w\<rparr>))))))"

definition next_index :: "'w binlog \<Rightarrow> 'w binlog \<times> int64" where
  "next_index h = (h\<lparr>bl_EventIndex := bl_EventIndex h + 1\<rparr>, bl_EventIndex h + 1)"

definition OnTableChanged ::
    "(go_value \<Rightarrow> bytes option) \<Rightarrow> (go_value \<Rightarrow> string list) \<Rightarrow> int64 \<Rightarrow> string \<Rightarrow> string
       \<Rightarrow> 'w binlog \<Rightarrow> 'w binlog go" where
  "OnTableChanged json ord now schema table h =
     (let (h, i) = next_index h;
          rowData = [(''database'', VString schema), (''event_type'', VString ''alter''),
                     (''time'', VInt64 now), (''table'', VString table), (''event_index'', VInt64 i)]
      in notify json ord rowData h)"

record rows_event =
  re_Schema :: string
  re_Table :: string
  re_Columns :: "table_column list"
  re_Action :: string
  re_Rows :: "go_value list list"

text \<open>The loop over the columns of one row, from column \<open>k\<close> on.\<close>

fun decode_row ::
    "nat \<Rightarrow> table_column list \<Rightarrow> go_value list \<Rightarrow> (string \<times> go_value) list \<Rightarrow> (string \<times> go_value) list go" where
  "decode_row k [] row m = Ret m"
| "decode_row k (col # cols) row m =
     go_bind (if k < length row then fieldDecode (row ! k) col else Ret VNil) (\<lambda>v.
       decode_row (Suc k) cols row (map_set (tc_ColName col) v m))"

definition event_map ::
    "(string \<times> go_value) list \<Rightarrow> (string \<times> go_value) list \<Rightarrow> (string \<times> go_value) list" where
  "event_map rowData data = map_set ''event'' (VMap [(''data'', VMap data)]) rowData"

fun update_loop ::
    "(go_value \<Rightarrow> bytes option) \<Rightarrow> (go_value \<Rightarrow> string list) \<Rightarrow> table_column list
       \<Rightarrow> (string \<times> go_value) list \<Rightarrow> (string \<times> go_value) list \<Rightarrow> go_value list list
       \<Rightarrow> 'w binlog \<Rightarrow> 'w binlog go" where
  "update_loop json ord cols rowData data [] h = Ret h"
| "update_loop json ord cols rowData data [old] h =
     go_bind (decode_row 0 cols old []) (\<lambda>_. Panic IndexOutOfRange)"
| "update_loop json ord cols rowData data (old # new # rows) h =
     (let (h, i) = next_index h;
          rowData = map_set ''event_index'' (VInt64 i) rowData
      in go_bind (decode_row 0 cols old []) (\<lambda>oldData.
         go_bind (decode_row 0 cols new []) (\<lambda>newData.
           let data = map_set ''old_data'' (VMap oldData) data;
               data = map_set ''new_data'' (VMap newData) data;
               rowData = event_map rowData data
           in go_bind (notify json ord rowData h) (\<lambda>h.
                update_loop json ord cols rowData data rows h))))"

fun row_loop ::
    "(go_value \<Rightarrow> bytes option) \<Rightarrow> (go_value \<Rightarrow> string list) \<Rightarrow> table_column list
       \<Rightarrow> (string \<times> go_value) list \<Rightarrow> (string \<times> go_value) list \<Rightarrow> go_value list list
       \<Rightarrow> 'w binlog \<Rightarrow> 'w binlog go" where
  "row_loop json ord cols rowData data [] h = Ret h"
| "row_loop json ord cols rowData data (row # rows) h =
     (let (h, i) = next_index h;
          rowData = map_set ''event_index'' (VInt64 i) rowData
      in go_bind (decode_row 0 cols row data) (\<lambda>data.
           let rowData = event_map rowData data
           in go_bind (notify json ord rowData h) (\<lambda>h.
                row_loop json ord cols rowData data rows h)))"

definition row_base :: "int64 \<Rightarrow> rows_event \<Rightarrow> (string \<times> go_value) list" where
  "row_base now e =
     [(''database'', VString (re_Schema e)), (''event_type'', VString (re_Action e)),
      (''time'', VInt64 now), (''table'', VString (re_Table e))]"

definition OnRow ::
    "(go_value \<Rightarrow> bytes option) \<Rightarrow> (go_value \<Rightarrow> string list) \<Rightarrow> int64 \<Rightarrow> rows_event
       \<Rightarrow> 'w binlog \<Rightarrow> 'w binlog go" where
  "OnRow json ord now e h =
     (if has_flag (bl_status h) binlogIsExit then Ret h
      else if re_Action e = ''update''
      then update_loop json ord (re_Columns e) (row_base now e) [] (re_Rows e) h
      else row_loop json ord (re_Columns e) (row_base now e) [] (re_Rows e) h)"

text \<open>The callbacks of the canal interface that only log.\<close>

definition OnRotate :: "'w binlog \<Rightarrow> 'w binlog" where "OnRotate h = h"
definition OnDDL :: "'w binlog \<Rightarrow> 'w binlog" where "OnDDL h = h"
definition OnXID :: "'w binlog \<Rightarrow> 'w binlog" where "OnXID h = h"
definition OnGTID :: "'w binlog \<Rightarrow> 'w binlog" where "OnGTID h = h"

definition String_binlog :: string where "String_binlog = ''Binlog''"

subsection \<open>Start, stop and close\<close>

text \<open>The channels have room for 100 signals; a send waits when they are full.\<close>

definition signalQueue :: nat where "signalQueue = 100"

definition StopService :: "bool \<Rightarrow> 'w binlog \<Rightarrow> 'w binlog go" where
  "StopService exit h =
     (if length (bl_stopChan h) < signalQueue then Ret (h\<lparr>bl_stopChan := bl_stopChan h @ [exit]\<rparr>)
      else Block)"

definition StartService :: "'w binlog \<Rightarrow> 'w binlog go" where
  "StartService h =
     (if bl_startChan h < signalQueue then Ret (h\<lparr>bl_startChan := Suc (bl_startChan h)\<rparr>) else Block)"

definition OnLeader :: "bool \<Rightarrow> 'w binlog \<Rightarrow> 'w binlog go" where
  "OnLeader isLeader h = (if isLeader then StartService h else StopService False h)"

definition each_service ::
    "('w service_if \<Rightarrow> 'w \<Rightarrow> 'w go) \<Rightarrow> string list \<Rightarrow> 'w binlog \<Rightarrow> 'w binlog go" where
  "each_service f names h =
     go_bind (go_foldM (\<lambda>w name. case bl_services h name of None \<Rightarrow> Ret w | Some s \<Rightarrow> f s w)
                (bl_world h) names) (\<lambda>w. Ret (h\<lparr>bl_world := w\<rparr>))"

definition bl_Start :: "string list \<Rightarrow> 'w binlog \<Rightarrow> 'w binlog go" where
  "bl_Start names h = each_service si_Start names h"

text \<open>\<open>Close\<close> up to the wait for the two signal goroutines.\<close>

definition bl_Close :: "string list \<Rightarrow> 'w binlog \<Rightarrow> 'w binlog go" where
  "bl_Close names h =
     (if has_flag (bl_status h) binlogIsExit then Ret h
      else let h = h\<lparr>bl_status := bl_status h OR binlogIsExit\<rparr>
           in go_bind (StopService True h) (\<lambda>h. each_service si_Close names h))"

text \<open>
  One signal of the stopping goroutine. \<open>synced\<close> is the position the canal reports to
  \<open>OnPosSynced\<close> while it is closed, or none. \<open>stop_reset\<close> is the part before the running flag
  is cleared, \<open>stop_tail\<close> the rest.
\<close>

definition stop_reset ::
    "canal_env \<Rightarrow> (string \<times> 32 word) option \<Rightarrow> bool \<Rightarrow> 'w binlog \<Rightarrow> 'w binlog go" where
  "stop_reset ce synced exit h =
     go_bind
       (if has_flag (bl_status h) binlogIsRunning \<and> \<not> exit
        then (case bl_handler h of
                None \<Rightarrow> Panic NilDereference
              | Some _ \<Rightarrow>
                  go_bind (case synced of None \<Rightarrow> Ret h | Some p \<Rightarrow> OnPosSynced p True h) (setHandler ce))
        else Ret h) (\<lambda>h.
     if exit
     then let r = packPos (bl_lastBinFile h) (ucast (bl_lastPos h)) (bl_EventIndex h)
          in go_bind (saveBinlogPositionCache r h) (\<lambda>h.
               Ret (if has_flag (bl_status h) cacheHandlerIsOpened
                    then h\<lparr>bl_status := bl_status h XOR cacheHandlerIsOpened\<rparr> else h))
     else Ret h)"

definition stop_tail :: "'w binlog \<Rightarrow> 'w binlog" where
  "stop_tail h =
     (if has_flag (bl_status h) binlogIsRunning
      then h\<lparr>bl_status := bl_status h XOR binlogIsRunning\<rparr> else h)"

definition lookStopService ::
    "canal_env \<Rightarrow> (string \<times> 32 word) option \<Rightarrow> bool \<Rightarrow> 'w binlog \<Rightarrow> 'w binlog go" where
  "lookStopService ce synced exit h = go_bind (stop_reset ce synced exit h) (\<lambda>h. Ret (stop_tail h))"

text \<open>
  One start signal: the flag, and whether a goroutine that runs the canal was started. That
  goroutine waits for a file name and a handler; if the canal ends with an error it flips the flag.
\<close>

definition lookStartService :: "'w binlog \<Rightarrow> 'w binlog \<times> bool" where
  "lookStartService h =
     (if has_flag (bl_status h) binlogIsRunning then (h, False)
      else (h\<lparr>bl_status := bl_status h OR binlogIsRunning\<rparr>, True))"

datatype run_start = RunFrom nat "string \<times> 32 word" | RunWait | RunPanics go_panic

definition run_begin :: "bool \<Rightarrow> 'w binlog \<Rightarrow> run_start" where
  "run_begin late h =
     (if bl_lastBinFile h = ''''
      then if late then RunPanics (LogPanic ''binlog last file is empty'') else RunWait
      else case bl_handler h of
        None \<Rightarrow> RunWait
      | Some k \<Rightarrow> RunFrom k (bl_lastBinFile h, bl_lastPos h))"

definition run_failed :: "'w binlog \<Rightarrow> 'w binlog" where
  "run_failed h = h\<lparr>bl_status := bl_status h XOR binlogIsRunning\<rparr>"

subsection \<open>The position cache: lemmas\<close>

lemma save_Ret:
  assumes "saveBinlogPositionCache r h = Ret h'"
    and "\<not> has_flag (bl_status h) binlogIsExit" and "has_flag (bl_status h) cacheHandlerIsOpened"
    and "\<not> bl_cacheFails h"
  shows "bl_cache h' = r @ drop (length r) (bl_cache h)" "bl_status h' = bl_status h"
    "bl_EventIndex h' = bl_EventIndex h" "bl_lastPos h' = bl_lastPos h" "bl_lastBinFile h' = bl_lastBinFile h"
  using assms by (auto simp: saveBinlogPositionCache_def bl_WriteAt_def)

lemma cache_read:
  assumes "has_flag (bl_status h) cacheHandlerIsOpened" and "bl_cache h = packPos f p e @ rest"
    and "length f \<le> MinRead - 18"
  shows "getBinlogPositionCache h = Ret (f, p, e)"
proof -
  have len: "length (packPos f p e) \<le> MinRead" using assms(3) by (simp add: MinRead_def)
  then obtain pad where pad: "go_copy (replicate MinRead 0) 0 (bl_cache h) = packPos f p e @ pad"
    by (simp add: go_copy_def Let_def assms(2) min_def del: length_packPos)
  have "unpackPos (packPos f p e @ pad) = Ret (f, p, e)"
    using assms(3) by (intro unpack_packPos) (simp add: MinRead_def)
  then show ?thesis
    using assms(1,2) pad by (auto simp: getBinlogPositionCache_def MinRead_def min_def)
qed

lemma cache_read_long:
  assumes "has_flag (bl_status h) cacheHandlerIsOpened" and "bl_cache h = packPos f p e @ rest"
    and "MinRead - 18 < length f" and "16 + length f < 2 ^ 16"
  shows "getBinlogPositionCache h = Ret ('''', 0, 0)"
proof -
  let ?d = "go_copy (replicate MinRead 0) 0 (bl_cache h)"
  have d: "?d = take MinRead (packPos f p e)"
    using assms(3) by (simp add: go_copy_def Let_def assms(2) MinRead_def)
  then have "length ?d = MinRead" using assms(3) by (simp add: MinRead_def)
  with d have "unpackPos ?d = Ret ('''', 0, 0)"
    using assms(3,4) by (intro unpack_packPos_truncated [where f = f and p = p and e = e])
      (simp_all add: MinRead_def)
  then show ?thesis
    using assms(1,2) by (simp add: getBinlogPositionCache_def MinRead_def)
qed

lemma OnPosSynced_cache:
  assumes "OnPosSynced (f, p) b h = Ret h'"
    and "\<not> has_flag (bl_status h) binlogIsExit" and "has_flag (bl_status h) cacheHandlerIsOpened"
    and "\<not> bl_cacheFails h"
  shows "\<exists>rest. bl_cache h' = packPos f (ucast p) (bl_EventIndex h) @ rest"
    "bl_status h' = bl_status h" "bl_lastBinFile h' = f" "bl_lastPos h' = p" "bl_EventIndex h' = bl_EventIndex h"
proof -
  let ?r = "packPos f (ucast p) (bl_EventIndex h)"
  from assms(1) obtain h1 where h1: "saveBinlogPositionCache ?r h = Ret h1"
    and h': "h' = h1\<lparr>bl_lastBinFile := f, bl_lastPos := p\<rparr>"
    by (auto simp: OnPosSynced_def Let_def)
  note s = save_Ret [OF h1 assms(2-4)]
  show "\<exists>rest. bl_cache h' = ?r @ rest" using s(1) by (auto simp: h')
  show "bl_status h' = bl_status h" "bl_lastBinFile h' = f" "bl_lastPos h' = p" "bl_EventIndex h' = bl_EventIndex h"
    using s by (simp_all add: h')
qed

lemma handlerInit_resumes:
  assumes "handlerInit env ce fs h = Ret (fs', h')"
    and "os_Stat fs (cache_file env) = Some (FFile (packPos f p e @ rest))"
    and "length f \<le> MinRead - 18"
  shows "\<exists>config master. bl_Config h = Inr config \<and> ce_master ce = Some master \<and>
    bl_EventIndex h' = e \<and> bl_lastBinFile h' = mc_BinFile (choose_pos f p master config) \<and>
    bl_lastPos h' = mc_BinPos (choose_pos f p master config)"
proof -
  from assms(1) obtain dir fs1 content where dir: "GetParent (cache_file env) = Ret dir"
    and opn: "os_OpenWrite (fst (path_Mkdir fs dir)) False (cache_file env) = Some (fs1, content)"
    by (auto simp: handlerInit_def Let_def split: option.splits)
  have "fs_node fs (resolve fs (cache_file env)) = Some (FFile (packPos f p e @ rest))"
    using assms(2) by (simp add: os_Stat_def split: if_splits)
  from mkdir_keeps_file [OF this]
  have "fs_node (fst (path_Mkdir fs dir)) (resolve (fst (path_Mkdir fs dir)) (cache_file env)) =
      Some (FFile (packPos f p e @ rest))"
    by simp
  then have content: "content = packPos f p e @ rest"
    using os_OpenWrite_node(5) [OF opn] by simp
  let ?h = "h\<lparr>bl_cache := content, bl_status := bl_status h OR cacheHandlerIsOpened\<rparr>"
  have "getBinlogPositionCache ?h = Ret (f, p, e)"
    using assms(3) content by (intro cache_read) (simp_all add: bl_flags)
  with assms(1) dir opn show ?thesis
    by (auto simp: handlerInit_def Let_def setHandler_def deref_def split: option.splits if_splits sum.splits)
qed

subsection \<open>Events: lemmas\<close>

text \<open>
  Setting the same keys again overwrites every value and leaves the order of the entries, so the
  map that \<open>OnRow\<close> reuses from row to row holds nothing of an earlier row.
\<close>

definition set_all :: "(string \<times> go_value) list \<Rightarrow> (string \<times> go_value) list \<Rightarrow> (string \<times> go_value) list" where
  "set_all kvs m = foldl (\<lambda>m (k, v). map_set k v m) m kvs"

lemma set_all_simps [simp]:
  "set_all [] m = m"
  "set_all ((k, v) # kvs) m = set_all kvs (map_set k v m)"
  by (simp_all add: set_all_def)

lemma keys_map_set: "map fst (map_set k v m) = (if k \<in> fst ` set m then map fst m else map fst m @ [k])"
  by (simp add: map_set_def update_keys)

lemma keys_set_all:
  "map fst m = map fst m' \<Longrightarrow> map fst kvs = map fst kvs' \<Longrightarrow> map fst (set_all kvs m) = map fst (set_all kvs' m')"
proof (induction kvs arbitrary: kvs' m m')
  case Nil
  then show ?case by simp
next
  case (Cons kv kvs)
  from Cons.prems(2) obtain kv' rest where kvs': "kvs' = kv' # rest" "fst kv' = fst kv"
    "map fst kvs = map fst rest" by (cases kvs') auto
  have keys: "fst ` set m = fst ` set m'" using Cons.prems(1) by (metis image_set)
  have "map fst (map_set (fst kv) (snd kv) m) = map fst (map_set (fst kv') (snd kv') m')"
    using Cons.prems(1) keys kvs'(2) by (simp add: keys_map_set)
  with Cons.IH [OF this kvs'(3)] show ?case by (cases kv, cases kv') (simp add: kvs'(1))
qed

lemma keys_set_all_known:
  "fst ` set kvs \<subseteq> fst ` set m \<Longrightarrow> map fst (set_all kvs m) = map fst m"
proof (induction kvs arbitrary: m)
  case Nil
  then show ?case by simp
next
  case (Cons kv kvs)
  obtain k v where kv: "kv = (k, v)" by fastforce
  have same: "map fst (map_set k v m) = map fst m" using Cons.prems kv by (simp add: keys_map_set)
  then have "fst ` set (map_set k v m) = fst ` set m" by (metis image_set)
  with Cons same show ?case by (simp add: kv)
qed

lemma set_all_keys_in: "fst ` set kvs \<subseteq> fst ` set (set_all kvs m) \<and> fst ` set m \<subseteq> fst ` set (set_all kvs m)"
proof (induction kvs arbitrary: m)
  case Nil
  then show ?case by simp
next
  case (Cons kv kvs)
  obtain k v where kv: "kv = (k, v)" by fastforce
  have "fst ` set (map_set k v m) = insert k (fst ` set m)"
    using keys_map_set [of k v m] by (metis (no_types, lifting) image_set insert_absorb list.simps(15) set_append
        Un_insert_right Un_empty_right empty_set)
  then show ?case using Cons [of "map_set k v m"] by (auto simp: kv)
qed

lemma map_of_set_all: "map_of (set_all kvs m) k = (case map_of (rev kvs) k of None \<Rightarrow> map_of m k | Some v \<Rightarrow> Some v)"
proof (induction kvs arbitrary: m)
  case Nil
  then show ?case by simp
next
  case (Cons kv kvs)
  obtain k' v where "kv = (k', v)" by fastforce
  with Cons show ?case by (auto simp: map_set_lookup map_add_def split: option.split)
qed

lemma distinct_set_all: "distinct (map fst m) \<Longrightarrow> distinct (map fst (set_all kvs m))"
proof (induction kvs arbitrary: m)
  case Nil
  then show ?case by simp
next
  case (Cons kv kvs)
  obtain k v where kv: "kv = (k, v)" by fastforce
  have "distinct (map fst (map_set k v m))"
    using Cons.prems by (auto simp: keys_map_set)
  with Cons.IH show ?case by (simp add: kv)
qed

lemma alist_eqI:
  "map fst xs = map fst ys \<Longrightarrow> distinct (map fst xs) \<Longrightarrow> (\<And>k. map_of xs k = map_of ys k) \<Longrightarrow> xs = ys"
proof -
  assume keys: "map fst xs = map fst ys" and dist: "distinct (map fst xs)"
    and vals: "\<And>k. map_of xs k = map_of ys k"
  have alist: "zs = map (\<lambda>k. (k, the (map_of zs k))) (map fst zs)" if "distinct (map fst zs)"
    for zs :: "('k \<times> 'v) list"
  proof (rule nth_equalityI)
    fix i
    assume i: "i < length zs"
    obtain k v where kv: "zs ! i = (k, v)" by fastforce
    then have "map_of zs k = Some v" using that i nth_mem [OF i] by (simp add: map_of_eq_Some_iff)
    with i kv show "zs ! i = map (\<lambda>k. (k, the (map_of zs k))) (map fst zs) ! i" by simp
  qed simp
  have "map (\<lambda>k. (k, the (map_of xs k))) (map fst xs) = map (\<lambda>k. (k, the (map_of ys k))) (map fst ys)"
    by (simp only: keys vals)
  moreover have "distinct (map fst ys)" using dist by (simp only: keys)
  ultimately show "xs = ys" using alist [OF dist] alist [of ys] by metis
qed

lemma set_all_again:
  assumes "map fst kvs = map fst us"
  shows "set_all kvs (set_all us []) = set_all kvs []"
proof (rule alist_eqI)
  have "fst ` set kvs \<subseteq> fst ` set (set_all us [])"
    using set_all_keys_in [of us "[]"] assms by (metis image_set)
  then have "map fst (set_all kvs (set_all us [])) = map fst (set_all us [])"
    by (rule keys_set_all_known)
  also have "\<dots> = map fst (set_all kvs [])" using assms by (intro keys_set_all) simp_all
  finally show "map fst (set_all kvs (set_all us [])) = map fst (set_all kvs [])" .
  show "distinct (map fst (set_all kvs (set_all us [])))"
    by (intro distinct_set_all) simp
  fix k
  have "map_of (rev us) k = None" if "map_of (rev kvs) k = None"
    using that assms by (metis (no_types, lifting) map_of_eq_None_iff set_rev image_set)
  then show "map_of (set_all kvs (set_all us [])) k = map_of (set_all kvs []) k"
    by (auto simp: map_of_set_all split: option.split)
qed

text \<open>The values of one row, column by column: the reference for the loop over the columns.\<close>

fun row_values :: "nat \<Rightarrow> table_column list \<Rightarrow> go_value list \<Rightarrow> (string \<times> go_value) list go" where
  "row_values k [] row = Ret []"
| "row_values k (col # cols) row =
     go_bind (if k < length row then fieldDecode (row ! k) col else Ret VNil) (\<lambda>v.
     go_bind (row_values (Suc k) cols row) (\<lambda>kvs. Ret ((tc_ColName col, v) # kvs)))"

lemma decode_row_values:
  "decode_row k cols row m = go_bind (row_values k cols row) (\<lambda>kvs. Ret (set_all kvs m))"
  by (induction cols arbitrary: k m) (simp_all add: go_simps)

lemma row_values_keys: "row_values k cols row = Ret kvs \<Longrightarrow> map fst kvs = map tc_ColName cols"
  by (induction cols arbitrary: k kvs) auto

lemma decode_row_again:
  assumes "decode_row 0 cols row0 [] = Ret data"
  shows "decode_row 0 cols row data = decode_row 0 cols row []"
proof -
  from assms obtain us where us: "row_values 0 cols row0 = Ret us" "data = set_all us []"
    by (auto simp: decode_row_values)
  show ?thesis
    unfolding decode_row_values us(2)
  proof (rule go_bind_cong_Ret)
    fix kvs
    assume "row_values 0 cols row = Ret kvs"
    then have "map fst kvs = map fst us" using us(1) by (simp add: row_values_keys)
    then show "Ret (set_all kvs (set_all us [])) = Ret (set_all kvs [])" by (simp add: set_all_again)
  qed
qed

lemma notify_keeps: "notify json ord data h = Ret h' \<Longrightarrow>
    bl_EventIndex h' = bl_EventIndex h \<and> bl_status h' = bl_status h \<and> bl_services h' = bl_services h"
  by (auto simp: notify_def Let_def split: option.splits)

text \<open>What one row, or one pair of rows, is announced as.\<close>

definition row_event ::
    "int64 \<Rightarrow> rows_event \<Rightarrow> int64 \<Rightarrow> (string \<times> go_value) list \<Rightarrow> (string \<times> go_value) list" where
  "row_event now e i data =
     row_base now e @ [(''event_index'', VInt64 i), (''event'', VMap [(''data'', VMap data)])]"

text \<open>The reference: number the events from \<open>i + 1\<close> on and announce them one after the other.\<close>

definition announce ::
    "(go_value \<Rightarrow> bytes option) \<Rightarrow> (go_value \<Rightarrow> string list) \<Rightarrow> int64 \<Rightarrow> rows_event
       \<Rightarrow> 'w binlog \<Rightarrow> (string \<times> go_value) list \<Rightarrow> 'w binlog go" where
  "announce json ord now e h data =
     notify json ord (row_event now e (bl_EventIndex h + 1) data) (h\<lparr>bl_EventIndex := bl_EventIndex h + 1\<rparr>)"

lemma event_map_first:
  "event_map (map_set ''event_index'' (VInt64 i) (row_base now e)) data = row_event now e i data"
  by (simp add: event_map_def map_set_def row_base_def row_event_def)

lemma event_map_again:
  "event_map (map_set ''event_index'' (VInt64 i) (row_event now e j data0)) data = row_event now e i data"
  by (simp add: event_map_def map_set_def row_base_def row_event_def)

fun rows_data :: "table_column list \<Rightarrow> go_value list list \<Rightarrow> (string \<times> go_value) list list go" where
  "rows_data cols [] = Ret []"
| "rows_data cols (row # rows) =
     go_bind (decode_row 0 cols row []) (\<lambda>d. go_bind (rows_data cols rows) (\<lambda>ds. Ret (d # ds)))"

fun pairs_data :: "table_column list \<Rightarrow> go_value list list \<Rightarrow> (string \<times> go_value) list list go" where
  "pairs_data cols [] = Ret []"
| "pairs_data cols [old] = Panic IndexOutOfRange"
| "pairs_data cols (old # new # rows) =
     go_bind (decode_row 0 cols old []) (\<lambda>o'.
     go_bind (decode_row 0 cols new []) (\<lambda>n'.
     go_bind (pairs_data cols rows) (\<lambda>ds.
       Ret ([(''old_data'', VMap o'), (''new_data'', VMap n')] # ds))))"

lemma row_loop_announces:
  assumes "rows_data (re_Columns e) rows = Ret ds"
    and "rowData = row_base now e \<and> data = [] \<or>
      (\<exists>j d0 row0. rowData = row_event now e j d0 \<and> decode_row 0 (re_Columns e) row0 [] = Ret data)"
  shows "row_loop json ord (re_Columns e) rowData data rows (h :: 'w binlog) = go_foldM (announce json ord now e) h ds"
  using assms
proof (induction rows arbitrary: ds rowData data h)
  case Nil
  then show ?case by simp
next
  case (Cons row rows)
  from Cons.prems(1) obtain d ds' where d: "decode_row 0 (re_Columns e) row [] = Ret d"
    and ds': "rows_data (re_Columns e) rows = Ret ds'" and ds: "ds = d # ds'" by auto
  have dec: "decode_row 0 (re_Columns e) row data = Ret d"
    using Cons.prems(2) d decode_row_again [of "re_Columns e" _ data row] by auto
  have ev: "event_map (map_set ''event_index'' (VInt64 i) rowData) d = row_event now e i d" for i
    using Cons.prems(2) by (auto simp: event_map_first event_map_again)
  have IH: "row_loop json ord (re_Columns e) (row_event now e i d) d rows h' =
      go_foldM (announce json ord now e) h' ds'" for i and h' :: "'w binlog"
    by (rule Cons.IH [OF ds']) (use d in blast)
  have IH': "row_loop json ord (re_Columns e) (row_event now e i d) d rows =
      (\<lambda>h' :: 'w binlog. go_foldM (announce json ord now e) h' ds')" for i
    by (rule ext) (rule IH)
  show ?case
    by (simp add: next_index_def dec ev IH' ds announce_def [of json ord now e h] Let_def)
qed

lemma update_loop_announces:
  assumes "pairs_data (re_Columns e) rows = Ret ds"
    and "rowData = row_base now e \<and> data = [] \<or>
      (\<exists>j d0 o0 n0. rowData = row_event now e j d0 \<and> data = [(''old_data'', o0), (''new_data'', n0)])"
  shows "update_loop json ord (re_Columns e) rowData data rows (h :: 'w binlog) = go_foldM (announce json ord now e) h ds"
  using assms
proof (induction "re_Columns e" rows arbitrary: ds rowData data h rule: pairs_data.induct)
  case 1
  then show ?case by simp
next
  case (2 old)
  then show ?case by simp
next
  case (3 old new rows)
  from "3.prems"(1) obtain o' n' ds' where dec: "decode_row 0 (re_Columns e) old [] = Ret o'"
      "decode_row 0 (re_Columns e) new [] = Ret n'"
    and ds': "pairs_data (re_Columns e) rows = Ret ds'"
    and ds: "ds = [(''old_data'', VMap o'), (''new_data'', VMap n')] # ds'" by auto
  let ?d = "[(''old_data'', VMap o'), (''new_data'', VMap n')]"
  have data: "map_set ''new_data'' (VMap n') (map_set ''old_data'' (VMap o') data) = ?d"
    using "3.prems"(2) by (auto simp: map_set_def)
  have ev: "event_map (map_set ''event_index'' (VInt64 i) rowData) ?d = row_event now e i ?d" for i
    using "3.prems"(2) by (auto simp: event_map_first event_map_again)
  have IH: "update_loop json ord (re_Columns e) (row_event now e i ?d) ?d rows h' =
      go_foldM (announce json ord now e) h' ds'" for i and h' :: "'w binlog"
    using "3.hyps" [OF dec ds', of "row_event now e i ?d" ?d h'] by blast
  have IH': "update_loop json ord (re_Columns e) (row_event now e i ?d) ?d rows =
      (\<lambda>h' :: 'w binlog. go_foldM (announce json ord now e) h' ds')" for i
    by (rule ext) (rule IH)
  show ?case
    by (simp add: next_index_def dec data ev IH' ds announce_def [of json ord now e h] Let_def)
qed

lemma notify_services_slots:
  assumes slots: "\<And>name s d w. bl_services h name = Some s \<Longrightarrow>
      \<exists>b. si_SendAll s table d w = Ret (w(name := w name @ [(table, d)]), b)"
    and "distinct names"
  shows "\<exists>w'. notify_services names table d (h :: (string \<Rightarrow> (string \<times> bytes) list) binlog) = Ret w' \<and>
    (\<forall>n. w' n = bl_world h n @ (if n \<in> set names \<and> bl_services h n \<noteq> None then [(table, d)] else []))"
proof -
  have "\<exists>w'. go_foldM (\<lambda>w name. case bl_services h name of None \<Rightarrow> Ret w
        | Some s \<Rightarrow> go_bind (si_SendAll s table d w) (\<lambda>(w', _). Ret w')) w names = Ret w' \<and>
      (\<forall>n. w' n = w n @ (if n \<in> set names \<and> bl_services h n \<noteq> None then [(table, d)] else []))" for w
    using assms(2)
  proof (induction names arbitrary: w)
    case Nil
    then show ?case by simp
  next
    case (Cons a names)
    show ?case
    proof (cases "bl_services h a")
      case None
      with Cons.IH [of w] Cons.prems show ?thesis by auto
    next
      case (Some s)
      then obtain b where b: "si_SendAll s table d w = Ret (w(a := w a @ [(table, d)]), b)"
        using slots [OF Some] by blast
      have "distinct names" using Cons.prems by simp
      from Cons.IH [OF this, of "w(a := w a @ [(table, d)])"]
      obtain w' where "go_foldM (\<lambda>w name. case bl_services h name of None \<Rightarrow> Ret w
            | Some s \<Rightarrow> go_bind (si_SendAll s table d w) (\<lambda>(w', _). Ret w')) (w(a := w a @ [(table, d)])) names = Ret w'"
        "\<forall>n. w' n = (w(a := w a @ [(table, d)])) n @
          (if n \<in> set names \<and> bl_services h n \<noteq> None then [(table, d)] else [])" by blast
      with Some b Cons.prems show ?thesis by (intro exI [of _ w']) auto
    qed
  qed
  then show ?thesis by (simp add: notify_services_def)
qed

text \<open>A handler that is given another's position record ends up at that position.\<close>

lemma SaveBinlogPosition_follows:
  assumes leader: "length f \<le> 494"
    and follower: "SaveBinlogPosition (packPos f (ucast p) i) h = Ret h'"
    and opn: "\<not> has_flag (bl_status h) binlogIsExit" "has_flag (bl_status h) cacheHandlerIsOpened"
      "\<not> bl_cacheFails h"
  shows "bl_lastBinFile h' = f \<and> bl_lastPos h' = p \<and> bl_EventIndex h' = i \<and>
    getBinlogPositionCache h' = Ret (f, ucast p, i)"
proof -
  let ?r = "packPos f (ucast p) i"
  let ?h = "h\<lparr>bl_lastBinFile := f, bl_lastPos := ucast (ucast p :: int64), bl_EventIndex := i\<rparr>"
  have "unpackPos ?r = Ret (f, ucast p, i)"
    using unpack_packPos [of f "ucast p" i "[]"] leader by simp
  then have save: "saveBinlogPositionCache ?r ?h = Ret h'" using follower by (simp add: SaveBinlogPosition_def)
  note s = save_Ret [OF save, simplified, OF opn]
  have "(ucast (ucast p :: int64) :: 32 word) = p"
    by (rule bit_word_eqI) (auto simp: bit_simps)
  moreover have "getBinlogPositionCache h' = Ret (f, ucast p, i)"
    using leader s opn by (intro cache_read [where rest = "drop (length ?r) (bl_cache h)"]) (simp_all add: MinRead_def)
  ultimately show ?thesis using s by simp
qed

subsection \<open>Properties\<close>

definition demo_config :: mysql_config where
  "demo_config = \<lparr>mc_Addr = '''', mc_User = '''', mc_Password = '''', mc_Charset = '''', mc_ServerID = 1,
     mc_Flavor = ''mysql'', mc_HeartbeatPeriod = 0, mc_ReadTimeout = 0, mc_BinFile = '''', mc_BinPos = 0\<rparr>"

definition demo_binlog :: "unit binlog" where
  "demo_binlog = (binlog_init (Inr demo_config) ())\<lparr>bl_status := cacheHandlerIsOpened, bl_EventIndex := 7\<rparr>"

lemma demo_binlog_status:
  "has_flag (bl_status demo_binlog) cacheHandlerIsOpened" "\<not> has_flag (bl_status demo_binlog) binlogIsExit"
  "\<not> bl_cacheFails demo_binlog"
  using bl_flags(2) [of 0] bl_exit_cache.pair_simps [of 0] by (simp_all add: demo_binlog_def binlog_init_def)

text \<open>
  C8: The position cache gives back the last position saved, with the event index, also when an
  older record in the file was longer: after the canal reports a position, reading the cache
  returns it, for file names of up to 494 bytes.
\<close>

theorem cache_roundtrip:
  assumes "OnPosSynced (f, p) b h = Ret h'"
    and "\<not> has_flag (bl_status h) binlogIsExit" and "has_flag (bl_status h) cacheHandlerIsOpened"
    and "\<not> bl_cacheFails h" and "length f \<le> 494"
  shows "getBinlogPositionCache h' = Ret (f, ucast p, bl_EventIndex h)"
proof -
  note s = OnPosSynced_cache [OF assms(1-4)]
  from s(1) obtain rest where "bl_cache h' = packPos f (ucast p) (bl_EventIndex h) @ rest" by blast
  then show ?thesis using s(2) assms(3,5) by (intro cache_read) (simp_all add: MinRead_def)
qed

theorem cache_roundtrip_witness:
  "\<exists>h'. OnPosSynced (''mysql-bin.000059'', 123456) True (demo_binlog\<lparr>bl_cache := replicate 100 1\<rparr>) = Ret h' \<and>
    getBinlogPositionCache h' = Ret (''mysql-bin.000059'', 123456, 7)"
proof -
  let ?h = "demo_binlog\<lparr>bl_cache := replicate 100 1\<rparr>"
  have "\<exists>h'. OnPosSynced (''mysql-bin.000059'', 123456) True ?h = Ret h'"
    by (simp add: OnPosSynced_def saveBinlogPositionCache_def Let_def demo_binlog_def binlog_init_def bl_WriteAt_def)
  then obtain h' where h': "OnPosSynced (''mysql-bin.000059'', 123456) True ?h = Ret h'" by blast
  from cache_roundtrip [OF this] demo_binlog_status
  have "getBinlogPositionCache h' = Ret (''mysql-bin.000059'', ucast (123456 :: 32 word), 7)"
    by (simp add: demo_binlog_def)
  with h' show ?thesis by simp
qed

text \<open>
  A binlog file name of more than 494 bytes is lost: the cache is read through a buffer of 512
  bytes, so the record is cut off and the node starts from an empty position with event index 0.
\<close>

theorem cache_long_name:
  assumes "OnPosSynced (f, p) b h = Ret h'"
    and "\<not> has_flag (bl_status h) binlogIsExit" and "has_flag (bl_status h) cacheHandlerIsOpened"
    and "\<not> bl_cacheFails h" and "494 < length f" and "16 + length f < 2 ^ 16"
  shows "getBinlogPositionCache h' = Ret ('''', 0, 0)"
proof -
  note s = OnPosSynced_cache [OF assms(1-4)]
  from s(1) obtain rest where "bl_cache h' = packPos f (ucast p) (bl_EventIndex h) @ rest" by blast
  then show ?thesis using s(2) assms(3,5,6) by (intro cache_read_long) (simp_all add: MinRead_def)
qed

theorem cache_long_name_witness:
  "\<exists>h'. OnPosSynced (replicate 495 (CHR ''a''), 4) True demo_binlog = Ret h' \<and>
    getBinlogPositionCache h' = Ret ('''', 0, 0)"
proof -
  have "\<exists>h'. OnPosSynced (replicate 495 (CHR ''a''), 4) True demo_binlog = Ret h'"
    by (simp add: OnPosSynced_def saveBinlogPositionCache_def Let_def demo_binlog_def binlog_init_def bl_WriteAt_def)
  then obtain h' where h': "OnPosSynced (replicate 495 (CHR ''a''), 4) True demo_binlog = Ret h'" by blast
  from cache_long_name [OF this demo_binlog_status(2,1,3)] h' show ?thesis by auto
qed

text \<open>
  C4: A restart resumes where the previous process was. If the cache file holds what that process
  last wrote for a position of a file the master has moved on from, or a position the master has
  reached, the new process starts from exactly that position and goes on counting events
  from the same index.
\<close>

theorem restart_resumes:
  assumes synced: "OnPosSynced (f, p) b h = Ret h'"
    and opn: "\<not> has_flag (bl_status h) binlogIsExit" "has_flag (bl_status h) cacheHandlerIsOpened"
      "\<not> bl_cacheFails h"
    and name: "f \<noteq> ''''" "length f \<le> 494" and pos: "0 < p"
    and stored: "os_Stat fs (cache_file env) = Some (FFile (bl_cache h'))"
    and new: "NewBinlog env ce cfg w opts fs = Ret (fs'', h2)"
    and master: "ce_master ce = Some (mf, mp)" and behind: "f = mf \<longrightarrow> p \<le> mp"
  shows "bl_lastBinFile h2 = f \<and> bl_lastPos h2 = p \<and> bl_EventIndex h2 = bl_EventIndex h"
proof -
  from OnPosSynced_cache(1) [OF synced opn(1-3)] obtain rest
    where rest: "bl_cache h' = packPos f (ucast p) (bl_EventIndex h) @ rest" by blast
  let ?h0 = "foldl (\<lambda>h f. f h) (binlog_init cfg w) opts"
  have "handlerInit env ce fs ?h0 = Ret (fs'', h2)" using new by (simp add: NewBinlog_def)
  from handlerInit_resumes [OF this stored [unfolded rest]] name(2) master
  obtain config where c: "bl_EventIndex h2 = bl_EventIndex h"
    "bl_lastBinFile h2 = mc_BinFile (choose_pos f (ucast p) (mf, mp) config)"
    "bl_lastPos h2 = mc_BinPos (choose_pos f (ucast p) (mf, mp) config)"
    by (auto simp: MinRead_def)
  have "unat p < 2 ^ 32" using unsigned_less [of p] by simp
  moreover from this have "unat (ucast p :: int64) = unat p"
    by (simp add: unsigned_ucast_eq take_bit_nat_eq_self)
  ultimately have "sint (ucast p :: int64) = int (unat p)" by (subst sint_nonneg) simp_all
  then have "(0 :: int64) <s ucast p" using pos by (simp add: word_sless_alt word_less_nat_alt del: of_nat_unat)
  moreover have "(ucast (ucast p :: int64) :: 32 word) = p"
    by (rule bit_word_eqI) (auto simp: bit_simps)
  ultimately have "mc_BinFile (choose_pos f (ucast p) (mf, mp) config) = f"
    "mc_BinPos (choose_pos f (ucast p) (mf, mp) config) = p"
    using name(1) behind by (auto simp: choose_pos_def Let_def)
  with c show ?thesis by simp
qed

definition demo_fs :: "bytes \<Rightarrow> file_system" where
  "demo_fs d = \<lparr>fs_tree = [[''c''] \<mapsto> FDir, [''c'', ''mysql_binlog_position.pos''] \<mapsto> FFile d],
     fs_cwd = [], fs_deny = (\<lambda>_. False)\<rparr>"

definition demo_env :: app_env where
  "demo_env = \<lparr>ev_Pid = ''/p'', ev_ConfigPath = ''/e'', ev_CachePath = ''/c'', ev_LogPath = ''/l''\<rparr>"

lemma demo_cache_stat: "os_Stat (demo_fs d) (cache_file demo_env) = Some (FFile d)"
  by (simp add: os_Stat_def fs_node_def resolve_def cache_file_def demo_env_def demo_fs_def)

lemma demo_cache_open:
  "GetParent (cache_file demo_env) = Ret ''/c''"
  "fst (path_Mkdir (demo_fs d) ''/c'') = demo_fs d"
  "os_OpenWrite (demo_fs d) False (cache_file demo_env) = Some (demo_fs d, d)"
proof -
  show "GetParent (cache_file demo_env) = Ret ''/c''"
    using GetParent_joined [of "''mysql_binlog_position.pos''" "''/c''"]
    by (simp add: cache_file_def demo_env_def to_slash_def)
  show "fst (path_Mkdir (demo_fs d) ''/c'') = demo_fs d"
    by (simp add: path_Mkdir_def path_Exists_def os_Stat_def fs_node_def resolve_def demo_fs_def to_slash_def)
  show "os_OpenWrite (demo_fs d) False (cache_file demo_env) = Some (demo_fs d, d)"
    by (simp add: os_OpenWrite_def fs_node_def resolve_def cache_file_def demo_env_def demo_fs_def Let_def)
qed

lemma demo_NewBinlog:
  assumes "ce_configOk ce" "ce_newOk ce" "ce_master ce = Some m" "length f \<le> 494"
  shows "\<exists>h. NewBinlog demo_env ce (Inr demo_config) () [] (demo_fs (packPos f p e @ rest)) =
    Ret (demo_fs (packPos f p e @ rest), h)"
proof -
  let ?h = "(binlog_init (Inr demo_config) ())\<lparr>bl_cache := packPos f p e @ rest,
    bl_status := bl_status (binlog_init (Inr demo_config) ()) OR cacheHandlerIsOpened\<rparr>"
  have "getBinlogPositionCache ?h = Ret (f, p, e)"
    using assms(4) by (intro cache_read) (simp_all add: bl_flags MinRead_def)
  then show ?thesis
    using assms by (simp add: NewBinlog_def handlerInit_def demo_cache_open Let_def setHandler_def
        binlog_init_def)
qed

theorem restart_resumes_witness:
  "\<exists>h' fs'' h2. OnPosSynced (''mysql-bin.000059'', 123456) True demo_binlog = Ret h' \<and>
    NewBinlog demo_env \<lparr>ce_configOk = True, ce_newOk = True, ce_master = Some (''mysql-bin.000060'', 4)\<rparr>
      (Inr demo_config) () [] (demo_fs (bl_cache h')) = Ret (fs'', h2) \<and>
    bl_lastBinFile h2 = ''mysql-bin.000059'' \<and> bl_lastPos h2 = 123456 \<and> bl_EventIndex h2 = 7"
proof -
  let ?ce = "\<lparr>ce_configOk = True, ce_newOk = True, ce_master = Some (''mysql-bin.000060'', 4)\<rparr>"
  have "\<exists>h'. OnPosSynced (''mysql-bin.000059'', 123456) True demo_binlog = Ret h'"
    by (simp add: OnPosSynced_def saveBinlogPositionCache_def Let_def demo_binlog_def binlog_init_def bl_WriteAt_def)
  then obtain h' where h': "OnPosSynced (''mysql-bin.000059'', 123456) True demo_binlog = Ret h'" by blast
  obtain rest where "bl_cache h' = packPos ''mysql-bin.000059'' (ucast (123456 :: 32 word)) (bl_EventIndex demo_binlog) @ rest"
    using OnPosSynced_cache(1) [OF h' demo_binlog_status(2,1,3)] by blast
  then obtain h2 where h2: "NewBinlog demo_env ?ce (Inr demo_config) () [] (demo_fs (bl_cache h')) =
      Ret (demo_fs (bl_cache h'), h2)"
    using demo_NewBinlog [of ?ce] by fastforce
  have "bl_lastBinFile h2 = ''mysql-bin.000059'' \<and> bl_lastPos h2 = 123456 \<and>
      bl_EventIndex h2 = bl_EventIndex demo_binlog"
    by (rule restart_resumes [where mf = "''mysql-bin.000060''" and mp = 4,
          OF h' demo_binlog_status(2,1,3) _ _ _ demo_cache_stat h2]) simp_all
  with h' h2 show ?thesis by (auto simp: demo_binlog_def)
qed

text \<open>
  C30: The position at shutdown is not saved. \<open>Close\<close> sets the exit flag before it sends the stop
  signal, and when the signal is handled the save at the end of \<open>lookStopService\<close> returns without
  writing: whatever the last position is, the cache file is as it was before, and it is closed.
\<close>

theorem shutdown_position_not_saved:
  assumes "bl_Close names h = Ret h1" and "\<not> has_flag (bl_status h) binlogIsExit"
    and "lookStopService ce synced True h1 = Ret h2"
  shows "bl_cache h2 = bl_cache h \<and> \<not> has_flag (bl_status h2) cacheHandlerIsOpened"
proof -
  have "has_flag (bl_status h1) binlogIsExit \<and> bl_cache h1 = bl_cache h"
    using assms(1,2) by (auto simp: bl_Close_def StopService_def each_service_def Let_def bl_flags split: if_splits)
  then show ?thesis
    using assms(3)
    by (auto simp: lookStopService_def stop_reset_def stop_tail_def saveBinlogPositionCache_def Let_def bl_flags
        split: if_splits)
qed

theorem shutdown_position_not_saved_witness:
  "\<exists>h1 h2. bl_Close [] (demo_binlog\<lparr>bl_lastPos := 99, bl_lastBinFile := ''f''\<rparr>) = Ret h1 \<and>
    lookStopService \<lparr>ce_configOk = True, ce_newOk = True, ce_master = None\<rparr> None True h1 = Ret h2 \<and>
    bl_cache h2 = []"
proof -
  let ?h = "demo_binlog\<lparr>bl_lastPos := 99, bl_lastBinFile := ''f''\<rparr>"
  let ?ce = "\<lparr>ce_configOk = True, ce_newOk = True, ce_master = None\<rparr>"
  have "\<exists>h1. bl_Close [] ?h = Ret h1"
    using demo_binlog_status(2)
    by (simp add: bl_Close_def StopService_def each_service_def Let_def demo_binlog_def binlog_init_def signalQueue_def)
  then obtain h1 where h1: "bl_Close [] ?h = Ret h1" by blast
  then have "has_flag (bl_status h1) binlogIsExit"
    by (auto simp: bl_Close_def StopService_def each_service_def Let_def bl_flags split: if_splits)
  then obtain h2 where h2: "lookStopService ?ce None True h1 = Ret h2"
    by (simp add: lookStopService_def stop_reset_def saveBinlogPositionCache_def Let_def)
  from shutdown_position_not_saved [OF h1 _ h2] demo_binlog_status(2) h1 h2 show ?thesis
    by (auto simp: demo_binlog_def binlog_init_def)
qed

definition events_data :: "rows_event \<Rightarrow> (string \<times> go_value) list list go" where
  "events_data e =
     (if re_Action e = ''update'' then pairs_data (re_Columns e) (re_Rows e)
      else rows_data (re_Columns e) (re_Rows e))"

lemma OnRow_announces:
  "\<not> has_flag (bl_status h) binlogIsExit \<Longrightarrow> events_data e = Ret ds \<Longrightarrow>
     OnRow json ord now e h = go_foldM (announce json ord now e) h ds"
  using update_loop_announces [of e "re_Rows e" ds "row_base now e" now "[]" json ord h]
    row_loop_announces [of e "re_Rows e" ds "row_base now e" now "[]" json ord h]
  by (auto simp: OnRow_def events_data_def split: if_splits)

lemma events_data_length:
  "events_data e = Ret ds \<Longrightarrow>
     length (re_Rows e) = (if re_Action e = ''update'' then 2 * length ds else length ds)"
proof -
  have "rows_data cols rows = Ret ds \<Longrightarrow> length rows = length ds" for cols rows and ds
    by (induction rows arbitrary: ds) auto
  moreover have "pairs_data cols rows = Ret ds \<Longrightarrow> length rows = 2 * length ds" for cols rows and ds
    by (induction cols rows arbitrary: ds rule: pairs_data.induct) auto
  moreover assume "events_data e = Ret ds"
  ultimately show ?thesis by (auto simp: events_data_def split: if_splits)
qed

text \<open>
  Services that record what they are sent, each in its own slot; \<open>ord\<close> ranges over all of them.
\<close>

definition recording ::
    "(string \<Rightarrow> (string \<times> bytes) list) binlog \<Rightarrow> (go_value \<Rightarrow> string list) \<Rightarrow> (go_value \<Rightarrow> bytes option)
       \<Rightarrow> (go_value \<Rightarrow> bytes) \<Rightarrow> bool" where
  "recording h ord json enc \<longleftrightarrow>
     (\<forall>name s t d w. bl_services h name = Some s \<longrightarrow>
        (\<exists>b. si_SendAll s t d w = Ret (w(name := w name @ [(t, d)]), b))) \<and>
     (\<forall>v. distinct (ord v) \<and> set (ord v) = dom (bl_services h)) \<and>
     (\<forall>v. json v = Some (enc v)) \<and> bl_onEvent h = []"

lemma announce_slots:
  assumes rec: "recording h ord json enc"
  shows "\<exists>h'. announce json ord now e h data = Ret h' \<and> recording h' ord json enc \<and>
    bl_services h' = bl_services h \<and> bl_EventIndex h' = bl_EventIndex h + 1 \<and>
    (\<forall>n \<in> dom (bl_services h). bl_world h' n = bl_world h n @
      [(re_Schema e @ ''.'' @ re_Table e, enc (VMap (row_event now e (bl_EventIndex h + 1) data)))])"
proof -
  let ?h = "h\<lparr>bl_EventIndex := bl_EventIndex h + 1\<rparr>" and ?t = "re_Schema e @ ''.'' @ re_Table e"
  let ?ev = "row_event now e (bl_EventIndex h + 1) data"
  have names: "as_string ?ev ''database'' = Ret (re_Schema e)" "as_string ?ev ''table'' = Ret (re_Table e)"
    by (simp_all add: as_string_def row_event_def row_base_def)
  have "\<exists>w'. notify_services (ord (VMap ?ev)) ?t (enc (VMap ?ev)) ?h = Ret w' \<and>
    (\<forall>n. w' n = bl_world ?h n @ (if n \<in> set (ord (VMap ?ev)) \<and> bl_services ?h n \<noteq> None
      then [(?t, enc (VMap ?ev))] else []))"
    by (rule notify_services_slots) (use rec in \<open>auto simp: recording_def\<close>)
  then obtain w' where w': "notify_services (ord (VMap ?ev)) ?t (enc (VMap ?ev)) ?h = Ret w'"
    "\<forall>n. w' n = bl_world ?h n @ (if n \<in> set (ord (VMap ?ev)) \<and> bl_services ?h n \<noteq> None
      then [(?t, enc (VMap ?ev))] else [])" by blast
  then have "announce json ord now e h data = Ret (?h\<lparr>bl_world := w'\<rparr>)"
    using names rec by (simp add: announce_def notify_def recording_def Let_def)
  moreover have "recording (?h\<lparr>bl_world := w'\<rparr>) ord json enc" using rec by (simp add: recording_def)
  ultimately show ?thesis using w'(2) rec by (auto simp: recording_def)
qed

lemma announce_all_slots:
  assumes "recording h ord json enc"
  shows "\<exists>h'. go_foldM (announce json ord now e) h ds = Ret h' \<and>
    bl_EventIndex h' = bl_EventIndex h + of_nat (length ds) \<and>
    (\<forall>n \<in> dom (bl_services h). bl_world h' n = bl_world h n @
      map (\<lambda>(k, d). (re_Schema e @ ''.'' @ re_Table e, enc (VMap (row_event now e (bl_EventIndex h + of_nat k) d))))
        (enumerate 1 ds))"
  using assms
proof (induction ds arbitrary: h)
  case Nil
  then show ?case by simp
next
  case (Cons d ds)
  from announce_slots [OF Cons.prems]
  obtain h1 where h1: "announce json ord now e h d = Ret h1" "recording h1 ord json enc"
    "bl_services h1 = bl_services h" "bl_EventIndex h1 = bl_EventIndex h + 1"
    "\<forall>n \<in> dom (bl_services h). bl_world h1 n = bl_world h n @
      [(re_Schema e @ ''.'' @ re_Table e, enc (VMap (row_event now e (bl_EventIndex h + 1) d)))]" by blast
  have shift: "map (\<lambda>(k, d). f (x + 1 + of_nat k) d) (enumerate n ds) =
      map (\<lambda>(k, d). f (x + of_nat k) d) (enumerate (Suc n) ds)"
    for f :: "int64 \<Rightarrow> _ \<Rightarrow> _" and x :: int64 and n
    by (induction ds arbitrary: n) (simp_all add: algebra_simps)
  from Cons.IH [OF h1(2)] obtain h2 where "go_foldM (announce json ord now e) h1 ds = Ret h2"
    "bl_EventIndex h2 = bl_EventIndex h1 + of_nat (length ds)"
    "\<forall>n \<in> dom (bl_services h1). bl_world h2 n = bl_world h1 n @
      map (\<lambda>(k, d). (re_Schema e @ ''.'' @ re_Table e, enc (VMap (row_event now e (bl_EventIndex h1 + of_nat k) d))))
        (enumerate 1 ds)" by blast
  with h1 shift [of "\<lambda>i d. (re_Schema e @ ''.'' @ re_Table e, enc (VMap (row_event now e i d)))" "bl_EventIndex h" 1]
  show ?case by (intro exI [of _ h2]) (simp add: algebra_simps)
qed


definition slot_service :: "string \<Rightarrow> (string \<Rightarrow> (string \<times> bytes) list) service_if" where
  "slot_service name = \<lparr>si_Name = name,
     si_SendAll = (\<lambda>t d w. Ret (w(name := w name @ [(t, d)]), True)),
     si_Start = Ret, si_Close = Ret, si_Reload = Ret\<rparr>"

definition demo_rows :: rows_event where
  "demo_rows = \<lparr>re_Schema = ''db'', re_Table = ''t'', re_Columns = [], re_Action = ''insert'', re_Rows = [[], []]\<rparr>"


text \<open>
  Once \<open>Close\<close> was called, row events are dropped: they reach no service and use no index.
\<close>

theorem rows_after_close_dropped:
  assumes "bl_Close names h = Ret h1"
  shows "OnRow json ord now e h1 = Ret h1"
proof -
  have "has_flag (bl_status h1) binlogIsExit"
    using assms by (auto simp: bl_Close_def StopService_def each_service_def Let_def bl_flags split: if_splits)
  then show ?thesis by (simp add: OnRow_def)
qed

theorem rows_after_close_dropped_witness:
  "\<exists>h1. bl_Close [] demo_binlog = Ret h1 \<and> OnRow (\<lambda>_. Some [1]) (\<lambda>_. []) 5 demo_rows h1 = Ret h1"
proof -
  have "\<exists>h1. bl_Close [] demo_binlog = Ret h1"
    using demo_binlog_status(2)
    by (simp add: bl_Close_def StopService_def each_service_def Let_def demo_binlog_def binlog_init_def signalQueue_def)
  then show ?thesis using rows_after_close_dropped by blast
qed

end
