(* ===== verification/Service.thy ===== *)
theory Service
  imports Go_Base
begin

text \<open>
  \<^verbatim>\<open>src/library/service/util.go\<close>: the topic filters every service applies to a table name, and
  the frames (4 bytes of length, 2 bytes of command, the content) that the subscribe service,
  the control port, the agents and the clients exchange.

  \<open>regexp.MatchString\<close> is an argument \<open>rx\<close> of the definitions that use it: \<open>rx f t\<close> is
  \<open>None\<close> when the pattern \<open>f\<close> does not compile, and otherwise tells whether it matches \<open>t\<close>.
\<close>

type_synonym regexp = "string \<Rightarrow> string \<Rightarrow> bool option"

subsection \<open>Filters\<close>

fun match_loop :: "regexp \<Rightarrow> string list \<Rightarrow> string \<Rightarrow> bool" where
  "match_loop rx [] table = False"
| "match_loop rx (f # fs) table =
     (if rx f table = Some True then True else match_loop rx fs table)"

definition MatchFilters :: "regexp \<Rightarrow> string list \<Rightarrow> string \<Rightarrow> bool" where
  "MatchFilters rx filters table =
     (if length filters \<le> 0 then True else match_loop rx filters table)"

lemma match_loop_iff: "match_loop rx fs t \<longleftrightarrow> (\<exists>f \<in> set fs. rx f t = Some True)"
  by (induction fs) auto

lemma MatchFilters_iff:
  "MatchFilters rx fs t \<longleftrightarrow> fs = [] \<or> (\<exists>f \<in> set fs. rx f t = Some True)"
  by (auto simp: MatchFilters_def match_loop_iff)

subsection \<open>Frames\<close>

definition Pack :: "int64 \<Rightarrow> bytes \<Rightarrow> bytes" where
  "Pack cmd msg =
     (let l = length msg;
          r = replicate (l + 6) 0;
          cl = of_nat (l + 2);
          r = r[0 := go_byte cl 0];
          r = r[1 := go_byte cl 8];
          r = r[2 := go_byte cl 16];
          r = r[3 := go_byte cl 24];
          r = r[4 := go_byte cmd 0];
          r = r[5 := go_byte cmd 8]
      in go_copy r 6 msg)"

datatype service_error = DataLenError

definition Unpack :: "bytes \<Rightarrow> (service_error + int64 \<times> bytes) go" where
  "Unpack data =
     go_bind (go_index data 0) (\<lambda>d0. go_bind (go_index data 1) (\<lambda>d1.
     go_bind (go_index data 2) (\<lambda>d2. go_bind (go_index data 3) (\<lambda>d3.
       let clen = sint (go_shl d0 0 OR go_shl d1 8 OR go_shl d2 16 OR go_shl d3 24)
       in if int (length data) < clen + 4 then Ret (Inl DataLenError)
          else go_bind (go_index data 4) (\<lambda>d4. go_bind (go_index data 5) (\<lambda>d5.
            let cmd = go_shl d4 0 OR go_shl d5 8
            in go_bind (go_slice data 6 (clen + 4)) (\<lambda>content.
                 Ret (Inr (cmd, content)))))))))"

text \<open>The header fields as the readers compute them once six bytes are there.\<close>

definition hdr_clen :: "bytes \<Rightarrow> int" where
  "hdr_clen buf =
     sint (go_shl (buf ! 0) 0 OR go_shl (buf ! 1) 8 OR go_shl (buf ! 2) 16 OR go_shl (buf ! 3) 24)"

definition hdr_cmd :: "bytes \<Rightarrow> int64" where
  "hdr_cmd buf = go_shl (buf ! 4) 0 OR go_shl (buf ! 5) 8"

text \<open>Reference form: the length prefix in four bytes, the command in two, the content.\<close>

lemma Pack_eq: "Pack cmd msg = le_enc 4 (of_nat (length msg + 2)) @ le_enc 2 cmd @ msg"
proof -
  have "replicate (length msg + 6) (0 :: byte) = 0 # 0 # 0 # 0 # 0 # 0 # replicate (length msg) 0"
    by (simp add: eval_nat_numeral)
  then show ?thesis
    unfolding Pack_def Let_def go_bytes_4 [symmetric] go_bytes_2 [symmetric] go_copy_def
    by (simp add: eval_nat_numeral)
qed

lemma length_Pack [simp]: "length (Pack cmd msg) = length msg + 6"
  by (simp add: Pack_eq)

lemma Pack_not_Nil [simp]: "Pack cmd msg \<noteq> []"
  by (simp add: Pack_eq flip: length_0_conv)

lemma hdr_clen_le_dec: "6 \<le> length buf \<Longrightarrow> hdr_clen buf = int (unat (le_dec (take 4 buf)))"
proof -
  assume "6 \<le> length buf"
  then have "take 4 buf = [buf ! 0, buf ! 1, buf ! 2, buf ! 3]"
    by (auto simp: list_eq_iff_nth_eq less_Suc_eq eval_nat_numeral)
  then have "hdr_clen buf = sint (le_dec (take 4 buf))"
    by (simp only: hdr_clen_def go_shl_4)
  also have "\<dots> = int (unat (le_dec (take 4 buf)))"
    by (rule sint_le_dec) simp
  finally show ?thesis .
qed

lemma hdr_clen_bounds: "6 \<le> length buf \<Longrightarrow> 0 \<le> hdr_clen buf \<and> hdr_clen buf < 2 ^ 32"
  using unat_le_dec [of "take 4 buf"] by (simp add: hdr_clen_le_dec del: of_nat_unat)

lemma hdr_cmd_le_dec: "6 \<le> length buf \<Longrightarrow> hdr_cmd buf = le_dec (take 2 (drop 4 buf))"
proof -
  assume "6 \<le> length buf"
  then have "take 2 (drop 4 buf) = [buf ! 4, buf ! 5]"
    by (auto simp: list_eq_iff_nth_eq less_Suc_eq eval_nat_numeral)
  then show ?thesis by (simp add: hdr_cmd_def go_shl_2)
qed

text \<open>
  A frame fits when its length field does not overflow four bytes and its command fits two.
\<close>

definition frame_fits :: "int64 \<times> bytes \<Rightarrow> bool" where
  "frame_fits = (\<lambda>(cmd, msg). length msg + 2 < 2 ^ 32 \<and> unat cmd < 2 ^ 16)"

lemma hdr_clen_Pack:
  "length msg + 2 < 2 ^ 32 \<Longrightarrow> hdr_clen (Pack cmd msg @ rest) = int (length msg + 2)"
proof -
  assume "length msg + 2 < 2 ^ 32"
  then have "unat (le_dec (le_enc 4 (of_nat (length msg + 2)))) = length msg + 2"
    by (intro unat_le_dec_enc) simp_all
  then show ?thesis
    by (simp add: hdr_clen_le_dec Pack_eq del: of_nat_unat)
qed

lemma hdr_cmd_Pack: "unat cmd < 2 ^ 16 \<Longrightarrow> hdr_cmd (Pack cmd msg @ rest) = cmd"
proof -
  assume "unat cmd < 2 ^ 16"
  then have "unat (take_bit 16 cmd) = unat cmd"
    by (simp add: unsigned_take_bit_eq take_bit_nat_eq_self)
  then have "take_bit 16 cmd = cmd" by (simp only: word_unat_eq_iff)
  then show ?thesis by (simp add: hdr_cmd_le_dec Pack_eq le_dec_enc)
qed

lemma Unpack_header:
  assumes "6 \<le> length data"
  shows "Unpack data =
    (if int (length data) < hdr_clen data + 4 then Ret (Inl DataLenError)
     else go_bind (go_slice data 6 (hdr_clen data + 4)) (\<lambda>content. Ret (Inr (hdr_cmd data, content))))"
proof -
  from assms have "go_index data (int k) = Ret (data ! k)" if "k < 6" for k
    using that by (intro go_index_nat) simp
  from this [of 0] this [of 1] this [of 2] this [of 3] this [of 4] this [of 5] show ?thesis
    by (simp add: Unpack_def hdr_clen_def hdr_cmd_def Let_def)
qed

lemma Unpack_Pack:
  assumes "frame_fits (cmd, msg)"
  shows "Unpack (Pack cmd msg @ rest) = Ret (Inr (cmd, msg))"
proof -
  have "hdr_clen (Pack cmd msg @ rest) = int (length msg + 2)" "hdr_cmd (Pack cmd msg @ rest) = cmd"
    using assms by (simp_all add: frame_fits_def hdr_clen_Pack hdr_cmd_Pack)
  then show ?thesis by (simp add: Unpack_header go_slice_def Pack_eq)
qed

subsection \<open>Properties\<close>

text \<open>
  A topic filter passes a table exactly when there are no filters or one of them is a valid
  pattern that matches; a pattern that does not compile never passes anything.
\<close>

theorem filters_match: "MatchFilters rx fs t \<longleftrightarrow> fs = [] \<or> (\<exists>f \<in> set fs. rx f t = Some True)"
  by (rule MatchFilters_iff)

text \<open>
  Unpacking a packed frame gives back its command and content, whatever bytes follow the frame.
\<close>

theorem unpack_pack:
  assumes "frame_fits (cmd, msg)"
  shows "Unpack (Pack cmd msg @ rest) = Ret (Inr (cmd, msg))"
  using assms by (rule Unpack_Pack)

theorem unpack_pack_witness:
  "frame_fits (7, bytes_of ''redis'') \<and>
   Unpack (Pack 7 (bytes_of ''redis'') @ [9, 9]) = Ret (Inr (7, bytes_of ''redis''))"
proof -
  have "frame_fits (7, bytes_of ''redis'')" by (simp add: frame_fits_def)
  with unpack_pack [OF this] show ?thesis by blast
qed

text \<open>
  C24: What \<open>Unpack\<close> does with any six bytes or more: an error when the frame is not all there,
  the command and content when it is, and a panic when the length field is below 2 (it does
  not even cover the command), which no check excludes. With fewer than four bytes it panics
  as well.
\<close>

theorem unpack_outcomes:
  "(length data < 4 \<longrightarrow> Unpack data = Panic IndexOutOfRange) \<and>
   (6 \<le> length data \<longrightarrow> Unpack data =
     (if int (length data) < hdr_clen data + 4 then Ret (Inl DataLenError)
      else if hdr_clen data < 2 then Panic SliceBounds
      else Ret (Inr (hdr_cmd data, take (nat (hdr_clen data - 2)) (drop 6 data)))))"
proof
  show "length data < 4 \<longrightarrow> Unpack data = Panic IndexOutOfRange"
    by (auto simp: Unpack_def go_index_def go_split)
qed (auto simp: Unpack_header go_slice_def)

theorem unpack_outcomes_witness:
  "Unpack [1, 0, 0, 0, 3, 0] = Panic SliceBounds \<and> Unpack [1, 0, 0] = Panic IndexOutOfRange"
proof -
  have "hdr_clen [1, 0, 0, 0, 3, 0] = 1" by (simp add: hdr_clen_def go_shl_def)
  with unpack_outcomes [of "[1, 0, 0, 0, 3, 0]"] unpack_outcomes [of "[1, 0, 0]"]
  show ?thesis by simp
qed

end
