(* ===== verification/Agent.thy ===== *)
theory Agent
  imports Binlog Service
begin

text \<open>
  \<^verbatim>\<open>src/library/agent\<close>: the cluster side of a node. The leader broadcasts events and positions to the
  followers that are connected to it; a follower hands what it receives to its callbacks.

  The callbacks act on a state \<open>'v\<close>. The tcp server, the tcp client and the leader election are
  libraries: \<open>agent_net\<close> records the calls the agent makes to them (\<open>Broadcast\<close>, \<open>Connect\<close>, \<open>Close\<close>,
  \<open>Free\<close>); what they answer is an argument. \<open>um\<close> is \<open>json.Unmarshal\<close> into a map, \<open>None\<close> an error.
\<close>

subsection \<open>Configuration and state\<close>

definition AG_EVENT :: int64 where "AG_EVENT = 4"
definition AG_POS :: int64 where "AG_POS = 9"

record agent_config =
  gc_Enable :: bool
  gc_Type :: string
  gc_Lock :: string
  gc_AgentListen :: string
  gc_ConsulAddress :: string

definition ag_getConfig ::
    "(string \<Rightarrow> agent_config option) \<Rightarrow> app_env \<Rightarrow> file_system \<Rightarrow> app_error + agent_config" where
  "ag_getConfig dec env fs = decode_file fs dec (config_file (ev_ConfigPath env) ''agent.toml'')"

definition AgentServiceName :: string where "AgentServiceName = ''wing-binlog-go-agent''"

text \<open>The arguments \<open>NewLeader\<close> is called with.\<close>

record leader_reg =
  lr_address :: string
  lr_lockKey :: string
  lr_name :: string
  lr_host :: string
  lr_port :: int

record 'v agent =
  ag_Address :: string
  ag_enable :: bool
  ag_leader :: bool
  ag_sService :: "leader_reg option"
  ag_onLeader :: "(bool \<Rightarrow> 'v \<Rightarrow> 'v go) list"
  ag_onEvent :: "(string \<Rightarrow> bytes \<Rightarrow> 'v \<Rightarrow> ('v \<times> bool) go) list"
  ag_onPos :: "(bytes \<Rightarrow> 'v \<Rightarrow> 'v go) list"

record agent_net =
  an_broadcasts :: "(int64 \<times> bytes) list"
  an_connects :: "string list"
  an_started :: bool
  an_closed :: bool
  an_freed :: bool

definition agent_net_init :: agent_net where
  "agent_net_init = \<lparr>an_broadcasts = [], an_connects = [], an_started = False, an_closed = False, an_freed = False\<rparr>"

subsection \<open>Options\<close>

type_synonym 'v agent_option = "'v agent \<Rightarrow> 'v \<Rightarrow> ('v agent \<times> 'v) go"

definition ag_OnPos :: "(bytes \<Rightarrow> 'v \<Rightarrow> 'v go) \<Rightarrow> 'v agent_option" where
  "ag_OnPos f s v = (if \<not> ag_enable s then Ret (s, v) else Ret (s\<lparr>ag_onPos := ag_onPos s @ [f]\<rparr>, v))"

definition ag_OnLeader :: "(bool \<Rightarrow> 'v \<Rightarrow> 'v go) \<Rightarrow> 'v agent_option" where
  "ag_OnLeader f s v =
     (if \<not> ag_enable s then go_bind (f True v) (\<lambda>v. Ret (s, v))
      else Ret (s\<lparr>ag_onLeader := ag_onLeader s @ [f]\<rparr>, v))"

definition ag_OnEvent :: "(string \<Rightarrow> bytes \<Rightarrow> 'v \<Rightarrow> ('v \<times> bool) go) \<Rightarrow> 'v agent_option" where
  "ag_OnEvent f s v = (if \<not> ag_enable s then Ret (s, v) else Ret (s\<lparr>ag_onEvent := ag_onEvent s @ [f]\<rparr>, v))"

definition ag_OnRaw :: "(bytes \<Rightarrow> 'v \<Rightarrow> ('v \<times> bool) go) \<Rightarrow> 'v agent_option" where
  "ag_OnRaw f s v = Ret (s, v)"

definition agent_init :: "bool \<Rightarrow> string \<Rightarrow> leader_reg option \<Rightarrow> 'v agent" where
  "agent_init enable address reg =
     \<lparr>ag_Address = address, ag_enable = enable, ag_leader = False, ag_sService = reg, ag_onLeader = [], ag_onEvent = [],
      ag_onPos = []\<rparr>"

definition agent_opts :: "'v agent_option list \<Rightarrow> 'v agent \<Rightarrow> 'v \<Rightarrow> ('v agent \<times> 'v) go" where
  "agent_opts opts s v = go_foldM (\<lambda>(s, v) f. f s v) (s, v) opts"

definition NewAgentServer :: "app_error + agent_config \<Rightarrow> 'v agent_option list \<Rightarrow> 'v \<Rightarrow> ('v agent \<times> 'v) go" where
  "NewAgentServer cfg opts v =
     (case cfg of
        Inl err \<Rightarrow> Panic (LogPanic ''agent config'')
      | Inr config \<Rightarrow>
          if \<not> gc_Enable config then agent_opts opts (agent_init (gc_Enable config) '''' None) v
          else let strs = split_on (CHR '':'') (gc_AgentListen config) in
               go_bind (go_index strs 0) (\<lambda>ip.
               go_bind (go_index strs 1) (\<lambda>p.
                 let port = fst (ParseInt 32 p)
                 in agent_opts opts (agent_init (gc_Enable config) (gc_AgentListen config)
                      (Some \<lparr>lr_address = gc_ConsulAddress config, lr_lockKey = gc_Lock config, lr_name = AgentServiceName,
                             lr_host = ip, lr_port = port\<rparr>)) v)))"

subsection \<open>Messages\<close>

definition agent_onEvents :: "string \<Rightarrow> bytes \<Rightarrow> 'v agent \<Rightarrow> 'v \<Rightarrow> 'v go" where
  "agent_onEvents table data s v =
     go_foldM (\<lambda>v f. go_bind (f table data v) (\<lambda>(v, _). Ret v)) v (ag_onEvent s)"

definition onClientMessage ::
    "(bytes \<Rightarrow> (string \<times> go_value) list option) \<Rightarrow> bytes \<Rightarrow> 'v agent \<Rightarrow> 'v \<Rightarrow> 'v go" where
  "onClientMessage um content s v =
     go_bind (Unpack content) (\<lambda>r.
       case r of
         Inl err \<Rightarrow> Ret v
       | Inr (cmd, data) \<Rightarrow>
           if cmd = AG_EVENT then
             (case um data of
                None \<Rightarrow> Ret v
              | Some raw \<Rightarrow>
                  go_bind (as_string raw ''database'') (\<lambda>db.
                  go_bind (as_string raw ''table'') (\<lambda>tb.
                    agent_onEvents (db @ ''.'' @ tb) data s v)))
           else if cmd = AG_POS then go_foldM (\<lambda>v f. f data v) v (ag_onPos s)
           else Ret v)"

definition onServerMessage :: "'v agent \<Rightarrow> int64 \<Rightarrow> bytes \<Rightarrow> 'v agent" where
  "onServerMessage s msgId data = s"

subsection \<open>Start, election, close\<close>

definition ag_Start :: "'v agent \<Rightarrow> agent_net \<Rightarrow> agent_net" where
  "ag_Start s net = (if \<not> ag_enable s then net else net\<lparr>an_started := True\<rparr>)"

text \<open>
  The callback of the election. A follower asks for the leader until it gets one, and connects to it;
  \<open>gets\<close> are the answers.
\<close>

fun connect_leader :: "(string \<times> int) option list \<Rightarrow> agent_net \<Rightarrow> agent_net go" where
  "connect_leader [] net = Block"
| "connect_leader (None # gets) net = connect_leader gets net"
| "connect_leader (Some (ip, port) # gets) net =
     Ret (net\<lparr>an_connects := an_connects net @ [ip @ '':'' @ int_digits port]\<rparr>)"

definition onSelect ::
    "bool \<Rightarrow> (string \<times> int) option list \<Rightarrow> 'v agent \<Rightarrow> 'v \<Rightarrow> agent_net \<Rightarrow> ('v agent \<times> 'v \<times> agent_net) go" where
  "onSelect isLeader gets s v net =
     (let s = s\<lparr>ag_leader := isLeader\<rparr> in
      go_bind (go_foldM (\<lambda>v f. f isLeader v) v (ag_onLeader s)) (\<lambda>v.
        if \<not> ag_leader s then go_bind (connect_leader gets net) (\<lambda>net. Ret (s, v, net))
        else Ret (s, v, net)))"

definition ag_Close :: "'v agent \<Rightarrow> agent_net \<Rightarrow> agent_net" where
  "ag_Close s net = (if \<not> ag_enable s then net else net\<lparr>an_closed := True, an_freed := True\<rparr>)"

definition ag_Sync :: "bool \<Rightarrow> bytes \<Rightarrow> agent_net \<Rightarrow> agent_net" where
  "ag_Sync enable data net =
     (if \<not> enable then net else net\<lparr>an_broadcasts := an_broadcasts net @ [(1, data)]\<rparr>)"

subsection \<open>The table of members\<close>

record service_member =
  sm_IsLeader :: bool
  sm_ServiceIp :: string
  sm_Port :: int
  sm_Status :: string

text \<open>\<open>%-ns\<close>: blanks up to a width.\<close>

definition pad_right :: "nat \<Rightarrow> string \<Rightarrow> string" where
  "pad_right n s = s @ replicate (n - length s) (CHR '' '')"

definition crlf :: string where "crlf = [CHR 13, CHR 10]"

definition member_row :: "string \<Rightarrow> string \<Rightarrow> string \<Rightarrow> string \<Rightarrow> string" where
  "member_row i node role status =
     pad_right 6 i @ ''| '' @ pad_right 43 node @ '' | '' @ pad_right 8 role @ '' | '' @ status @ crlf"

definition member_line :: "nat \<Rightarrow> service_member \<Rightarrow> string" where
  "member_line i m =
     member_row (nat_digits i) (''('' @ sm_ServiceIp m @ '':'' @ int_digits (sm_Port m) @ '')'')
       (if sm_IsLeader m then ''leader'' else ''follower'') (sm_Status m)"

definition ShowMembers :: "string option \<Rightarrow> service_member list option \<Rightarrow> 'v agent \<Rightarrow> string" where
  "ShowMembers hostname data s =
     (if \<not> ag_enable s then ''agent is not enable''
      else case data of
        None \<Rightarrow> ''''
      | Some ms \<Rightarrow>
          let hostname = (case hostname of None \<Rightarrow> '''' | Some h \<Rightarrow> h);
              rule = (\<lambda>c. replicate 6 c @ ''+'' @ replicate 45 c @ ''+'' @ replicate 10 c @ ''+'' @ replicate 15 c @ crlf)
          in ''current node: '' @ hostname @ ''('' @ ag_Address s @ '')'' @ crlf @
             ''cluster size: '' @ nat_digits (length ms) @ '' node(s)'' @ crlf @
             rule (CHR ''='') @ member_row ''index'' ''node'' ''role'' ''status'' @ rule (CHR ''-'') @
             concat (map (\<lambda>(i, m). member_line i m) (enumerate 0 ms)) @ rule (CHR ''-''))"

end
