(* ===== verification/Binlog_Life.thy ===== *)
theory Binlog_Life
  imports Binlog
begin

text \<open>
  The goroutines of \<^verbatim>\<open>src/library/binlog/binlog.go\<close> as they interleave: the one that handles start
  signals, the goroutines it starts to run a canal, and the one that handles stop signals. Each
  section of the code between two lock operations is one step. What the canal library does while
  it runs is only that it may end with an error at any time.
\<close>

datatype stop_pc = StopIdle | StopTail

record run_state =
  rs_starting :: nat        \<comment> \<open>goroutines that were started and do not run a canal yet\<close>
  rs_running :: "nat list"  \<comment> \<open>the canals that are being run\<close>
  rs_failed :: nat          \<comment> \<open>goroutines whose canal ended with an error, before they flip the flag\<close>
  rs_pc :: stop_pc          \<comment> \<open>where the stopping goroutine is\<close>

definition no_runs :: run_state where
  "no_runs = \<lparr>rs_starting = 0, rs_running = [], rs_failed = 0, rs_pc = StopIdle\<rparr>"

definition runners :: "run_state \<Rightarrow> nat" where
  "runners r = rs_starting r + length (rs_running r) + rs_failed r"

text \<open>The steps without a stop signal.\<close>

inductive run_step :: "'w binlog \<times> run_state \<Rightarrow> 'w binlog \<times> run_state \<Rightarrow> bool" where
  elected: "OnLeader True h = Ret h' \<Longrightarrow> run_step (h, r) (h', r)"
| start_signal: "bl_startChan h = Suc n \<Longrightarrow> lookStartService (h\<lparr>bl_startChan := n\<rparr>) = (h', spawned) \<Longrightarrow>
    run_step (h, r) (h', if spawned then r\<lparr>rs_starting := Suc (rs_starting r)\<rparr> else r)"
| begins: "rs_starting r = Suc n \<Longrightarrow> run_begin late h = RunFrom k pos \<Longrightarrow>
    run_step (h, r) (h, r\<lparr>rs_starting := n, rs_running := k # rs_running r\<rparr>)"
| error: "rs_running r = xs @ k # ys \<Longrightarrow>
    run_step (h, r) (h, r\<lparr>rs_running := xs @ ys, rs_failed := Suc (rs_failed r)\<rparr>)"
| flip: "rs_failed r = Suc n \<Longrightarrow> run_step (h, r) (run_failed h, r\<lparr>rs_failed := n\<rparr>)"
| synced: "OnPosSynced p b h = Ret h' \<Longrightarrow> run_step (h, r) (h', r)"

text \<open>All steps.\<close>

inductive life_step ::
    "canal_env \<Rightarrow> 'w binlog \<times> run_state \<Rightarrow> 'w binlog \<times> run_state \<Rightarrow> bool" for ce where
  runs: "run_step s s' \<Longrightarrow> life_step ce s s'"
| deposed: "OnLeader False h = Ret h' \<Longrightarrow> life_step ce (h, r) (h', r)"
| stop_signal: "rs_pc r = StopIdle \<Longrightarrow> bl_stopChan h = exit # q \<Longrightarrow>
    stop_reset ce synced exit (h\<lparr>bl_stopChan := q\<rparr>) = Ret h' \<Longrightarrow>
    life_step ce (h, r) (h', r\<lparr>rs_pc := StopTail\<rparr>)"
| stop_finish: "rs_pc r = StopTail \<Longrightarrow> life_step ce (h, r) (stop_tail h, r\<lparr>rs_pc := StopIdle\<rparr>)"

inductive_cases run_stepE: "run_step (h, r) (h', r')"

subsection \<open>Without stop signals there is one runner\<close>

definition one_runner :: "'w binlog \<times> run_state \<Rightarrow> bool" where
  "one_runner s = (case s of (h, r) \<Rightarrow>
     runners r = (if has_flag (bl_status h) binlogIsRunning then 1 else 0))"

lemma save_status: "saveBinlogPositionCache r h = Ret h' \<Longrightarrow> bl_status h' = bl_status h"
  by (auto simp: saveBinlogPositionCache_def bl_WriteAt_def Let_def split: if_splits)

lemma OnPosSynced_status: "OnPosSynced p b h = Ret h' \<Longrightarrow> bl_status h' = bl_status h"
  by (auto simp: OnPosSynced_def Let_def dest: save_status)

lemma one_runner_step: "run_step s s' \<Longrightarrow> one_runner s \<Longrightarrow> one_runner s'"
proof (induction rule: run_step.induct)
  case (elected h h' r)
  then show ?case by (auto simp: one_runner_def OnLeader_def StartService_def split: if_splits)
next
  case (start_signal h n h' spawned r)
  then show ?case
    by (auto simp: one_runner_def lookStartService_def runners_def bl_flags split: if_splits)
next
  case (begins r n late h k pos)
  then show ?case by (auto simp: one_runner_def runners_def split: if_splits)
next
  case (error r xs k ys h)
  then show ?case by (auto simp: one_runner_def runners_def split: if_splits)
next
  case (flip r n h)
  then show ?case by (auto simp: one_runner_def runners_def run_failed_def bl_flags split: if_splits)
next
  case (synced p b h h' r)
  then show ?case by (auto simp: one_runner_def dest: OnPosSynced_status)
qed

lemma one_runner_reachable: "run_step\<^sup>*\<^sup>* s s' \<Longrightarrow> one_runner s \<Longrightarrow> one_runner s'"
  by (induction rule: rtranclp_induct) (auto intro: one_runner_step)

subsection \<open>Properties\<close>

text \<open>
  C15: As long as no stop signal is handled, the canal is never run twice: whatever start signals
  arrive and however often the canal fails, there is one goroutine for it exactly while the
  running flag is set, and none otherwise.
\<close>

theorem single_runner:
  assumes "run_step\<^sup>*\<^sup>* (h, no_runs) (h', r)" and "\<not> has_flag (bl_status h) binlogIsRunning"
  shows "runners r = (if has_flag (bl_status h') binlogIsRunning then 1 else 0)"
  using one_runner_reachable [OF assms(1)] assms(2)
  by (simp add: one_runner_def no_runs_def runners_def)

definition elected_binlog :: "unit binlog" where
  "elected_binlog = (binlog_init (Inr demo_config) ())\<lparr>bl_handler := Some 0, bl_canals := 1,
     bl_lastBinFile := ''f'', bl_startChan := 1\<rparr>"

theorem single_runner_witness:
  "\<exists>h' r. run_step\<^sup>*\<^sup>* (elected_binlog, no_runs) (h', r) \<and> runners r = 1 \<and>
     has_flag (bl_status h') binlogIsRunning"
proof -
  let ?h = "fst (lookStartService (elected_binlog\<lparr>bl_startChan := 0\<rparr>))"
  have off: "\<not> has_flag (bl_status elected_binlog) binlogIsRunning"
    by (simp add: elected_binlog_def binlog_init_def)
  then have look: "lookStartService (elected_binlog\<lparr>bl_startChan := 0\<rparr>) = (?h, True)"
    "has_flag (bl_status ?h) binlogIsRunning"
    by (simp_all add: lookStartService_def bl_flags)
  have "run_step (elected_binlog, no_runs) (?h, if True then no_runs\<lparr>rs_starting := Suc (rs_starting no_runs)\<rparr> else no_runs)"
    by (rule run_step.start_signal [OF _ look(1)]) (simp add: elected_binlog_def)
  from single_runner [OF r_into_rtranclp [where r = run_step, OF this] off] this look(2) show ?thesis
    by (metis r_into_rtranclp)
qed

text \<open>
  C29: A stop can leave the flag set with nothing running. When a leader that runs the canal is
  deposed, the canal's goroutine may flip the flag after the stop has already cleared it. The
  node then has the running flag set, no goroutine and no pending signal, and the next election is
  ignored: handling its start signal starts nothing, so the new leader reads no binlog.
\<close>

theorem stop_flip_race:
  assumes "has_flag (bl_status h) binlogIsRunning" and "bl_handler h = Some k"
    and "bl_startChan h = 0" and "bl_stopChan h = []" and "ce_configOk ce" and "ce_newOk ce"
    and "r = \<lparr>rs_starting = 0, rs_running = [k], rs_failed = 0, rs_pc = StopIdle\<rparr>"
  shows "\<exists>h1 h2. (life_step ce)\<^sup>*\<^sup>* (h, r) (h1, no_runs) \<and>
    has_flag (bl_status h1) binlogIsRunning \<and> bl_stopChan h1 = [] \<and> bl_startChan h1 = 0 \<and>
    OnLeader True h1 = Ret h2 \<and> lookStartService (h2\<lparr>bl_startChan := 0\<rparr>) = (h1, False)"
proof -
  let ?d = "h\<lparr>bl_stopChan := [False]\<rparr>"
  let ?n = "h\<lparr>bl_handler := Some (bl_canals h), bl_canals := Suc (bl_canals h)\<rparr>"
  let ?c = "?n\<lparr>bl_status := bl_status h XOR binlogIsRunning\<rparr>"
  let ?f = "run_failed ?c"
  have 1: "life_step ce (h, r) (?d, r)"
    by (rule life_step.deposed) (simp add: OnLeader_def StopService_def signalQueue_def assms)
  have "stop_reset ce None False (?d\<lparr>bl_stopChan := []\<rparr>) = Ret ?n"
    using assms by (simp add: stop_reset_def setHandler_def)
  then have 2: "life_step ce (?d, r) (?n, r\<lparr>rs_pc := StopTail\<rparr>)"
    by (intro life_step.stop_signal [where q = "[]" and exit = False]) (simp_all add: assms)
  have "stop_tail ?n = ?c" using assms(1) by (simp add: stop_tail_def)
  then have 3: "life_step ce (?n, r\<lparr>rs_pc := StopTail\<rparr>) (?c, r)"
    using life_step.stop_finish [of "r\<lparr>rs_pc := StopTail\<rparr>" ce ?n] by (simp add: assms(7))
  have 4: "life_step ce (?c, r) (?c, r\<lparr>rs_running := [], rs_failed := 1\<rparr>)"
    using life_step.runs [OF run_step.error [of r "[]" k "[]" ?c], of ce] by (simp add: assms(7))
  have 5: "life_step ce (?c, r\<lparr>rs_running := [], rs_failed := 1\<rparr>) (?f, no_runs)"
    using life_step.runs [OF run_step.flip [of "r\<lparr>rs_running := [], rs_failed := 1\<rparr>" 0 ?c], of ce]
    by (simp add: assms(7) no_runs_def)
  from 1 2 3 4 5 have run: "(life_step ce)\<^sup>*\<^sup>* (h, r) (?f, no_runs)"
    by (meson converse_rtranclp_into_rtranclp r_into_rtranclp)
  have on: "has_flag (bl_status ?f) binlogIsRunning" using assms(1) by (simp add: run_failed_def bl_flags)
  have "OnLeader True ?f = Ret (?f\<lparr>bl_startChan := 1\<rparr>)"
    using assms(3) by (simp add: OnLeader_def StartService_def signalQueue_def run_failed_def)
  moreover have "lookStartService (?f\<lparr>bl_startChan := 1, bl_startChan := 0\<rparr>) = (?f, False)"
    using on assms(3) by (simp add: lookStartService_def run_failed_def)
  ultimately show ?thesis using run on assms(3,4) by (auto simp: run_failed_def)
qed

theorem stop_flip_race_witness:
  "\<exists>h1 h2. (life_step \<lparr>ce_configOk = True, ce_newOk = True, ce_master = None\<rparr>)\<^sup>*\<^sup>*
      (elected_binlog\<lparr>bl_startChan := 0, bl_status := 1\<rparr>,
       \<lparr>rs_starting = 0, rs_running = [0], rs_failed = 0, rs_pc = StopIdle\<rparr>) (h1, no_runs) \<and>
    has_flag (bl_status h1) binlogIsRunning \<and> OnLeader True h1 = Ret h2 \<and>
    lookStartService (h2\<lparr>bl_startChan := 0\<rparr>) = (h1, False)"
proof -
  let ?h = "elected_binlog\<lparr>bl_startChan := 0, bl_status := 1\<rparr>"
  have "has_flag (bl_status ?h) binlogIsRunning" using bl_flags(1) [of 0] by (simp add: binlogIsRunning_def)
  from stop_flip_race [OF this, of 0 "\<lparr>ce_configOk = True, ce_newOk = True, ce_master = None\<rparr>"]
  show ?thesis by (auto simp: elected_binlog_def binlog_init_def)
qed

text \<open>
  When the canal's goroutine flips the flag before the stop clears it, the stop ends clean: the
  flag is clear, nothing runs, and the next election starts the canal again.
\<close>

theorem stop_in_order:
  assumes "has_flag (bl_status h) binlogIsRunning" and "bl_handler h = Some k"
    and "stop_reset ce synced False h = Ret h1"
  shows "let h2 = stop_tail (run_failed h1)
    in \<not> has_flag (bl_status h2) binlogIsRunning \<and> bl_handler h2 = Some (bl_canals h) \<and>
       snd (lookStartService h2)"
proof -
  have "has_flag (bl_status h1) binlogIsRunning \<and> bl_handler h1 = Some (bl_canals h)"
    using assms by (auto simp: stop_reset_def setHandler_def OnPosSynced_def saveBinlogPositionCache_def
        bl_WriteAt_def Let_def split: option.splits if_splits)
  then show ?thesis
    by (simp add: Let_def stop_tail_def run_failed_def lookStartService_def bl_flags)
qed

theorem stop_in_order_witness:
  "\<exists>h1. stop_reset \<lparr>ce_configOk = True, ce_newOk = True, ce_master = None\<rparr> None False
      (elected_binlog\<lparr>bl_status := 1\<rparr>) = Ret h1 \<and>
    \<not> has_flag (bl_status (stop_tail (run_failed h1))) binlogIsRunning"
proof -
  let ?h = "elected_binlog\<lparr>bl_status := 1\<rparr>" and ?ce = "\<lparr>ce_configOk = True, ce_newOk = True, ce_master = None\<rparr>"
  have on: "has_flag (bl_status ?h) binlogIsRunning" using bl_flags(1) [of 0] by (simp add: binlogIsRunning_def)
  have "\<exists>h1. stop_reset ?ce None False ?h = Ret h1"
    using on by (simp add: stop_reset_def setHandler_def elected_binlog_def)
  then obtain h1 where h1: "stop_reset ?ce None False ?h = Ret h1" by blast
  from stop_in_order [OF on _ h1, of 0] h1 show ?thesis
    by (auto simp: elected_binlog_def binlog_init_def Let_def)
qed

end
