(* ===== verification/Event_Sink.thy ===== *)
theory Event_Sink
  imports Service
begin

text \<open>
  The contract of \<^verbatim>\<open>src/library/service/service.go\<close> that the binlog handler relies on: \<open>SendAll\<close> of a
  service that has room takes the event if its filter passes the table and leaves the filter alone.
  The locale derives what a sequence of events does; each service interprets it on its own
  \<open>SendAll\<close>.
\<close>

locale event_sink =
  fixes sendAll :: "string \<Rightarrow> bytes \<Rightarrow> 's \<Rightarrow> ('s \<times> bool) go"
    and room :: "'s \<Rightarrow> nat \<Rightarrow> bool"
    and passes :: "'s \<Rightarrow> string \<Rightarrow> bool"
    and out :: "'s \<Rightarrow> 'm list"
    and msg :: "'s \<Rightarrow> string \<Rightarrow> bytes \<Rightarrow> 'm"
  assumes sends: "room s (Suc n) \<Longrightarrow>
      \<exists>s' b. sendAll t d s = Ret (s', b) \<and> room s' n \<and> passes s' = passes s \<and> msg s' = msg s \<and>
        out s' = out s @ (if passes s t then [msg s t d] else [])"
begin

lemma sends_run:
  "room s (length es + m) \<Longrightarrow>
     \<exists>s'. go_foldM (\<lambda>s (t, d). go_bind (sendAll t d s) (\<lambda>(s', _). Ret s')) s es = Ret s' \<and>
       room s' m \<and> passes s' = passes s \<and>
       out s' = out s @ map (\<lambda>(t, d). msg s t d) (filter (\<lambda>(t, _). passes s t) es)"
proof (induction es arbitrary: s)
  case Nil
  then show ?case by simp
next
  case (Cons e es)
  obtain t d where e: "e = (t, d)" by fastforce
  obtain s1 b where s1: "sendAll t d s = Ret (s1, b)" "room s1 (length es + m)" "passes s1 = passes s"
    "msg s1 = msg s" "out s1 = out s @ (if passes s t then [msg s t d] else [])"
    using sends [of s "length es + m" t d] Cons.prems by auto
  from Cons.IH [OF s1(2)] s1 show ?case by (auto simp: e)
qed

lemma sends_all:
  "room s (length es) \<Longrightarrow>
     \<exists>s'. go_foldM (\<lambda>s (t, d). go_bind (sendAll t d s) (\<lambda>(s', _). Ret s')) s es = Ret s' \<and>
       out s' = out s @ map (\<lambda>(t, d). msg s t d) (filter (\<lambda>(t, _). passes s t) es)"
  using sends_run [of s es 0] by auto

end

end
