(* ===== verification/Http_Service.thy ===== *)
theory Http_Service
  imports Event_Sink App
begin

text \<open>
  \<^verbatim>\<open>src/services/http\<close> and \<^verbatim>\<open>src/library/http/http.go\<close>: posts the events that pass a group's filter to every
  url of the group. A node queues the events in a bounded channel; worker goroutines, started by
  \<open>Start\<close>, post them. \<open>hn_posts\<close> are the posts a node's workers made, \<open>hn_workers\<close> how many of them run.
  \<open>ord\<close> is the order in which Go ranges over the map of groups.
\<close>

subsection \<open>Requests\<close>

text \<open>
  \<open>do\<close> is \<open>http.NewRequest\<close> followed by \<open>http.Client.Do\<close>: an error, or the status and the outcome of
  reading the body.
\<close>

datatype http_error = RequestError string | StatusError int

definition http_request ::
    "(string \<Rightarrow> string \<Rightarrow> bytes \<Rightarrow> string + int \<times> (string + bytes)) \<Rightarrow> string \<Rightarrow> string \<Rightarrow> bytes \<Rightarrow> http_error + bytes" where
  "http_request do m url data =
     (case do m url data of
        Inl err \<Rightarrow> Inl (RequestError err)
      | Inr (status, body) \<Rightarrow>
          if status \<noteq> 200 then Inl (StatusError status)
          else case body of Inl err \<Rightarrow> Inl (RequestError err) | Inr res \<Rightarrow> Inr res)"

record http_client =
  hc_url :: string

definition NewHttp :: "string \<Rightarrow> http_client" where
  "NewHttp url = \<lparr>hc_url = url\<rparr>"

definition http_Put where "http_Put do req data = http_request do ''PUT'' (hc_url req) data"
definition http_Post where "http_Post do req data = http_request do ''POST'' (hc_url req) data"
definition http_Get where "http_Get do req = http_request do ''GET'' (hc_url req) []"
definition http_Delete where "http_Delete do req = http_request do ''DELETE'' (hc_url req) []"

text \<open>The functions \<open>Post\<close> and \<open>Get\<close> of the package.\<close>

definition lib_Post where "lib_Post do addr postData = http_Post do (NewHttp addr) postData"
definition lib_Get where "lib_Get do addr = http_Get do (NewHttp addr)"

text \<open>Any status but 200 is an error, also one that the server means as a success.\<close>

lemma http_status: "do m url data = Inr (status, Inr res) \<Longrightarrow>
    http_request do m url data = (if status = 200 then Inr res else Inl (StatusError status))"
  by (simp add: http_request_def)

subsection \<open>State\<close>

definition httpMaxSendQueue :: nat where "httpMaxSendQueue = 10000"
definition httpEnable :: int where "httpEnable = 1"

interpretation ht_enable: status_flag httpEnable 0
  by unfold_locales (simp add: httpEnable_def)

record http_node =
  hn_url :: string
  hn_sendQueue :: "bytes list"
  hn_workers :: nat
  hn_posts :: "bytes list"

record http_group =
  hg_name :: string
  hg_filter :: "string list"
  hg_nodes :: "http_node list"

record http_service =
  hs_groups :: "(string \<Rightarrow> http_group option) option"   \<comment> \<open>\<open>None\<close> for the nil map\<close>
  hs_lock :: bool
  hs_timeTick :: int
  hs_status :: int

record http_node_config =
  hc_Name :: string
  hc_Nodes :: "string list"
  hc_Filter :: "string list"

record http_config =
  hc_Enable :: bool
  hc_TimeTick :: int
  hc_Groups :: "(string \<times> http_node_config) list"   \<comment> \<open>the map, in the order it is ranged over\<close>

definition getHttpConfig ::
    "(string \<Rightarrow> http_config option) \<Rightarrow> app_env \<Rightarrow> file_system \<Rightarrow> app_error + http_config" where
  "getHttpConfig dec env fs =
     map_sum id (\<lambda>c. if hc_TimeTick c \<le> 0 then c\<lparr>hc_TimeTick := 1\<rparr> else c)
       (decode_file fs dec (config_file (ev_ConfigPath env) ''http.toml''))"

subsection \<open>Nodes\<close>

definition newHttpNode :: "string \<Rightarrow> http_node" where
  "newHttpNode url = \<lparr>hn_url = url, hn_sendQueue = [], hn_workers = 0, hn_posts = []\<rparr>"

text \<open>The loop at the start of \<open>asyncSend\<close> spins while the channel is full.\<close>

definition node_asyncSend :: "bytes \<Rightarrow> http_node \<Rightarrow> http_node go" where
  "node_asyncSend data n =
     (if length (hn_sendQueue n) < httpMaxSendQueue
      then Ret (n\<lparr>hn_sendQueue := hn_sendQueue n @ [data]\<rparr>) else Block)"

definition nodes_sendService :: "nat \<Rightarrow> http_node list \<Rightarrow> http_node list" where
  "nodes_sendService cpu nodes = map (\<lambda>n. n\<lparr>hn_workers := hn_workers n + (cpu + 2)\<rparr>) nodes"

text \<open>
  One turn of a worker that has begun: \<open>select\<close> takes a message and posts it, or sees the context
  cancelled (\<open>done\<close>) and ends if the queue is empty. With both ready it picks either: \<open>pick\<close> is its
  choice of the cancellation.
\<close>

definition clientSendService :: "bool \<Rightarrow> bool \<Rightarrow> http_node \<Rightarrow> http_node go" where
  "clientSendService done pick n =
     (if hn_workers n = 0 then Block
      else case hn_sendQueue n of
        msg # q \<Rightarrow>
          if done \<and> pick then Ret n
          else Ret (n\<lparr>hn_sendQueue := q, hn_posts := hn_posts n @ [msg]\<rparr>)
      | [] \<Rightarrow> if done then Ret (n\<lparr>hn_workers := hn_workers n - 1\<rparr>) else Block)"

text \<open>
  What a worker does with a message: it posts it and logs the outcome; the answer of the post has no
  other effect.
\<close>

definition node_send ::
    "(string \<Rightarrow> string \<Rightarrow> bytes \<Rightarrow> string + int \<times> (string + bytes)) \<Rightarrow> bytes \<Rightarrow> http_node \<Rightarrow> http_error + bytes" where
  "node_send do data n = lib_Post do (hn_url n) data"

text \<open>The posts of a node that its server took.\<close>

definition delivered ::
    "(string \<Rightarrow> string \<Rightarrow> bytes \<Rightarrow> string + int \<times> (string + bytes)) \<Rightarrow> http_node \<Rightarrow> bytes list" where
  "delivered do n = filter (\<lambda>m. \<not> isl (node_send do m n)) (hn_posts n)"

lemma clientSendService_drops:
  "clientSendService done pick n = Ret n' \<Longrightarrow>
     hn_posts n' @ hn_sendQueue n' = hn_posts n @ hn_sendQueue n \<and> hn_url n' = hn_url n"
  by (auto simp: clientSendService_def split: if_splits list.splits)

definition node_wait :: "http_node \<Rightarrow> unit go" where
  "node_wait n = (if hn_workers n = 0 then Ret () else Block)"

subsection \<open>Groups\<close>

definition newHttpGroup :: "http_node_config \<Rightarrow> http_group" where
  "newHttpGroup gc = \<lparr>hg_name = hc_Name gc, hg_filter = hc_Filter gc, hg_nodes = map newHttpNode (hc_Nodes gc)\<rparr>"

definition group_match :: "regexp \<Rightarrow> string \<Rightarrow> http_group \<Rightarrow> bool" where
  "group_match rx table g =
     (if length (hg_nodes g) \<le> 0 \<or> \<not> MatchFilters rx (hg_filter g) table then False else True)"

fun nodes_asyncSend :: "bytes \<Rightarrow> http_node list \<Rightarrow> http_node list go" where
  "nodes_asyncSend data [] = Ret []"
| "nodes_asyncSend data (n # ns) =
     go_bind (node_asyncSend data n) (\<lambda>n'. go_bind (nodes_asyncSend data ns) (\<lambda>ns'. Ret (n' # ns')))"

definition group_asyncSend :: "bytes \<Rightarrow> http_group \<Rightarrow> http_group go" where
  "group_asyncSend data g = go_bind (nodes_asyncSend data (hg_nodes g)) (\<lambda>ns. Ret (g\<lparr>hg_nodes := ns\<rparr>))"

definition group_wait :: "http_group \<Rightarrow> unit go" where
  "group_wait g = go_foldM (\<lambda>_ n. node_wait n) () (hg_nodes g)"

definition group_sendService :: "nat \<Rightarrow> http_group \<Rightarrow> http_group" where
  "group_sendService cpu g = g\<lparr>hg_nodes := nodes_sendService cpu (hg_nodes g)\<rparr>"

type_synonym http_groups = "string \<Rightarrow> http_group option"

definition groups_wait :: "string list \<Rightarrow> http_groups \<Rightarrow> unit go" where
  "groups_wait ord gs =
     go_foldM (\<lambda>_ k. case gs k of None \<Rightarrow> Ret () | Some g \<Rightarrow> group_wait g) () ord"

definition groups_sendService :: "nat \<Rightarrow> http_groups \<Rightarrow> http_groups" where
  "groups_sendService cpu gs = (\<lambda>k. map_option (group_sendService cpu) (gs k))"

definition http_groups_asyncSend ::
    "regexp \<Rightarrow> string list \<Rightarrow> string \<Rightarrow> bytes \<Rightarrow> http_groups \<Rightarrow> http_groups go" where
  "http_groups_asyncSend rx ord table data gs =
     go_foldM (\<lambda>gs k. case gs k of
         None \<Rightarrow> Ret gs
       | Some g \<Rightarrow>
           if group_match rx table g
           then go_bind (group_asyncSend data g) (\<lambda>g'. Ret (gs(k \<mapsto> g'))) else Ret gs) gs ord"

definition groups_add :: "http_group \<Rightarrow> http_groups \<Rightarrow> http_groups" where
  "groups_add g gs = gs(hg_name g \<mapsto> g)"

definition groups_delete :: "http_group \<Rightarrow> http_groups \<Rightarrow> http_groups" where
  "groups_delete g gs = gs(hg_name g := None)"

subsection \<open>The service\<close>

definition NewHttpService :: "app_error + http_config \<Rightarrow> http_service go" where
  "NewHttpService cfg =
     (case cfg of
        Inl err \<Rightarrow> Panic (LogPanic ''get http config'')
      | Inr config \<Rightarrow>
          if \<not> hc_Enable config
          then Ret \<lparr>hs_groups = None, hs_lock = False, hs_timeTick = 0, hs_status = 0\<rparr>
          else Ret \<lparr>hs_groups = Some (foldl (\<lambda>gs (_, gc). groups_add (newHttpGroup gc) gs) (\<lambda>_. None) (hc_Groups config)),
                    hs_lock = True, hs_timeTick = hc_TimeTick config, hs_status = httpEnable\<rparr>)"

definition http_Start :: "nat \<Rightarrow> http_service \<Rightarrow> http_service" where
  "http_Start cpu s =
     (if \<not> has_flag (hs_status s) httpEnable then s
      else s\<lparr>hs_groups := map_option (groups_sendService cpu) (hs_groups s)\<rparr>)"

definition http_SendAll ::
    "regexp \<Rightarrow> string list \<Rightarrow> string \<Rightarrow> bytes \<Rightarrow> http_service \<Rightarrow> (http_service \<times> bool) go" where
  "http_SendAll rx ord table data s =
     (if \<not> has_flag (hs_status s) httpEnable then Ret (s, False)
      else case hs_groups s of
        None \<Rightarrow> Ret (s, True)
      | Some gs \<Rightarrow> go_bind (http_groups_asyncSend rx ord table data gs) (\<lambda>gs'.
          Ret (s\<lparr>hs_groups := Some gs'\<rparr>, True)))"

definition http_Close :: "string list \<Rightarrow> http_service \<Rightarrow> http_service go" where
  "http_Close ord s =
     (case hs_groups s of
        None \<Rightarrow> Ret s
      | Some gs \<Rightarrow> go_bind (groups_wait ord gs) (\<lambda>_. Ret s))"

text \<open>
  \<open>Reload\<close>: the groups are deleted by name while the map is ranged over; adding a group takes the lock,
  then writes the map, and either may be nil.
\<close>

definition reload_add :: "http_service \<Rightarrow> http_group \<Rightarrow> http_service go" where
  "reload_add s g =
     (if \<not> hs_lock s then Panic NilDereference
      else case hs_groups s of
        None \<Rightarrow> Panic NilMapWrite
      | Some gs \<Rightarrow> Ret (s\<lparr>hs_groups := Some (groups_add g gs)\<rparr>))"

definition http_Reload :: "app_error + http_config \<Rightarrow> string list \<Rightarrow> http_service \<Rightarrow> http_service go" where
  "http_Reload cfg ord s =
     (case cfg of
        Inl err \<Rightarrow> Ret s
      | Inr config \<Rightarrow>
          let s = s\<lparr>hs_status := 0\<rparr>;
              s = (if hc_Enable config then s\<lparr>hs_status := httpEnable\<rparr> else s);
              s = s\<lparr>hs_groups := map_option (\<lambda>gs. foldl (\<lambda>gs k. case gs k of None \<Rightarrow> gs | Some g \<Rightarrow> groups_delete g gs) gs ord)
                      (hs_groups s)\<rparr>
          in go_foldM (\<lambda>s (_, gc). reload_add s (newHttpGroup gc)) s (hc_Groups config))"

definition http_Name :: string where "http_Name = ''http''"

subsection \<open>What an event does to the queues\<close>

definition node_enq :: "bytes \<Rightarrow> http_node \<Rightarrow> http_node" where
  "node_enq d n = n\<lparr>hn_sendQueue := hn_sendQueue n @ [d]\<rparr>"

definition group_enq :: "bytes \<Rightarrow> http_group \<Rightarrow> http_group" where
  "group_enq d g = g\<lparr>hg_nodes := map (node_enq d) (hg_nodes g)\<rparr>"

definition group_room :: "nat \<Rightarrow> http_group \<Rightarrow> bool" where
  "group_room m g \<longleftrightarrow> (\<forall>n \<in> set (hg_nodes g). length (hn_sendQueue n) + m \<le> httpMaxSendQueue)"

lemma group_asyncSend_room: "group_room (Suc m) g \<Longrightarrow> group_asyncSend d g = Ret (group_enq d g)"
proof -
  have "\<forall>n \<in> set ns. length (hn_sendQueue n) + Suc m \<le> httpMaxSendQueue \<Longrightarrow>
      nodes_asyncSend d ns = Ret (map (node_enq d) ns)" for ns
    by (induction ns) (auto simp: node_asyncSend_def node_enq_def)
  then show "group_room (Suc m) g \<Longrightarrow> group_asyncSend d g = Ret (group_enq d g)"
    by (simp add: group_room_def group_asyncSend_def group_enq_def)
qed

lemma group_room_enq: "group_room (Suc m) g \<Longrightarrow> group_room m (group_enq d g)"
  by (auto simp: group_room_def group_enq_def node_enq_def)

lemma group_room_less: "group_room (Suc m) g \<Longrightarrow> group_room m g"
  by (auto simp: group_room_def)

lemma group_enq_simps [simp]:
  "hg_filter (group_enq d g) = hg_filter g" "length (hg_nodes (group_enq d g)) = length (hg_nodes g)"
  "group_match rx t (group_enq d g) = group_match rx t g"
  by (simp_all add: group_enq_def group_match_def)

lemma node_enq_queue [simp]: "hn_sendQueue (node_enq d n) = hn_sendQueue n @ [d]"
  by (simp add: node_enq_def)

lemma groups_asyncSend_eq:
  assumes "distinct ord" and "\<And>k g. k \<in> set ord \<Longrightarrow> gs k = Some g \<Longrightarrow> group_room (Suc m) g"
  shows "http_groups_asyncSend rx ord t d gs =
    Ret (\<lambda>k. map_option (\<lambda>g. if k \<in> set ord \<and> group_match rx t g then group_enq d g else g) (gs k))"
  using assms
proof (induction ord arbitrary: gs)
  case Nil
  then show ?case by (simp add: http_groups_asyncSend_def option.map_ident)
next
  case (Cons k ord)
  define gs1 where "gs1 = gs(k := map_option (\<lambda>g. if group_match rx t g then group_enq d g else g) (gs k))"
  have step: "http_groups_asyncSend rx (k # ord) t d gs = http_groups_asyncSend rx ord t d gs1"
  proof (cases "gs k")
    case None
    then have "gs1 = gs" by (auto simp: gs1_def fun_eq_iff)
    with None show ?thesis by (simp add: http_groups_asyncSend_def)
  next
    case (Some g)
    with Cons.prems(2) have "group_asyncSend d g = Ret (group_enq d g)" by (auto intro: group_asyncSend_room)
    moreover have "gs(k \<mapsto> g) = gs" using Some by auto
    ultimately show ?thesis using Some by (simp add: http_groups_asyncSend_def gs1_def)
  qed
  have "http_groups_asyncSend rx ord t d gs1 =
      Ret (\<lambda>j. map_option (\<lambda>g. if j \<in> set ord \<and> group_match rx t g then group_enq d g else g) (gs1 j))"
    using Cons.prems by (intro Cons.IH) (auto simp: gs1_def split: if_splits)
  moreover have "map_option (\<lambda>g. if j \<in> set ord \<and> group_match rx t g then group_enq d g else g) (gs1 j) =
      map_option (\<lambda>g. if j \<in> set (k # ord) \<and> group_match rx t g then group_enq d g else g) (gs j)" for j
    using Cons.prems(1) by (cases "gs j") (auto simp: gs1_def)
  ultimately show ?case by (simp add: step)
qed

text \<open>The queue of the \<open>i\<close>-th node of the group called \<open>k\<close> is what the events sent to the service fill.\<close>

definition http_room :: "string list \<Rightarrow> string \<Rightarrow> nat \<Rightarrow> http_service \<Rightarrow> nat \<Rightarrow> bool" where
  "http_room ord k i s m \<longleftrightarrow> has_flag (hs_status s) httpEnable \<and> distinct ord \<and> k \<in> set ord \<and>
     (\<exists>gs g. hs_groups s = Some gs \<and> gs k = Some g \<and> i < length (hg_nodes g) \<and>
        (\<forall>j h. gs j = Some h \<longrightarrow> group_room m h))"

definition http_group_of :: "string \<Rightarrow> http_service \<Rightarrow> http_group" where
  "http_group_of k s = the (the (hs_groups s) k)"

definition http_passes :: "regexp \<Rightarrow> string \<Rightarrow> http_service \<Rightarrow> string \<Rightarrow> bool" where
  "http_passes rx k s t = MatchFilters rx (hg_filter (http_group_of k s)) t"

definition http_queue :: "string \<Rightarrow> nat \<Rightarrow> http_service \<Rightarrow> bytes list" where
  "http_queue k i s = hn_sendQueue (hg_nodes (http_group_of k s) ! i)"

interpretation http_sink: event_sink "http_SendAll rx ord" "http_room ord k i" "http_passes rx k" "http_queue k i" "\<lambda>_ _ d. d"
proof
  fix s m t d
  assume "http_room ord k i s (Suc m)"
  then obtain gs g where s: "has_flag (hs_status s) httpEnable" "distinct ord" "k \<in> set ord" "hs_groups s = Some gs"
    "gs k = Some g" "i < length (hg_nodes g)" "\<And>j h. gs j = Some h \<Longrightarrow> group_room (Suc m) h"
    by (auto simp: http_room_def)
  let ?f = "\<lambda>j g. if j \<in> set ord \<and> group_match rx t g then group_enq d g else g"
  define s' where "s' = s\<lparr>hs_groups := Some (\<lambda>j. map_option (?f j) (gs j))\<rparr>"
  have sent: "http_SendAll rx ord t d s = Ret (s', True)"
    using groups_asyncSend_eq [of ord gs m rx t d] s by (simp add: http_SendAll_def s'_def)
  have room: "http_room ord k i s' m"
    using s by (auto simp: http_room_def s'_def group_room_enq group_room_less)
  have grp: "http_group_of k s = g" "http_group_of k s' = ?f k g"
    using s by (auto simp: http_group_of_def s'_def)
  have match: "group_match rx t g = http_passes rx k s t"
    using s by (auto simp: group_match_def http_passes_def grp)
  have queue: "http_queue k i s' = http_queue k i s @ (if http_passes rx k s t then [d] else [])"
    using s by (auto simp: http_queue_def grp match group_enq_def)
  have "http_passes rx k s' = http_passes rx k s"
    by (auto simp: http_passes_def grp fun_eq_iff)
  with sent room queue
  show "\<exists>s' b. http_SendAll rx ord t d s = Ret (s', b) \<and> http_room ord k i s' m \<and>
      http_passes rx k s' = http_passes rx k s \<and> (\<lambda>(_::string) (d::bytes). d) = (\<lambda>_ d. d) \<and>
      http_queue k i s' = http_queue k i s @ (if http_passes rx k s t then [d] else [])"
    by blast
qed


lemma full_node_blocks:
  "n \<in> set ns \<Longrightarrow> httpMaxSendQueue \<le> length (hn_sendQueue n) \<Longrightarrow> nodes_asyncSend d ns = Block"
proof (induction ns)
  case (Cons a ns)
  then show ?case by (cases "n = a") (auto simp: node_asyncSend_def)
qed simp

lemma nodes_asyncSend_no_panic: "nodes_asyncSend d ns \<noteq> Panic p"
  by (induction ns) (auto simp: node_asyncSend_def split: go_split)

lemma full_groups_block:
  assumes "k \<in> set ord" "gs k = Some g" "n \<in> set (hg_nodes g)" "httpMaxSendQueue \<le> length (hn_sendQueue n)"
    "group_match rx t g"
  shows "http_groups_asyncSend rx ord t d gs = Block"
  using assms(1,2)
proof (induction ord arbitrary: gs)
  case (Cons j ord)
  have blk: "group_asyncSend d g = Block"
    using full_node_blocks [OF assms(3,4)] by (simp add: group_asyncSend_def)
  show ?case
  proof (cases "j = k")
    case True
    with Cons.prems blk assms(5) show ?thesis by (simp add: http_groups_asyncSend_def)
  next
    case False
    with Cons.prems have k: "k \<in> set ord" "(gs(j := x)) k = Some g" for x by auto
    from nodes_asyncSend_no_panic consider ns where "nodes_asyncSend d (hg_nodes (the (gs j))) = Ret ns"
      | "nodes_asyncSend d (hg_nodes (the (gs j))) = Block" by (metis go.exhaust)
    then show ?thesis
      using Cons.IH [OF k(1)] Cons.prems(2) k(2) False
      by cases (auto simp: http_groups_asyncSend_def group_asyncSend_def split: option.splits)
  qed
qed simp

subsection \<open>Reload\<close>

lemma foldl_delete:
  "\<forall>k g. gs k = Some g \<longrightarrow> hg_name g = k \<Longrightarrow>
   foldl (\<lambda>gs k. case gs k of None \<Rightarrow> gs | Some g \<Rightarrow> groups_delete g gs) gs ord = (\<lambda>k. if k \<in> set ord then None else gs k)"
proof (induction ord arbitrary: gs)
  case (Cons j ord)
  show ?case
  proof (cases "gs j")
    case None
    with Cons.IH [OF Cons.prems] show ?thesis by (auto simp: fun_eq_iff)
  next
    case (Some g)
    with Cons.prems have "groups_delete g gs = gs(j := None)" by (auto simp: groups_delete_def)
    moreover have "\<forall>k g. (gs(j := None)) k = Some g \<longrightarrow> hg_name g = k" using Cons.prems by auto
    ultimately show ?thesis using Some Cons.IH [of "gs(j := None)"] by (simp only: foldl.simps option.case) auto
  qed
qed simp

definition config_groups :: "(string \<times> http_node_config) list \<Rightarrow> http_groups" where
  "config_groups cs = foldl (\<lambda>gs (_, gc). groups_add (newHttpGroup gc) gs) (\<lambda>_. None) cs"

lemma reload_add_all:
  "hs_lock s \<Longrightarrow> hs_groups s = Some gs \<Longrightarrow>
   go_foldM (\<lambda>s (_, gc). reload_add s (newHttpGroup gc)) s cs =
     Ret (s\<lparr>hs_groups := Some (foldl (\<lambda>gs (_, gc). groups_add (newHttpGroup gc) gs) gs cs)\<rparr>)"
proof (induction cs arbitrary: s gs)
  case Nil
  then show ?case by (cases s) simp
next
  case (Cons c cs)
  obtain a gc where c: "c = (a, gc)" by fastforce
  from Cons.prems have "reload_add s (newHttpGroup gc) = Ret (s\<lparr>hs_groups := Some (groups_add (newHttpGroup gc) gs)\<rparr>)"
    by (simp add: reload_add_def)
  with Cons.IH [of "s\<lparr>hs_groups := Some (groups_add (newHttpGroup gc) gs)\<rparr>"] Cons.prems(1) c show ?case by simp
qed

text \<open>\<open>ord\<close> ranges over the whole map, whose entries are stored under their names.\<close>

definition http_ranged :: "string list \<Rightarrow> http_service \<Rightarrow> bool" where
  "http_ranged ord s \<longleftrightarrow> hs_lock s \<and> (\<exists>gs. hs_groups s = Some gs \<and>
     (\<forall>k g. gs k = Some g \<longrightarrow> hg_name g = k \<and> k \<in> set ord))"

lemma reload_groups:
  assumes "http_ranged ord s" and "http_Reload (Inr config) ord s = Ret s'"
  shows "hs_groups s' = Some (config_groups (hc_Groups config))"
    and "hc_Enable config \<Longrightarrow> hs_status s' = httpEnable"
proof -
  from assms(1) obtain gs where gs: "hs_lock s" "hs_groups s = Some gs" "\<forall>k g. gs k = Some g \<longrightarrow> hg_name g = k"
    "\<And>k g. gs k = Some g \<Longrightarrow> k \<in> set ord" by (auto simp: http_ranged_def)
  from gs(4) have none: "(\<lambda>k. if k \<in> set ord then None else gs k) = (\<lambda>_. None)"
    by (auto simp: fun_eq_iff) (metis not_Some_eq)
  show "hs_groups s' = Some (config_groups (hc_Groups config))" "hc_Enable config \<Longrightarrow> hs_status s' = httpEnable"
    using assms(2) gs(1,2) foldl_delete [OF gs(3), of ord] none
    by (cases "hc_Enable config"; auto simp: http_Reload_def Let_def reload_add_all config_groups_def)+
qed

definition fresh_group :: "http_group \<Rightarrow> bool" where
  "fresh_group g \<longleftrightarrow> (\<forall>n \<in> set (hg_nodes g). hn_workers n = 0 \<and> hn_sendQueue n = [])"

lemma config_groups_fresh: "config_groups cs k = Some g \<Longrightarrow> fresh_group g"
proof -
  have "\<forall>k g. gs k = Some g \<longrightarrow> fresh_group g \<Longrightarrow>
      foldl (\<lambda>gs (_, gc). groups_add (newHttpGroup gc) gs) gs cs k = Some g \<Longrightarrow> fresh_group g" for gs
  proof (induction cs arbitrary: gs)
    case (Cons c cs)
    have "\<forall>k g. groups_add (newHttpGroup (snd c)) gs k = Some g \<longrightarrow> fresh_group g"
      using Cons.prems(1) by (auto simp: groups_add_def newHttpGroup_def fresh_group_def newHttpNode_def)
    with Cons.IH [of "groups_add (newHttpGroup (snd c)) gs"] Cons.prems(2) show ?case
      by (simp add: case_prod_beta)
  qed simp
  from this [of "\<lambda>_. None"] show "config_groups cs k = Some g \<Longrightarrow> fresh_group g" by (simp add: config_groups_def)
qed


lemma fresh_room: "fresh_group g \<Longrightarrow> group_room httpMaxSendQueue g"
  by (simp add: fresh_group_def group_room_def)

subsection \<open>The life of a node\<close>

text \<open>
  The steps of a node after the context was cancelled: a turn of one of its workers, with either
  choice of its \<open>select\<close>.
\<close>

inductive http_drain :: "http_node \<Rightarrow> http_node \<Rightarrow> bool" where
  drain_done: "http_drain n n"
| drain_turn: "http_drain n n' \<Longrightarrow> clientSendService True pick n' = Ret n'' \<Longrightarrow> http_drain n n''"

lemma drain_turn_inv:
  assumes "clientSendService done pick n = Ret n'"
  shows "hn_posts n' @ hn_sendQueue n' = hn_posts n @ hn_sendQueue n"
    and "hn_workers n' < hn_workers n \<Longrightarrow> hn_sendQueue n' = []"
  using assms by (auto simp: clientSendService_def split: if_splits list.splits)

lemma http_drain_inv:
  "http_drain n n' \<Longrightarrow> hn_posts n' @ hn_sendQueue n' = hn_posts n @ hn_sendQueue n \<and>
     (hn_workers n' < hn_workers n \<longrightarrow> hn_sendQueue n' = []) \<and> hn_workers n' \<le> hn_workers n"
proof (induction rule: http_drain.induct)
  case (drain_turn n n' pick n'')
  from drain_turn_inv [OF drain_turn.hyps(2)] drain_turn.IH
  have "hn_posts n'' @ hn_sendQueue n'' = hn_posts n @ hn_sendQueue n" by simp
  moreover from drain_turn.hyps(2) have "hn_workers n'' \<le> hn_workers n'" "hn_sendQueue n' = [] \<Longrightarrow> hn_sendQueue n'' = []"
    by (auto simp: clientSendService_def split: if_splits list.splits)
  ultimately show ?case
    using drain_turn.IH drain_turn_inv(2) [OF drain_turn.hyps(2)]
    by (metis le_trans order_le_less)
qed simp

text \<open>With the queue posted first, the workers can always finish.\<close>

lemma drain_trans: "http_drain b c \<Longrightarrow> http_drain a b \<Longrightarrow> http_drain a c"
  by (induction rule: http_drain.induct) (auto intro: http_drain.intros)

lemma drain_queue:
  "hn_workers n \<noteq> 0 \<Longrightarrow>
     http_drain n (n\<lparr>hn_sendQueue := [], hn_posts := hn_posts n @ hn_sendQueue n\<rparr>)"
proof (induction "hn_sendQueue n" arbitrary: n)
  case Nil
  then have "n\<lparr>hn_sendQueue := [], hn_posts := hn_posts n @ hn_sendQueue n\<rparr> = n" by (cases n) simp
  then show ?case by (metis drain_done)
next
  case (Cons m q)
  let ?n = "n\<lparr>hn_sendQueue := q, hn_posts := hn_posts n @ [m]\<rparr>"
  from Cons.hyps(2) Cons.prems have "http_drain n ?n"
    by (intro drain_turn [OF drain_done, where pick = False])
      (simp add: clientSendService_def Cons.hyps(2) [symmetric])
  moreover from Cons.hyps(1) [of ?n] Cons.prems Cons.hyps(2) [symmetric]
  have "http_drain ?n (n\<lparr>hn_sendQueue := [], hn_posts := hn_posts n @ hn_sendQueue n\<rparr>)" by simp
  ultimately show ?case by (rule drain_trans [rotated])
qed

lemma drain_workers: "hn_sendQueue n = [] \<Longrightarrow> http_drain n (n\<lparr>hn_workers := 0\<rparr>)"
proof (induction "hn_workers n" arbitrary: n)
  case 0
  then have "n\<lparr>hn_workers := 0\<rparr> = n" by (cases n) simp
  then show ?case by (metis drain_done)
next
  case (Suc w)
  let ?n = "n\<lparr>hn_workers := w\<rparr>"
  from Suc have "http_drain n ?n"
    by (intro drain_turn [OF drain_done, where pick = True])
      (simp add: clientSendService_def Suc.hyps(2) [symmetric])
  moreover from Suc.hyps(1) [of ?n] Suc.prems have "http_drain ?n (n\<lparr>hn_workers := 0\<rparr>)" by simp
  ultimately show ?case by (rule drain_trans [rotated])
qed

lemma http_full_blocks:
  assumes "http_room ord k i s m" "http_passes rx k s t" "httpMaxSendQueue \<le> length (http_queue k i s)"
  shows "http_SendAll rx ord t d s = Block"
proof -
  from assms(1) obtain gs g where gs: "has_flag (hs_status s) httpEnable" "k \<in> set ord" "hs_groups s = Some gs"
    "gs k = Some g" "i < length (hg_nodes g)" by (auto simp: http_room_def)
  then have g: "http_group_of k s = g" by (simp add: http_group_of_def)
  with gs assms(2) have "group_match rx t g" by (auto simp: group_match_def http_passes_def)
  moreover have "hg_nodes g ! i \<in> set (hg_nodes g)" using gs(5) by simp
  ultimately have "http_groups_asyncSend rx ord t d gs = Block"
    using full_groups_block [of k ord gs g "hg_nodes g ! i"] gs assms(3) by (simp add: http_queue_def g)
  with gs(1,3) show ?thesis by (simp add: http_SendAll_def)
qed

subsection \<open>Properties\<close>

definition demo_http_config :: http_config where
  "demo_http_config = \<lparr>hc_Enable = True, hc_TimeTick = 1, hc_Groups =
     [(''g'', \<lparr>hc_Name = ''g1'', hc_Nodes = [''http://a'', ''http://b''], hc_Filter = []\<rparr>)]\<rparr>"

definition demo_http :: http_service where
  "demo_http = \<lparr>hs_groups = Some (config_groups (hc_Groups demo_http_config)), hs_lock = True, hs_timeTick = 1,
     hs_status = httpEnable\<rparr>"

lemma http_enabled [simp]: "has_flag httpEnable httpEnable"
  using ht_enable.set_has [of 0] by simp

lemma demo_http_new: "NewHttpService (Inr demo_http_config) = Ret demo_http"
  by (simp add: NewHttpService_def demo_http_def config_groups_def demo_http_config_def)

lemma demo_http_groups: "config_groups (hc_Groups demo_http_config) =
    [''g1'' \<mapsto> \<lparr>hg_name = ''g1'', hg_filter = [], hg_nodes = [newHttpNode ''http://a'', newHttpNode ''http://b'']\<rparr>]"
  by (simp add: config_groups_def demo_http_config_def groups_add_def newHttpGroup_def fun_eq_iff)

lemma demo_http_room: "i < 2 \<Longrightarrow> http_room [''g1''] ''g1'' i demo_http httpMaxSendQueue"
  by (auto simp: http_room_def demo_http_def demo_http_groups group_room_def newHttpNode_def)

lemma demo_http_ranged: "http_ranged [''g1''] demo_http"
  by (simp add: http_ranged_def demo_http_def demo_http_groups)

text \<open>
  While the queues have room, an enabled http service queues exactly the events whose table passes
  the filter of a group, each once and in the order they were sent, at every node of that group,
  whatever the other groups are and in whatever order the map of groups is ranged over.
\<close>

theorem http_queues_matching:
  assumes "http_room ord k i s (length es)"
  shows "\<exists>s'. go_foldM (\<lambda>s (t, d). go_bind (http_SendAll rx ord t d s) (\<lambda>(s', _). Ret s')) s es = Ret s' \<and>
    http_queue k i s' = http_queue k i s @ map snd (filter (\<lambda>(t, _). http_passes rx k s t) es)"
  using http_sink.sends_all [OF assms, of rx] by (simp add: case_prod_beta')

theorem http_queues_matching_witness:
  "\<exists>s'. go_foldM (\<lambda>s (t, d). go_bind (http_SendAll (\<lambda>_ _. Some True) [''g1''] t d s) (\<lambda>(s', _). Ret s')) demo_http
      [(''db.a'', [1]), (''db.b'', [2])] = Ret s' \<and> http_queue ''g1'' 1 s' = [[1], [2]]"
proof -
  have "http_room [''g1''] ''g1'' 1 demo_http (length [(''db.a'', [1::8 word]), (''db.b'', [2])])"
    by (auto simp: http_room_def demo_http_def demo_http_groups group_room_def newHttpNode_def
        httpMaxSendQueue_def)
  from http_queues_matching [OF this, of "\<lambda>_ _. Some True"] show ?thesis
    by (auto simp: http_passes_def http_queue_def http_group_of_def demo_http_def demo_http_groups newHttpNode_def
        MatchFilters_def)
qed

text \<open>
  Shutting down loses no event that an http node had queued. After the context is cancelled, whatever
  its workers' selects choose, \<open>wait\<close> returns only when every queued event was taken for posting,
  each once and in order; and the workers can always reach that point.
\<close>

theorem http_shutdown_drains:
  assumes "hn_workers n \<noteq> 0"
  shows "(\<forall>n'. http_drain n n' \<and> node_wait n' = Ret () \<longrightarrow> hn_posts n' = hn_posts n @ hn_sendQueue n) \<and>
    (\<exists>n'. http_drain n n' \<and> node_wait n' = Ret ())"
proof -
  have "hn_posts n' = hn_posts n @ hn_sendQueue n" if "http_drain n n'" "node_wait n' = Ret ()" for n'
    using http_drain_inv [OF that(1)] that(2) assms by (simp add: node_wait_def split: if_splits)
  moreover have "\<exists>n'. http_drain n n' \<and> node_wait n' = Ret ()"
    using drain_trans [OF drain_workers drain_queue [OF assms]] by (fastforce simp: node_wait_def)
  ultimately show ?thesis by blast
qed

theorem http_shutdown_drains_witness:
  "\<exists>n'. http_drain ((newHttpNode ''http://a'')\<lparr>hn_workers := 3, hn_sendQueue := [[1], [2]]\<rparr>) n' \<and> hn_posts n' = [[1], [2]]"
  using http_shutdown_drains [of "(newHttpNode ''http://a'')\<lparr>hn_workers := 3, hn_sendQueue := [[1], [2]]\<rparr>"]
  by (auto simp: newHttpNode_def)

text \<open>
  C31: A reload stalls the http service, and with it the handler that sends to it. \<open>Reload\<close> replaces the
  groups but starts no workers, so no node of the reloaded service ever posts; the queues fill,
  and once 10000 events have passed the filter of a group the next one never returns.
\<close>

theorem http_reload_stalls:
  assumes "http_ranged old s" and "http_Reload (Inr config) old s = Ret s'" and "hc_Enable config"
    and "config_groups (hc_Groups config) k = Some g" and "i < length (hg_nodes g)" and "distinct ord" and "k \<in> set ord"
    and "MatchFilters rx (hg_filter g) t"
  shows "(\<forall>gs j h n. hs_groups s' = Some gs \<and> gs j = Some h \<and> n \<in> set (hg_nodes h) \<longrightarrow>
        clientSendService done pick n = Block) \<and>
    go_foldM (\<lambda>s (t, d). go_bind (http_SendAll rx ord t d s) (\<lambda>(s', _). Ret s')) s'
      (replicate (Suc httpMaxSendQueue) (t, d)) = Block"
proof -
  note s' = reload_groups(1) [OF assms(1,2)] reload_groups(2) [OF assms(1,2,3)]
  note fresh = config_groups_fresh [of "hc_Groups config"]
  have grp: "http_group_of k s' = g" using s' assms(4) by (simp add: http_group_of_def)
  have idle: "clientSendService done pick n = Block" if "gs j = Some h" "n \<in> set (hg_nodes h)" "hs_groups s' = Some gs" for gs j h n
    using fresh [of j h] that s' by (auto simp: fresh_group_def clientSendService_def)
  have room: "http_room ord k i s' (length (replicate httpMaxSendQueue (t, d)) + 0)"
    using s' assms(4-7) by (auto simp: http_room_def intro: fresh_room fresh)
  have pass: "http_passes rx k s' t" using assms(8) by (simp add: http_passes_def grp)
  have empty: "http_queue k i s' = []"
    using fresh [OF assms(4)] assms(5) by (simp add: http_queue_def grp fresh_group_def)
  from http_sink.sends_run [OF room, of rx] pass empty
  obtain s2 where s2: "go_foldM (\<lambda>s (t, d). go_bind (http_SendAll rx ord t d s) (\<lambda>(s', _). Ret s')) s'
      (replicate httpMaxSendQueue (t, d)) = Ret s2" "http_room ord k i s2 0" "http_passes rx k s2 t"
      "length (http_queue k i s2) = httpMaxSendQueue"
    by (auto simp: filter_replicate)
  then have "http_SendAll rx ord t d s2 = Block" by (auto intro: http_full_blocks)
  with s2(1) have "go_foldM (\<lambda>s (t, d). go_bind (http_SendAll rx ord t d s) (\<lambda>(s', _). Ret s')) s'
      (replicate httpMaxSendQueue (t, d) @ [(t, d)]) = Block"
    by (simp add: go_foldM_append)
  moreover have "replicate httpMaxSendQueue (t, d) @ [(t, d)] = replicate (Suc httpMaxSendQueue) (t, d)"
    by (simp only: replicate_append_same replicate_Suc)
  ultimately show ?thesis using idle by (intro conjI) auto
qed

theorem http_reload_stalls_witness:
  "\<exists>s'. http_Reload (Inr demo_http_config) [''g1''] (http_Start 2 demo_http) = Ret s' \<and>
     go_foldM (\<lambda>s (t, d). go_bind (http_SendAll (\<lambda>_ _. Some True) [''g1''] t d s) (\<lambda>(s', _). Ret s')) s'
      (replicate (Suc httpMaxSendQueue) (''db.t'', [1])) = Block"
proof -
  have ranged: "http_ranged [''g1''] (http_Start 2 demo_http)"
    by (simp add: http_ranged_def http_Start_def demo_http_def demo_http_groups groups_sendService_def group_sendService_def)
  have "\<exists>s'. http_Reload (Inr demo_http_config) [''g1''] (http_Start 2 demo_http) = Ret s'"
    by (simp add: http_Reload_def http_Start_def demo_http_def demo_http_config_def reload_add_def Let_def)
  then obtain s' where s': "http_Reload (Inr demo_http_config) [''g1''] (http_Start 2 demo_http) = Ret s'" by blast
  have "hc_Enable demo_http_config" "distinct [''g1'']" "''g1'' \<in> set [''g1'']" "MatchFilters (\<lambda>_ _. Some True) [] ''db.t''"
    by (simp_all add: demo_http_config_def MatchFilters_def)
  with http_reload_stalls [OF ranged s', of "''g1''" _ 0 "[''g1'']" "\<lambda>_ _. Some True" "''db.t''" True True "[1]"] s'
  show ?thesis by (auto simp: demo_http_groups)
qed

text \<open>
  A service that was disabled when the process started has no lock and no map of groups: a reload
  whose configuration has a group panics instead of enabling it.
\<close>

theorem http_enable_by_reload_panics:
  assumes "NewHttpService (Inr config0) = Ret s" and "\<not> hc_Enable config0" and "hc_Groups config \<noteq> []"
  shows "http_Reload (Inr config) ord s = Panic NilDereference"
  using assms by (cases "hc_Groups config") (auto simp: NewHttpService_def http_Reload_def reload_add_def Let_def)

theorem http_enable_by_reload_panics_witness:
  "http_Reload (Inr demo_http_config) [] \<lparr>hs_groups = None, hs_lock = False, hs_timeTick = 0, hs_status = 0\<rparr> =
     Panic NilDereference"
  using http_enable_by_reload_panics [of "demo_http_config\<lparr>hc_Enable := False\<rparr>" _ demo_http_config "[]"]
  by (simp add: NewHttpService_def demo_http_config_def)


subsection \<open>The workers end\<close>

text \<open>The turns of a node's workers after the cancellation, with the choices of their selects.\<close>

fun drain_run :: "bool list \<Rightarrow> http_node \<Rightarrow> http_node" where
  "drain_run [] n = n"
| "drain_run (pick # picks) n =
     (case clientSendService True pick n of Ret n' \<Rightarrow> drain_run picks n' | _ \<Rightarrow> n)"

lemma drain_turn_cases:
  "hn_workers n = 0 \<and> clientSendService True pick n = Block \<or>
   (\<exists>n'. clientSendService True pick n = Ret n' \<and> hn_posts n' @ hn_sendQueue n' = hn_posts n @ hn_sendQueue n \<and>
      (hn_workers n' = 0 \<longrightarrow> hn_sendQueue n' = []) \<and>
      (n' = n \<and> pick \<or> Suc (length (hn_sendQueue n') + hn_workers n') = length (hn_sendQueue n) + hn_workers n))"
  by (auto simp: clientSendService_def split: list.split)

text \<open>
  C23: After the cancellation a node's workers end within a bound: whatever the selects choose, as
  soon as the cancellation was passed over as often as there are queued events and workers, all
  events have been taken for posting, in order, and \<open>wait\<close> returns. A select that prefers the
  cancellation only makes a worker turn again.\<close>

theorem http_workers_end:
  assumes "hn_workers n \<noteq> 0" and "length (hn_sendQueue n) + hn_workers n \<le> count_list picks False"
  shows "node_wait (drain_run picks n) = Ret () \<and> hn_posts (drain_run picks n) = hn_posts n @ hn_sendQueue n"
proof -
  have "(hn_workers n = 0 \<longrightarrow> hn_sendQueue n = []) \<Longrightarrow> length (hn_sendQueue n) + hn_workers n \<le> count_list picks False \<Longrightarrow>
      node_wait (drain_run picks n) = Ret () \<and> hn_posts (drain_run picks n) = hn_posts n @ hn_sendQueue n"
  proof (induction picks arbitrary: n)
    case Nil
    then show ?case by (simp add: node_wait_def)
  next
    case (Cons pick picks)
    from drain_turn_cases [of n pick] show ?case
    proof (elim disjE exE conjE)
      assume "hn_workers n = 0" "clientSendService True pick n = Block"
      with Cons.prems show ?thesis by (simp add: node_wait_def)
    next
      fix n'
      assume t: "clientSendService True pick n = Ret n'" "hn_workers n' = 0 \<longrightarrow> hn_sendQueue n' = []" "n' = n" "pick"
      with Cons.IH [of n'] Cons.prems(2) show ?thesis by simp
    next
      fix n'
      assume t: "clientSendService True pick n = Ret n'" "hn_posts n' @ hn_sendQueue n' = hn_posts n @ hn_sendQueue n"
        "hn_workers n' = 0 \<longrightarrow> hn_sendQueue n' = []"
        "Suc (length (hn_sendQueue n') + hn_workers n') = length (hn_sendQueue n) + hn_workers n"
      then have "length (hn_sendQueue n') + hn_workers n' \<le> count_list picks False"
        using Cons.prems(2) by (simp split: if_splits)
      with Cons.IH [of n'] t show ?thesis by simp
    qed
  qed
  with assms show ?thesis by simp
qed

theorem http_workers_end_witness:
  "node_wait (drain_run [False, True, False, False] ((newHttpNode ''http://a'')\<lparr>hn_workers := 2, hn_sendQueue := [[1]]\<rparr>)) = Ret () \<and>
   hn_posts (drain_run [False, True, False, False] ((newHttpNode ''http://a'')\<lparr>hn_workers := 2, hn_sendQueue := [[1]]\<rparr>)) = [[1]]"
  using http_workers_end [of "(newHttpNode ''http://a'')\<lparr>hn_workers := 2, hn_sendQueue := [[1]]\<rparr>" "[False, True, False, False]"]
  by (simp add: newHttpNode_def)

end
