(* ===== verification/Redis_Service.thy ===== *)
theory Redis_Service
  imports Event_Sink App
begin

text \<open>
  \<^verbatim>\<open>src/services/redis/redis.go\<close>: pushes the events that pass its filter to a redis list. The redis
  library is represented by the calls made to it: \<open>rd_pushes\<close> are the \<open>RPush\<close> calls, each with the
  client it was made on.
\<close>

record redis_config =
  rc_Enable :: bool
  rc_Address :: string
  rc_Password :: string
  rc_Filter :: "string list"
  rc_Db :: int
  rc_Queue :: string

record redis_client =
  cl_Addr :: string
  cl_Password :: string
  cl_DB :: int
  cl_closed :: bool

record redis_service =
  rd_client :: "redis_client option"
  rd_config :: "redis_config option"
  rd_status :: int
  rd_lock :: bool                  \<comment> \<open>whether the mutex was created\<close>
  rd_pushes :: "(redis_client \<times> string \<times> bytes) list"

definition redis_isClose :: int where "redis_isClose = 1"

interpretation rd_close: status_flag redis_isClose 0
  by unfold_locales (simp add: redis_isClose_def)

definition getRedisConfig ::
    "(string \<Rightarrow> redis_config option) \<Rightarrow> app_env \<Rightarrow> file_system \<Rightarrow> app_error + redis_config" where
  "getRedisConfig dec env fs = decode_file fs dec (config_file (ev_ConfigPath env) ''redis.toml'')"

definition redis_NewClient :: "redis_config \<Rightarrow> redis_client" where
  "redis_NewClient config =
     \<lparr>cl_Addr = rc_Address config, cl_Password = rc_Password config, cl_DB = rc_Db config, cl_closed = False\<rparr>"

definition NewRedis :: "app_error + redis_config \<Rightarrow> redis_service" where
  "NewRedis cfg =
     (case cfg of
        Inl err \<Rightarrow> \<lparr>rd_client = None, rd_config = None, rd_status = 0, rd_lock = False, rd_pushes = []\<rparr>
      | Inr config \<Rightarrow>
          if \<not> rc_Enable config
          then \<lparr>rd_client = None, rd_config = Some config, rd_status = 0, rd_lock = False, rd_pushes = []\<rparr>
          else \<lparr>rd_client = Some (redis_NewClient config), rd_config = Some config, rd_status = 0,
                rd_lock = True, rd_pushes = []\<rparr>)"

definition nil_check :: "'a option \<Rightarrow> 'a go" where
  "nil_check p = (case p of None \<Rightarrow> Panic NilDereference | Some x \<Rightarrow> Ret x)"

definition lock_check :: "bool \<Rightarrow> unit go" where
  "lock_check made = (if made then Ret () else Panic NilDereference)"

definition redis_SendAll ::
    "regexp \<Rightarrow> string \<Rightarrow> bytes \<Rightarrow> redis_service \<Rightarrow> (redis_service \<times> bool) go" where
  "redis_SendAll rx table data r =
     go_bind (nil_check (rd_config r)) (\<lambda>config.
       case rd_client r of
         None \<Rightarrow> Ret (r, True)
       | Some client \<Rightarrow>
           if \<not> rc_Enable config then Ret (r, True)
           else go_bind (lock_check (rd_lock r)) (\<lambda>_.
             if has_flag (rd_status r) redis_isClose then Ret (r, False)
             else if MatchFilters rx (rc_Filter config) table
             then Ret (r\<lparr>rd_pushes := rd_pushes r @ [(client, rc_Queue config, data)]\<rparr>, True)
             else Ret (r, True)))"

definition redis_Start :: "redis_service \<Rightarrow> redis_service go" where
  "redis_Start r = go_bind (nil_check (rd_config r)) (\<lambda>_. Ret r)"

definition redis_Close :: "redis_service \<Rightarrow> redis_service go" where
  "redis_Close r =
     go_bind (nil_check (rd_config r)) (\<lambda>config.
       case rd_client r of
         None \<Rightarrow> Ret r
       | Some client \<Rightarrow>
           if \<not> rc_Enable config then Ret r
           else go_bind (lock_check (rd_lock r)) (\<lambda>_.
             let r = (if \<not> has_flag (rd_status r) redis_isClose
                      then r\<lparr>rd_status := rd_status r OR redis_isClose\<rparr> else r)
             in Ret (r\<lparr>rd_client := Some (client\<lparr>cl_closed := True\<rparr>)\<rparr>)))"

definition redis_Reload :: "app_error + redis_config \<Rightarrow> redis_service \<Rightarrow> redis_service go" where
  "redis_Reload cfg r =
     go_bind (redis_Close r) (\<lambda>r.
       case cfg of
         Inl err \<Rightarrow> Ret (r\<lparr>rd_config := None, rd_client := None\<rparr>)
       | Inr config \<Rightarrow>
           let r = r\<lparr>rd_config := Some config\<rparr>
           in if \<not> rc_Enable config then Ret r
              else Ret (r\<lparr>rd_client := Some (redis_NewClient config)\<rparr>))"

definition redis_Name :: string where "redis_Name = ''redis''"

subsection \<open>The service as an event sink\<close>

definition redis_ready :: "redis_service \<Rightarrow> bool" where
  "redis_ready r \<longleftrightarrow> (\<exists>config. rd_config r = Some config \<and> rc_Enable config) \<and> rd_client r \<noteq> None \<and>
     rd_lock r \<and> \<not> has_flag (rd_status r) redis_isClose"

definition redis_passes :: "regexp \<Rightarrow> redis_service \<Rightarrow> string \<Rightarrow> bool" where
  "redis_passes rx r table = (case rd_config r of None \<Rightarrow> False | Some c \<Rightarrow> MatchFilters rx (rc_Filter c) table)"

definition redis_msg :: "redis_service \<Rightarrow> string \<Rightarrow> bytes \<Rightarrow> redis_client \<times> string \<times> bytes" where
  "redis_msg r table data = (the (rd_client r), rc_Queue (the (rd_config r)), data)"

interpretation redis_sink: event_sink "redis_SendAll rx" "\<lambda>r _. redis_ready r" "redis_passes rx" rd_pushes redis_msg
proof
  fix s n t d
  assume "redis_ready s"
  then obtain config client where "rd_config s = Some config" "rc_Enable config" "rd_client s = Some client"
    "rd_lock s" "\<not> has_flag (rd_status s) redis_isClose" by (auto simp: redis_ready_def)
  then show "\<exists>s' b. redis_SendAll rx t d s = Ret (s', b) \<and> redis_ready s' \<and> redis_passes rx s' = redis_passes rx s \<and>
      redis_msg s' = redis_msg s \<and>
      rd_pushes s' = rd_pushes s @ (if redis_passes rx s t then [redis_msg s t d] else [])"
    by (auto simp: redis_SendAll_def nil_check_def lock_check_def redis_ready_def redis_passes_def redis_msg_def
        fun_eq_iff split: if_splits)
qed

lemma redis_after_reload:
  assumes "redis_ready r" and "redis_Reload (Inr config) r = Ret r'"
  shows "has_flag (rd_status r') redis_isClose" "rd_config r' = Some config" "rd_lock r'" "rd_pushes r' = rd_pushes r"
    "rd_client r' \<noteq> None"
  using assms
  by (auto simp: redis_ready_def redis_Reload_def redis_Close_def nil_check_def lock_check_def Let_def
      rd_close.set_has split: if_splits)

subsection \<open>Properties\<close>

definition demo_redis_config :: redis_config where
  "demo_redis_config = \<lparr>rc_Enable = True, rc_Address = ''localhost:6379'', rc_Password = '''', rc_Filter = [],
     rc_Db = 0, rc_Queue = ''wing-binlog''\<rparr>"

lemma demo_redis_ready: "redis_ready (NewRedis (Inr demo_redis_config))"
  by (simp add: redis_ready_def NewRedis_def demo_redis_config_def)

text \<open>
  A redis service that is open pushes exactly the events whose table passes its filter, in
  the order they were sent, each once, to its queue on its client.
\<close>

theorem redis_pushes_matching:
  assumes "redis_ready r"
  shows "\<exists>r'. go_foldM (\<lambda>r (t, d). go_bind (redis_SendAll rx t d r) (\<lambda>(r', _). Ret r')) r es = Ret r' \<and>
    rd_pushes r' = rd_pushes r @ map (\<lambda>(t, d). redis_msg r t d) (filter (\<lambda>(t, _). redis_passes rx r t) es)"
  using assms by (rule redis_sink.sends_all)

theorem redis_pushes_matching_witness:
  "\<exists>r'. go_foldM (\<lambda>r (t, d). go_bind (redis_SendAll (\<lambda>_ _. Some True) t d r) (\<lambda>(r', _). Ret r'))
      (NewRedis (Inr demo_redis_config)) [(''db.a'', [1]), (''db.b'', [2])] = Ret r' \<and>
    map (\<lambda>(_, _, d). d) (rd_pushes r') = [[1], [2]]"
proof -
  from redis_pushes_matching [OF demo_redis_ready, of "\<lambda>_ _. Some True" "[(''db.a'', [1]), (''db.b'', [2])]"]
  show ?thesis by (auto simp: redis_passes_def redis_msg_def MatchFilters_def NewRedis_def demo_redis_config_def)
qed

text \<open>
  C0: A reload silences the redis service. \<open>Reload\<close> closes the service first, which sets the closed
  flag, and nothing ever clears it: after a reload with any enabled configuration every \<open>SendAll\<close>
  returns false and pushes nothing.
\<close>

theorem redis_reload_silences:
  assumes "redis_ready r" and "rc_Enable config" and "redis_Reload (Inr config) r = Ret r'"
  shows "redis_SendAll rx table data r' = Ret (r', False) \<and> rd_pushes r' = rd_pushes r"
  using redis_after_reload [OF assms(1,3)] assms(2)
  by (auto simp: redis_SendAll_def nil_check_def lock_check_def)

theorem redis_reload_silences_witness:
  "\<exists>r'. redis_Reload (Inr demo_redis_config) (NewRedis (Inr demo_redis_config)) = Ret r' \<and>
     redis_SendAll (\<lambda>_ _. Some True) ''db.t'' [1] r' = Ret (r', False)"
proof -
  have "\<exists>r'. redis_Reload (Inr demo_redis_config) (NewRedis (Inr demo_redis_config)) = Ret r'"
    by (simp add: redis_Reload_def redis_Close_def NewRedis_def demo_redis_config_def nil_check_def lock_check_def)
  then obtain r' where r': "redis_Reload (Inr demo_redis_config) (NewRedis (Inr demo_redis_config)) = Ret r'" by blast
  from redis_reload_silences [OF demo_redis_ready _ r'] r' show ?thesis by (auto simp: demo_redis_config_def)
qed

text \<open>
  Two ways the redis service takes the process down. Without a readable configuration file its
  \<open>Start\<close> and every event panic on the nil configuration; if it was disabled at start and is
  enabled by a reload, the next event panics on the mutex that was never created.
\<close>

theorem redis_nil_panics:
  assumes "rc_Enable config" and "\<not> rc_Enable config0"
    and "redis_Reload (Inr config) (NewRedis (Inr config0)) = Ret r'"
  shows "redis_Start (NewRedis (Inl e)) = Panic NilDereference \<and>
    redis_SendAll rx table data (NewRedis (Inl e)) = Panic NilDereference \<and>
    redis_SendAll rx table data r' = Panic NilDereference"
  using assms
  by (auto simp: redis_Start_def redis_SendAll_def NewRedis_def nil_check_def lock_check_def redis_Reload_def
      redis_Close_def Let_def)

theorem redis_nil_panics_witness:
  "\<exists>r'. redis_Reload (Inr demo_redis_config) (NewRedis (Inr (demo_redis_config\<lparr>rc_Enable := False\<rparr>))) = Ret r' \<and>
     redis_SendAll (\<lambda>_ _. Some True) ''db.t'' [1] r' = Panic NilDereference"
proof -
  have "\<exists>r'. redis_Reload (Inr demo_redis_config) (NewRedis (Inr (demo_redis_config\<lparr>rc_Enable := False\<rparr>))) = Ret r'"
    by (simp add: redis_Reload_def redis_Close_def NewRedis_def demo_redis_config_def nil_check_def)
  then obtain r' where r': "redis_Reload (Inr demo_redis_config)
      (NewRedis (Inr (demo_redis_config\<lparr>rc_Enable := False\<rparr>))) = Ret r'" by blast
  from redis_nil_panics [OF _ _ r'] r' show ?thesis by (auto simp: demo_redis_config_def)
qed

end
