(* ===== verification/Kafka_Service.thy ===== *)
theory Kafka_Service
  imports Redis_Service
begin

text \<open>
  \<^verbatim>\<open>src/services/kafka\<close>: hands the events that pass its filter to an asynchronous kafka producer. The
  sarama library is represented by the messages put on the producers' input channels, each with the
  number of its producer; \<open>mk\<close> is whether a producer can be created for a list of brokers (the
  process ends when it cannot).
\<close>

record kafka_config =
  kc_Enable :: bool
  kc_Brokers :: "string list"
  kc_Filter :: "string list"
  kc_Topic :: string

record kafka_producer =
  kp_id :: nat
  kp_closed :: bool

record kafka_message =
  km_producer :: nat
  km_Topic :: string
  km_Key :: string
  km_Value :: bytes

record kafka_service =
  ka_producer :: "kafka_producer option"
  ka_enable :: bool
  ka_topic :: string
  ka_filter :: "string list"
  ka_status :: int
  ka_lock :: bool
  ka_created :: nat
  ka_out :: "kafka_message list"

definition kafka_isClose :: int where "kafka_isClose = 1"

interpretation ka_close: status_flag kafka_isClose 0
  by unfold_locales (simp add: kafka_isClose_def)

definition kafka_getConfig ::
    "(string \<Rightarrow> kafka_config option) \<Rightarrow> app_env \<Rightarrow> file_system \<Rightarrow> app_error + kafka_config" where
  "kafka_getConfig dec env fs = decode_file fs dec (config_file (ev_ConfigPath env) ''kafka.toml'')"

definition entry_Length :: "bytes \<Rightarrow> nat" where "entry_Length d = length d"
definition entry_Encode :: "bytes \<Rightarrow> bytes" where "entry_Encode d = d"

text \<open>\<open>log.Fatalln\<close> ends the process.\<close>

definition newAccessLogProducer :: "(string list \<Rightarrow> bool) \<Rightarrow> string list \<Rightarrow> nat \<Rightarrow> kafka_producer go" where
  "newAccessLogProducer mk brokerList n =
     (if \<not> mk brokerList then Panic (LogPanic ''Failed to start Sarama producer:'')
      else Ret \<lparr>kp_id = n, kp_closed = False\<rparr>)"

definition NewProducer :: "(string list \<Rightarrow> bool) \<Rightarrow> app_error + kafka_config \<Rightarrow> kafka_service go" where
  "NewProducer mk cfg =
     go_bind (deref cfg) (\<lambda>config.
       if \<not> kc_Enable config
       then Ret \<lparr>ka_producer = None, ka_enable = False, ka_topic = '''', ka_filter = [], ka_status = 0,
                 ka_lock = False, ka_created = 0, ka_out = []\<rparr>
       else go_bind (newAccessLogProducer mk (kc_Brokers config) 0) (\<lambda>p.
              Ret \<lparr>ka_producer = Some p, ka_enable = True, ka_topic = kc_Topic config,
                   ka_filter = kc_Filter config, ka_status = 0, ka_lock = True, ka_created = 1, ka_out = []\<rparr>))"

definition kafka_Input :: "string \<Rightarrow> string \<Rightarrow> bytes \<Rightarrow> kafka_service \<Rightarrow> kafka_service go" where
  "kafka_Input topic key val r =
     (case ka_producer r of
        None \<Rightarrow> Panic NilDereference
      | Some p \<Rightarrow>
          if kp_closed p then Panic SendOnClosedChannel
          else Ret (r\<lparr>ka_out := ka_out r @
                 [\<lparr>km_producer = kp_id p, km_Topic = topic, km_Key = key, km_Value = val\<rparr>]\<rparr>))"

definition kafka_SendAll ::
    "regexp \<Rightarrow> string \<Rightarrow> bytes \<Rightarrow> kafka_service \<Rightarrow> (kafka_service \<times> bool) go" where
  "kafka_SendAll rx table data r =
     (if \<not> ka_enable r then Ret (r, False)
      else go_bind (lock_check (ka_lock r)) (\<lambda>_.
        if has_flag (ka_status r) kafka_isClose then Ret (r, False)
        else if \<not> MatchFilters rx (ka_filter r) table then Ret (r, False)
        else go_bind (kafka_Input (ka_topic r) table (entry_Encode data) r) (\<lambda>r. Ret (r, True))))"

text \<open>
  \<open>Start\<close> spawns, when the service is enabled, a goroutine that logs one error of the producer; it
  changes nothing of the service.
\<close>

definition kafka_Start :: "kafka_service \<Rightarrow> kafka_service go" where
  "kafka_Start r = Ret r"

definition kafka_Close :: "kafka_service \<Rightarrow> kafka_service go" where
  "kafka_Close r =
     (if \<not> ka_enable r then Ret r
      else go_bind (lock_check (ka_lock r)) (\<lambda>_.
        let r = (if \<not> has_flag (ka_status r) kafka_isClose
                 then r\<lparr>ka_status := ka_status r OR kafka_isClose\<rparr> else r)
        in case ka_producer r of
             None \<Rightarrow> Panic NilDereference
           | Some p \<Rightarrow> Ret (r\<lparr>ka_producer := Some (p\<lparr>kp_closed := True\<rparr>)\<rparr>)))"

definition kafka_Reload ::
    "(string list \<Rightarrow> bool) \<Rightarrow> app_error + kafka_config \<Rightarrow> kafka_service \<Rightarrow> kafka_service go" where
  "kafka_Reload mk cfg r =
     go_bind (deref cfg) (\<lambda>config.
     go_bind (newAccessLogProducer mk (kc_Brokers config) (ka_created r)) (\<lambda>p.
       Ret (r\<lparr>ka_producer := Some p, ka_created := Suc (ka_created r), ka_enable := True,
              ka_topic := kc_Topic config, ka_filter := kc_Filter config\<rparr>)))"

definition kafka_Name :: string where "kafka_Name = ''kafka''"

subsection \<open>The service as an event sink\<close>

definition kafka_ready :: "kafka_service \<Rightarrow> bool" where
  "kafka_ready r \<longleftrightarrow> ka_enable r \<and> ka_lock r \<and> \<not> has_flag (ka_status r) kafka_isClose \<and>
     (\<exists>p. ka_producer r = Some p \<and> \<not> kp_closed p)"

definition kafka_msg :: "kafka_service \<Rightarrow> string \<Rightarrow> bytes \<Rightarrow> kafka_message" where
  "kafka_msg r table data =
     \<lparr>km_producer = kp_id (the (ka_producer r)), km_Topic = ka_topic r, km_Key = table, km_Value = data\<rparr>"

interpretation kafka_sink: event_sink
  "kafka_SendAll rx" "\<lambda>r _. kafka_ready r" "\<lambda>r. MatchFilters rx (ka_filter r)" ka_out kafka_msg
proof
  fix s n t d
  assume "kafka_ready s"
  then show "\<exists>s' b. kafka_SendAll rx t d s = Ret (s', b) \<and> kafka_ready s' \<and>
      MatchFilters rx (ka_filter s') = MatchFilters rx (ka_filter s) \<and> kafka_msg s' = kafka_msg s \<and>
      ka_out s' = ka_out s @ (if MatchFilters rx (ka_filter s) t then [kafka_msg s t d] else [])"
    by (auto simp: kafka_SendAll_def kafka_Input_def lock_check_def kafka_ready_def kafka_msg_def entry_Encode_def
        fun_eq_iff)
qed

subsection \<open>Properties\<close>

definition demo_kafka_config :: kafka_config where
  "demo_kafka_config = \<lparr>kc_Enable = True, kc_Brokers = [''127.0.0.1:9092''], kc_Filter = [], kc_Topic = ''wing''\<rparr>"

lemma demo_kafka: "\<exists>r. NewProducer (\<lambda>_. True) (Inr demo_kafka_config) = Ret r \<and> kafka_ready r \<and> ka_filter r = []"
  by (simp add: NewProducer_def newAccessLogProducer_def demo_kafka_config_def kafka_ready_def)

text \<open>
  A kafka service that is open produces exactly the events whose table passes its filter, in
  order, each once, to its topic with the table as the key; and a reload keeps that: the service is
  open again with the new topic and filter, whatever the new configuration says about being
  enabled.
\<close>

theorem kafka_produces_matching:
  assumes "kafka_ready r" and "kafka_Reload mk (Inr config) r = Ret r1"
  shows "\<exists>r2. go_foldM (\<lambda>r (t, d). go_bind (kafka_SendAll rx t d r) (\<lambda>(r', _). Ret r')) r1 es = Ret r2 \<and>
    ka_out r2 = ka_out r @ map (\<lambda>(t, d). kafka_msg r1 t d) (filter (\<lambda>(t, _). MatchFilters rx (kc_Filter config) t) es)"
proof -
  have "kafka_ready r1" "ka_filter r1 = kc_Filter config" "ka_out r1 = ka_out r"
    using assms by (auto simp: kafka_ready_def kafka_Reload_def newAccessLogProducer_def split: if_splits)
  with kafka_sink.sends_all [OF this(1), of rx es] show ?thesis by simp
qed

theorem kafka_produces_matching_witness:
  "\<exists>r r1 r2. NewProducer (\<lambda>_. True) (Inr demo_kafka_config) = Ret r \<and>
    kafka_Reload (\<lambda>_. True) (Inr (demo_kafka_config\<lparr>kc_Enable := False, kc_Topic := ''new''\<rparr>)) r = Ret r1 \<and>
    go_foldM (\<lambda>r (t, d). go_bind (kafka_SendAll (\<lambda>_ _. Some True) t d r) (\<lambda>(r', _). Ret r')) r1 [(''db.t'', [1])] = Ret r2 \<and>
    map km_Value (ka_out r2) = [[1]]"
proof -
  let ?cfg = "demo_kafka_config\<lparr>kc_Enable := False, kc_Topic := ''new''\<rparr>"
  obtain r where r: "NewProducer (\<lambda>_. True) (Inr demo_kafka_config) = Ret r" "kafka_ready r" using demo_kafka by blast
  have "\<exists>r1. kafka_Reload (\<lambda>_. True) (Inr ?cfg) r = Ret r1" by (simp add: kafka_Reload_def newAccessLogProducer_def)
  then obtain r1 where r1: "kafka_Reload (\<lambda>_. True) (Inr ?cfg) r = Ret r1" by blast
  have "ka_out r = []" using r(1) by (auto simp: NewProducer_def newAccessLogProducer_def demo_kafka_config_def)
  with kafka_produces_matching [OF r(2) r1, of "\<lambda>_ _. Some True" "[(''db.t'', [1])]"] r(1) r1
  show ?thesis by (auto simp: MatchFilters_def demo_kafka_config_def kafka_msg_def)
qed

text \<open>
  A kafka service that was disabled at start cannot be enabled by a reload: the reload succeeds and
  sets the enabled flag, and the next event panics on the mutex that was never created. Without a
  readable configuration file the constructor panics.
\<close>

theorem kafka_reload_panics:
  assumes "NewProducer mk (Inr config0) = Ret r" and "\<not> kc_Enable config0"
    and "kafka_Reload mk (Inr config) r = Ret r1"
  shows "kafka_SendAll rx table data r1 = Panic NilDereference \<and>
    NewProducer mk (Inl e) = Panic NilDereference"
  using assms by (auto simp: NewProducer_def kafka_Reload_def kafka_SendAll_def lock_check_def newAccessLogProducer_def
      split: if_splits)

theorem kafka_reload_panics_witness:
  "\<exists>r r1. NewProducer (\<lambda>_. True) (Inr (demo_kafka_config\<lparr>kc_Enable := False\<rparr>)) = Ret r \<and>
    kafka_Reload (\<lambda>_. True) (Inr demo_kafka_config) r = Ret r1 \<and>
    kafka_SendAll (\<lambda>_ _. Some True) ''db.t'' [1] r1 = Panic NilDereference"
proof -
  have "\<exists>r r1. NewProducer (\<lambda>_. True) (Inr (demo_kafka_config\<lparr>kc_Enable := False\<rparr>)) = Ret r \<and>
      kafka_Reload (\<lambda>_. True) (Inr demo_kafka_config) r = Ret r1"
    by (simp add: NewProducer_def kafka_Reload_def newAccessLogProducer_def demo_kafka_config_def)
  then obtain r r1 where "NewProducer (\<lambda>_. True) (Inr (demo_kafka_config\<lparr>kc_Enable := False\<rparr>)) = Ret r"
    "kafka_Reload (\<lambda>_. True) (Inr demo_kafka_config) r = Ret r1" by blast
  with kafka_reload_panics [OF this(1) _ this(2)] show ?thesis by fastforce
qed

end
