(* ===== verification/Frame_Reader.thy ===== *)
theory Frame_Reader
  imports Service "HOL-Library.Sublist"
begin

text \<open>
  The interface between the frames and the three loops that read them from a connection (the
  subscribe node, the control node and the client library). A reader keeps the bytes that do
  not yet make a frame in a buffer; the locale states what its loop promises on accepted frames
  and derives that the way the bytes were cut into reads does not matter.
\<close>

definition enc_frame :: "int64 \<times> bytes \<Rightarrow> bytes" where
  "enc_frame f = Pack (fst f) (snd f)"

definition frame_stream :: "(int64 \<times> bytes) list \<Rightarrow> bytes" where
  "frame_stream fs = concat (map enc_frame fs)"

lemma frame_stream_simps [simp]:
  "frame_stream [] = []"
  "frame_stream (f # fs) = enc_frame f @ frame_stream fs"
  "frame_stream (fs @ gs) = frame_stream fs @ frame_stream gs"
  by (simp_all add: frame_stream_def)

text \<open>The bytes \<open>p\<close> that are buffered when \<open>fs\<close> and then \<open>q\<close> are still to come.\<close>

definition wait_at :: "bytes \<Rightarrow> (int64 \<times> bytes) list \<Rightarrow> bytes \<Rightarrow> bool" where
  "wait_at p fs q = (case fs of [] \<Rightarrow> prefix p q | f # _ \<Rightarrow> strict_prefix p (enc_frame f))"

lemma prefix_frame_stream:
  "prefix x (frame_stream fs @ q) \<Longrightarrow>
     \<exists>fs1 fs2 p. fs = fs1 @ fs2 \<and> x = frame_stream fs1 @ p \<and> wait_at p fs2 q"
proof (induction fs arbitrary: x)
  case Nil
  then show ?case by (auto simp: wait_at_def)
next
  case (Cons f fs)
  show ?case
  proof (cases "prefix (enc_frame f) x")
    case True
    then obtain y where x: "x = enc_frame f @ y" by (auto elim: prefixE)
    with Cons.prems have "prefix y (frame_stream fs @ q)" by simp
    then obtain fs1 fs2 p where "fs = fs1 @ fs2" "y = frame_stream fs1 @ p" "wait_at p fs2 q"
      using Cons.IH by blast
    then have "f # fs = (f # fs1) @ fs2 \<and> x = frame_stream (f # fs1) @ p \<and> wait_at p fs2 q"
      by (simp add: x)
    then show ?thesis by blast
  next
    case False
    with Cons.prems have "prefix x (enc_frame f)"
      by (metis append.assoc frame_stream_simps(2) prefix_def prefix_same_cases)
    with False have "strict_prefix x (enc_frame f)" by (auto simp: strict_prefix_def)
    then have "f # fs = [] @ f # fs \<and> x = frame_stream [] @ x \<and> wait_at x (f # fs) q"
      by (simp add: wait_at_def)
    then show ?thesis by blast
  qed
qed

text \<open>What the header of a buffer says when the buffer begins with a frame, or with a part of one.\<close>

lemma hdr_append:
  "6 \<le> length b \<Longrightarrow> hdr_clen (b @ r) = hdr_clen b"
  "6 \<le> length b \<Longrightarrow> hdr_cmd (b @ r) = hdr_cmd b"
  by (auto simp: hdr_clen_def hdr_cmd_def nth_append)

lemma partial_header:
  assumes "frame_fits f" and "strict_prefix b (enc_frame f)" and "6 \<le> length b"
  shows "hdr_cmd b = fst f" and "int (length b) < hdr_clen b + 4"
proof -
  obtain r where r: "enc_frame f = b @ r" "r \<noteq> []"
    using assms(2) by (auto simp: strict_prefix_def prefix_def)
  then show "hdr_cmd b = fst f"
    using assms(1,3) hdr_cmd_Pack [of "fst f" "snd f" "[]"] hdr_append(2) [of b r]
    by (auto simp: enc_frame_def frame_fits_def)
  have "length (snd f) + 6 = length b + length r"
    using arg_cong [OF r(1), of length] by (simp add: enc_frame_def)
  moreover have "hdr_clen b = int (length (snd f) + 2)"
    using r assms(1,3) hdr_clen_Pack [of "snd f" "fst f" "[]"] hdr_append(1) [of b r]
    by (auto simp: enc_frame_def frame_fits_def)
  moreover have "0 < length r" using r(2) by simp
  ultimately show "int (length b) < hdr_clen b + 4" by linarith
qed

lemma whole_header:
  assumes "frame_fits f" and "buf = enc_frame f @ rest"
  shows "6 \<le> length buf" and "hdr_clen buf = int (length (snd f)) + 2" and "hdr_cmd buf = fst f"
    and "\<not> int (length buf) < hdr_clen buf + 4"
    and "go_slice buf 6 (hdr_clen buf + 4) = Ret (snd f)"
    and "drop (nat (hdr_clen buf + 4)) buf = rest"
proof -
  show clen: "hdr_clen buf = int (length (snd f)) + 2"
    using assms hdr_clen_Pack [of "snd f" "fst f" rest] by (auto simp: enc_frame_def frame_fits_def)
  show "hdr_cmd buf = fst f"
    using assms hdr_cmd_Pack [of "fst f" "snd f" rest] by (auto simp: enc_frame_def frame_fits_def)
  have len: "length buf = length (snd f) + 6 + length rest"
    by (simp add: assms(2) enc_frame_def)
  then show "6 \<le> length buf" "\<not> int (length buf) < hdr_clen buf + 4"
    by (simp_all add: clen)
  have body: "drop 6 buf = snd f @ rest" by (simp add: assms(2) enc_frame_def Pack_eq)
  have n: "nat (hdr_clen buf + 4 - 6) = length (snd f)" "nat (hdr_clen buf + 4) = length (snd f) + 6"
    by (simp_all add: clen)
  then show "drop (nat (hdr_clen buf + 4)) buf = rest"
    using body by (metis add.commute append_eq_conv_conj drop_drop)
  show "go_slice buf 6 (hdr_clen buf + 4) = Ret (snd f)"
    unfolding go_slice_def n(1) using len body by (simp add: clen)
qed

locale frame_reader =
  fixes rbuf :: "'s \<Rightarrow> bytes"
    and set_rbuf :: "bytes \<Rightarrow> 's \<Rightarrow> 's"
    and accepts :: "int64 \<times> bytes \<Rightarrow> bool"
    and handle :: "'s \<Rightarrow> int64 \<times> bytes \<Rightarrow> 's go"
    and loop :: "'s \<Rightarrow> 's go"
    and onMessage :: "'s \<Rightarrow> bytes \<Rightarrow> 's go"
  assumes get_set: "rbuf (set_rbuf b s) = b"
    and set_set: "set_rbuf b (set_rbuf b' s) = set_rbuf b s"
    and set_get: "set_rbuf (rbuf s) s = s"
    and handle_rbuf: "handle (set_rbuf b s) f = go_bind (handle s f) (\<lambda>s'. Ret (set_rbuf b s'))"
    and waits_Nil: "rbuf s = [] \<Longrightarrow> loop s = Ret s"
    and waits: "accepts f \<Longrightarrow> strict_prefix (rbuf s) (enc_frame f) \<Longrightarrow> loop s = Ret s"
    and consumes: "accepts f \<Longrightarrow> rbuf s = enc_frame f @ rest \<Longrightarrow>
      loop s = go_bind (handle s f) (\<lambda>s'. loop (set_rbuf rest s'))"
    and message: "onMessage s msg = loop (set_rbuf (rbuf s @ msg) s)"
begin

lemma foldM_rbuf:
  "go_foldM handle (set_rbuf b s) fs = go_bind (go_foldM handle s fs) (\<lambda>s'. Ret (set_rbuf b s'))"
proof (induction fs arbitrary: s)
  case Nil
  then show ?case by simp
next
  case (Cons f fs)
  then show ?case by (simp add: handle_rbuf go_simps)
qed

lemma waits_tail:
  assumes "q = [] \<or> (\<exists>f. accepts f \<and> strict_prefix q (enc_frame f))"
    and "prefix (rbuf s) q"
  shows "loop s = Ret s"
proof (cases "rbuf s = []")
  case True
  then show ?thesis by (rule waits_Nil)
next
  case False
  with assms obtain f where "accepts f" "strict_prefix (rbuf s) (enc_frame f)"
    using prefix_order.le_less_trans by fastforce
  then show ?thesis by (rule waits)
qed

text \<open>A buffer of whole frames followed by an incomplete one is worked off frame by frame.\<close>

lemma loop_stream:
  assumes q: "q = [] \<or> (\<exists>f. accepts f \<and> strict_prefix q (enc_frame f))"
    and fs: "\<forall>f \<in> set (fs @ gs). accepts f"
    and w: "wait_at p gs q"
    and "rbuf s = frame_stream fs @ p"
  shows "loop s = go_bind (go_foldM handle s fs) (\<lambda>s'. Ret (set_rbuf p s'))"
  using fs \<open>rbuf s = frame_stream fs @ p\<close>
proof (induction fs arbitrary: s)
  case Nil
  have "loop s = Ret s"
  proof (cases gs)
    case Nil
    with w q \<open>rbuf s = frame_stream [] @ p\<close> show ?thesis
      by (intro waits_tail [OF q]) (simp add: wait_at_def)
  next
    case (Cons g gs')
    with w Nil.prems show ?thesis by (intro waits [of g]) (auto simp: wait_at_def)
  qed
  moreover have "set_rbuf p s = s" using Nil.prems(2) set_get [of s] by simp
  ultimately show ?case by simp
next
  case (Cons f fs)
  have IH: "loop (set_rbuf (frame_stream fs @ p) t) =
      go_bind (go_foldM handle t fs) (\<lambda>s'. Ret (set_rbuf p s'))" for t
    using Cons.prems(1) Cons.IH [of "set_rbuf (frame_stream fs @ p) t"]
    by (simp add: get_set foldM_rbuf set_set go_simps)
  have "loop s = go_bind (handle s f) (\<lambda>s'. loop (set_rbuf (frame_stream fs @ p) s'))"
    using Cons.prems by (intro consumes) auto
  then show ?case by (simp add: IH go_simps)
qed

text \<open>
  Reassembly: whatever reads the bytes of \<open>fs\<close> arrive in, the reader handles exactly the
  frames \<open>fs\<close>, in order, and keeps the incomplete rest \<open>q\<close>.
\<close>

lemma reassembly:
  assumes q: "q = [] \<or> (\<exists>f. accepts f \<and> strict_prefix q (enc_frame f))"
    and "\<forall>f \<in> set fs. accepts f"
    and "wait_at (rbuf s) fs q"
    and "rbuf s @ concat chunks = frame_stream fs @ q"
  shows "go_foldM onMessage s chunks = go_bind (go_foldM handle s fs) (\<lambda>s'. Ret (set_rbuf q s'))"
  using assms(2-)
proof (induction chunks arbitrary: s fs)
  case Nil
  then have "fs = []"
    by (auto simp: wait_at_def strict_prefix_def prefix_def split: list.splits)
  with Nil show ?case using set_get [of s] by simp
next
  case (Cons c chunks)
  have "prefix (rbuf s @ c) (frame_stream fs @ q)"
    using Cons.prems(3) by (metis append_assoc concat.simps(2) prefixI)
  then obtain fs1 fs2 p where fs: "fs = fs1 @ fs2" and x: "rbuf s @ c = frame_stream fs1 @ p"
    and w: "wait_at p fs2 q"
    using prefix_frame_stream by blast
  let ?s = "set_rbuf (rbuf s @ c) s"
  have acc: "\<forall>f \<in> set (fs1 @ fs2). accepts f" using Cons.prems(1) fs by simp
  have "onMessage s c = go_bind (go_foldM handle ?s fs1) (\<lambda>s'. Ret (set_rbuf p s'))"
    unfolding message by (rule loop_stream [OF q acc w]) (simp add: get_set x)
  also have "\<dots> = go_bind (go_foldM handle s fs1) (\<lambda>s'. Ret (set_rbuf p s'))"
    by (simp add: foldM_rbuf set_set go_simps)
  finally have one: "onMessage s c = go_bind (go_foldM handle s fs1) (\<lambda>s'. Ret (set_rbuf p s'))" .
  have "p @ concat chunks = frame_stream fs2 @ q"
    using Cons.prems(3) fs x by (metis append_assoc append_same_eq concat.simps(2)
        frame_stream_simps(3) same_append_eq)
  then have rest: "go_foldM onMessage (set_rbuf p t) chunks =
      go_bind (go_foldM handle t fs2) (\<lambda>s'. Ret (set_rbuf q s'))" for t
    using Cons.IH [of fs2 "set_rbuf p t"] acc w by (simp add: get_set foldM_rbuf set_set go_simps)
  show ?case by (simp add: one rest fs go_simps)
qed

corollary reassembly_whole:
  assumes "\<forall>f \<in> set fs. accepts f" and "rbuf s = []" and "concat chunks = frame_stream fs"
  shows "go_foldM onMessage s chunks = go_foldM handle s fs"
proof -
  have "wait_at (rbuf s) fs []"
    using assms(2) Pack_not_Nil
    by (auto simp: wait_at_def enc_frame_def strict_prefix_def Pack_not_Nil [symmetric]
        split: list.splits)
  with assms have "go_foldM onMessage s chunks =
      go_bind (go_foldM handle s fs) (\<lambda>s'. Ret (set_rbuf [] s'))"
    by (intro reassembly) simp_all
  also have "\<dots> = go_foldM handle (set_rbuf [] s) fs" by (simp add: foldM_rbuf)
  also have "set_rbuf [] s = s" using set_get [of s] assms(2) by simp
  finally show ?thesis .
qed

end

end
