(* ===== verification/Subscribe_Node.thy ===== *)
theory Subscribe_Node
  imports Frame_Reader Net
begin

text \<open>
  \<^verbatim>\<open>src/services/subscribe/node.go\<close> and the constants and types of \<^verbatim>\<open>config.go\<close> it uses: one
  connected subscriber. It reads frames that register topics or keep the connection alive,
  queues the events for its topics in a bounded channel and writes them out from a goroutine.

  The functions a node calls when it closes act on a world \<open>'w\<close>, which \<^verbatim>\<open>Subscribe_Groups\<close>
  instantiates with the list of nodes. \<open>um\<close> is \<open>strings.Map(unicode.ToLower, _)\<close>, which
  \<open>strings.ToLower\<close> applies to strings with bytes above 127.
\<close>

subsection \<open>Commands\<close>

definition CMD_SET_PRO :: int64 where "CMD_SET_PRO = 0"
definition CMD_AUTH :: int64 where "CMD_AUTH = 1"
definition CMD_ERROR :: int64 where "CMD_ERROR = 2"
definition CMD_TICK :: int64 where "CMD_TICK = 3"
definition CMD_EVENT :: int64 where "CMD_EVENT = 4"
definition CMD_AGENT :: int64 where "CMD_AGENT = 5"
definition CMD_STOP :: int64 where "CMD_STOP = 6"
definition CMD_RELOAD :: int64 where "CMD_RELOAD = 7"
definition CMD_SHOW_MEMBERS :: int64 where "CMD_SHOW_MEMBERS = 8"
definition CMD_POS :: int64 where "CMD_POS = 9"

lemmas cmd_defs = CMD_SET_PRO_def CMD_AUTH_def CMD_ERROR_def CMD_TICK_def CMD_EVENT_def
  CMD_AGENT_def CMD_STOP_def CMD_RELOAD_def CMD_SHOW_MEMBERS_def CMD_POS_def

definition sub_hasCmd :: "int64 \<Rightarrow> bool" where
  "sub_hasCmd cmd \<longleftrightarrow>
     cmd = CMD_SET_PRO \<or> cmd = CMD_AUTH \<or> cmd = CMD_ERROR \<or> cmd = CMD_TICK \<or> cmd = CMD_EVENT \<or>
     cmd = CMD_AGENT \<or> cmd = CMD_STOP \<or> cmd = CMD_RELOAD \<or> cmd = CMD_SHOW_MEMBERS \<or> cmd = CMD_POS"

definition tcpMaxSendQueue :: nat where "tcpMaxSendQueue = 10000"

definition FlagSetPro :: byte where "FlagSetPro = 0"
definition FlagPing :: byte where "FlagPing = 1"

definition tcpNodeOnline :: int where "tcpNodeOnline = 1"

interpretation sub_online: status_flag tcpNodeOnline 0
  by unfold_locales (simp add: tcpNodeOnline_def)

definition packDataTickOk :: bytes where "packDataTickOk = Pack CMD_TICK (bytes_of ''ok'')"
definition packDataSetPro :: bytes where "packDataSetPro = Pack CMD_SET_PRO (bytes_of ''ok'')"

subsection \<open>The node\<close>

record 'w sub_node =
  sn_conn :: conn
  sn_sendQueue :: "bytes list"
  sn_queueClosed :: bool
  sn_sendFailureTimes :: int64
  sn_topics :: "string list"
  sn_recvBuf :: bytes
  sn_connectTime :: int64
  sn_status :: int
  sn_onclose :: "('w \<Rightarrow> 'w) list"
  sn_world :: 'w

definition NodeClose :: "('w \<Rightarrow> 'w) \<Rightarrow> 'w sub_node \<Rightarrow> 'w sub_node" where
  "NodeClose f n = n\<lparr>sn_onclose := sn_onclose n @ [f]\<rparr>"

definition sub_newNode ::
    "int64 \<Rightarrow> conn \<Rightarrow> 'w \<Rightarrow> ('w sub_node \<Rightarrow> 'w sub_node) list \<Rightarrow> 'w sub_node" where
  "sub_newNode now c w opts =
     foldl (\<lambda>n f. f n)
       \<lparr>sn_conn = c, sn_sendQueue = [], sn_queueClosed = False, sn_sendFailureTimes = 0,
        sn_topics = [], sn_recvBuf = [], sn_connectTime = now, sn_status = tcpNodeOnline,
        sn_onclose = [], sn_world = w\<rparr> opts"

text \<open>\<open>strings.ToLower\<close>.\<close>

definition ascii_lower :: "char \<Rightarrow> char" where
  "ascii_lower c =
     (if 65 \<le> (of_char c :: nat) \<and> (of_char c :: nat) \<le> 90 then char_of (of_char c + 32 :: nat) else c)"

definition ToLower :: "(string \<Rightarrow> string) \<Rightarrow> string \<Rightarrow> string" where
  "ToLower um s = (if \<forall>c \<in> set s. (of_char c :: nat) < 128 then map ascii_lower s else um s)"

fun topic_known :: "string list \<Rightarrow> string \<Rightarrow> bool" where
  "topic_known [] topic = False"
| "topic_known (v # vs) topic = (if v = topic then True else topic_known vs topic)"

definition sub_addTopic :: "(string \<Rightarrow> string) \<Rightarrow> 'w sub_node \<Rightarrow> string \<Rightarrow> 'w sub_node" where
  "sub_addTopic um n topic =
     (let topic = trim_spaces topic;
          topic = ToLower um topic
      in if topic_known (sn_topics n) topic then n
         else n\<lparr>sn_topics := sn_topics n @ [topic]\<rparr>)"

definition sub_close :: "'w sub_node \<Rightarrow> 'w sub_node" where
  "sub_close n =
     (if \<not> has_flag (sn_status n) tcpNodeOnline then n
      else let n = (if has_flag (sn_status n) tcpNodeOnline
                    then n\<lparr>sn_status := sn_status n XOR tcpNodeOnline,
                           sn_conn := conn_close (sn_conn n),
                           sn_queueClosed := True\<rparr>
                    else n)
           in n\<lparr>sn_world := foldl (\<lambda>w f. f w) (sn_world n) (sn_onclose n)\<rparr>)"

definition sub_send :: "'w sub_node \<Rightarrow> bytes \<Rightarrow> 'w sub_node \<times> (net_error + nat)" where
  "sub_send n data = (let (c, r) = conn_write (sn_conn n) data in (n\<lparr>sn_conn := c\<rparr>, r))"

text \<open>
  A send waits while the channel is full: \<open>Block\<close>. A send on a closed channel panics; the
  status test before it does not exclude that when another goroutine closes the node in between
  (\<^verbatim>\<open>send_step\<close> below).
\<close>

definition sub_push :: "'w sub_node \<Rightarrow> bytes \<Rightarrow> 'w sub_node go" where
  "sub_push n data =
     (if length (sn_sendQueue n) < tcpMaxSendQueue
      then if sn_queueClosed n then Panic SendOnClosedChannel
           else Ret (n\<lparr>sn_sendQueue := sn_sendQueue n @ [data]\<rparr>)
      else Block)"

definition sub_asyncSend :: "'w sub_node \<Rightarrow> bytes \<Rightarrow> 'w sub_node go" where
  "sub_asyncSend n data =
     (if \<not> has_flag (sn_status n) tcpNodeOnline then Ret n else sub_push n data)"

definition sub_onSetPro :: "(string \<Rightarrow> string) \<Rightarrow> 'w sub_node \<Rightarrow> string \<Rightarrow> 'w sub_node" where
  "sub_onSetPro um n groupName = sub_addTopic um (fst (sub_send n packDataSetPro)) groupName"

definition sub_onSetProEvent :: "(string \<Rightarrow> string) \<Rightarrow> 'w sub_node \<Rightarrow> bytes \<Rightarrow> 'w sub_node go" where
  "sub_onSetProEvent um n data =
     go_bind (go_index data 0) (\<lambda>flag.
     go_bind (go_slice data 1 (int (length data))) (\<lambda>rest.
       let content = string_of rest
       in if flag = FlagSetPro then Ret (sub_onSetPro um n content)
          else if flag = FlagPing then Ret (sub_close (fst (sub_send n packDataSetPro)))
          else Ret (sub_close n)))"

definition sub_unsupported :: "int64 \<Rightarrow> bytes" where
  "sub_unsupported cmd =
     bytes_of (''tcp service does not support cmd: '' @ int_digits (sint cmd))"

text \<open>The switch: the node after the command, and whether the default branch was taken.\<close>

definition sub_switch ::
    "(string \<Rightarrow> string) \<Rightarrow> 'w sub_node \<Rightarrow> int64 \<Rightarrow> bytes \<Rightarrow> ('w sub_node \<times> bool) go" where
  "sub_switch um n cmd content =
     (if cmd = CMD_SET_PRO then go_bind (sub_onSetProEvent um n content) (\<lambda>n'. Ret (n', False))
      else if cmd = CMD_TICK then go_bind (sub_asyncSend n packDataTickOk) (\<lambda>n'. Ret (n', False))
      else go_bind (sub_asyncSend n (Pack CMD_ERROR (sub_unsupported cmd))) (\<lambda>n'. Ret (n', True)))"

lemma sub_close_fields [simp]:
  "sn_recvBuf (sub_close n) = sn_recvBuf n"
  "sn_topics (sub_close n) = sn_topics n"
  "sn_sendQueue (sub_close n) = sn_sendQueue n"
  by (simp_all add: sub_close_def Let_def)

lemma sub_send_fields [simp]:
  "sn_recvBuf (fst (sub_send n d)) = sn_recvBuf n"
  "sn_topics (fst (sub_send n d)) = sn_topics n"
  "sn_sendQueue (fst (sub_send n d)) = sn_sendQueue n"
  "sn_queueClosed (fst (sub_send n d)) = sn_queueClosed n"
  "sn_status (fst (sub_send n d)) = sn_status n"
  "sn_world (fst (sub_send n d)) = sn_world n"
  "sn_onclose (fst (sub_send n d)) = sn_onclose n"
  by (simp_all add: sub_send_def split: prod.split)

lemma sub_addTopic_fields [simp]:
  "sn_recvBuf (sub_addTopic um n t) = sn_recvBuf n"
  "sn_sendQueue (sub_addTopic um n t) = sn_sendQueue n"
  "sn_queueClosed (sub_addTopic um n t) = sn_queueClosed n"
  "sn_status (sub_addTopic um n t) = sn_status n"
  "sn_conn (sub_addTopic um n t) = sn_conn n"
  by (simp_all add: sub_addTopic_def Let_def)

lemma sub_asyncSend_recvBuf: "sub_asyncSend n d = Ret n' \<Longrightarrow> sn_recvBuf n' = sn_recvBuf n"
  by (auto simp: sub_asyncSend_def sub_push_def split: if_splits)

lemma sub_switch_recvBuf: "sub_switch um n cmd c = Ret (n', d) \<Longrightarrow> sn_recvBuf n' = sn_recvBuf n"
  by (auto simp: sub_switch_def sub_onSetProEvent_def sub_onSetPro_def Let_def
      split: if_splits dest: sub_asyncSend_recvBuf)

function sub_loop :: "(string \<Rightarrow> string) \<Rightarrow> 'w sub_node \<Rightarrow> 'w sub_node go" where
  "sub_loop um n =
     (let size = length (sn_recvBuf n) in
      if size < 6 then Ret n
      else let clen = hdr_clen (sn_recvBuf n) in
      if int (length (sn_recvBuf n)) < clen + 4 then Ret n
      else let cmd = hdr_cmd (sn_recvBuf n) in
      if \<not> sub_hasCmd cmd then Ret (n\<lparr>sn_recvBuf := []\<rparr>)
      else go_bind (go_slice (sn_recvBuf n) 6 (clen + 4)) (\<lambda>content.
        go_bind (sub_switch um n cmd content) (\<lambda>(n', unsupported).
          if unsupported then Ret (n'\<lparr>sn_recvBuf := []\<rparr>)
          else sub_loop um (n'\<lparr>sn_recvBuf := drop (nat (clen + 4)) (sn_recvBuf n')\<rparr>))))"
  by pat_completeness auto
termination
  by (relation "measure (\<lambda>(um, n). length (sn_recvBuf n))")
    (auto simp: go_slice_Ret dest: sub_switch_recvBuf)

declare sub_loop.simps [simp del]

definition sub_onMessage :: "(string \<Rightarrow> string) \<Rightarrow> 'w sub_node \<Rightarrow> bytes \<Rightarrow> 'w sub_node go" where
  "sub_onMessage um n msg = sub_loop um (n\<lparr>sn_recvBuf := sn_recvBuf n @ msg\<rparr>)"

text \<open>The read loop: the reads the connection delivers, then the error that ends it.\<close>

definition sub_onConnect :: "(string \<Rightarrow> string) \<Rightarrow> 'w sub_node \<Rightarrow> bytes list \<Rightarrow> 'w sub_node go" where
  "sub_onConnect um n reads =
     go_bind (go_foldM (sub_onMessage um) n reads) (\<lambda>n'. Ret (sub_close n'))"

text \<open>
  One turn of the sending goroutine. Its \<open>select\<close> takes a message, or sees the context
  cancelled; the result says whether the goroutine goes on.
\<close>

datatype send_turn = TakeMsg | CtxDone

definition sub_asyncSendService :: "send_turn \<Rightarrow> 'w sub_node \<Rightarrow> ('w sub_node \<times> bool) go" where
  "sub_asyncSendService turn n =
     (if \<not> has_flag (sn_status n) tcpNodeOnline then Ret (n, False)
      else case turn of
        TakeMsg \<Rightarrow>
          (case sn_sendQueue n of
             [] \<Rightarrow> if sn_queueClosed n then Ret (n, False) else Block
           | msg # q \<Rightarrow>
               let n = n\<lparr>sn_sendQueue := q\<rparr>;
                   (c, r) = conn_write (sn_conn n) msg;
                   n = n\<lparr>sn_conn := c\<rparr>
               in case r of
                    Inl _ \<Rightarrow>
                      Ret (sub_close (n\<lparr>sn_sendFailureTimes := sn_sendFailureTimes n + 1\<rparr>), False)
                  | Inr sz \<Rightarrow> Ret (n, True))
      | CtxDone \<Rightarrow> if length (sn_sendQueue n) \<le> 0 then Ret (n, False) else Ret (n, True))"

subsection \<open>The node is a frame reader\<close>

definition sub_accepts :: "int64 \<times> bytes \<Rightarrow> bool" where
  "sub_accepts f \<longleftrightarrow> frame_fits f \<and> fst f \<in> {CMD_SET_PRO, CMD_TICK}"

definition sub_handle :: "(string \<Rightarrow> string) \<Rightarrow> 'w sub_node \<Rightarrow> int64 \<times> bytes \<Rightarrow> 'w sub_node go" where
  "sub_handle um n f = go_bind (sub_switch um n (fst f) (snd f)) (\<lambda>(n', _). Ret n')"

lemma sub_accepts_hasCmd: "sub_accepts f \<Longrightarrow> sub_hasCmd (fst f)"
  by (auto simp: sub_accepts_def sub_hasCmd_def)

lemma sub_switch_accepted:
  "sub_accepts f \<Longrightarrow> sub_switch um n (fst f) (snd f) = Ret (n', d) \<Longrightarrow> \<not> d"
  by (auto simp: sub_accepts_def sub_switch_def cmd_defs split: if_splits)

lemma sub_ops_set_recvBuf:
  "fst (sub_send (n\<lparr>sn_recvBuf := b\<rparr>) d) = (fst (sub_send n d))\<lparr>sn_recvBuf := b\<rparr>"
  "sub_addTopic um (n\<lparr>sn_recvBuf := b\<rparr>) t = (sub_addTopic um n t)\<lparr>sn_recvBuf := b\<rparr>"
  "sub_close (n\<lparr>sn_recvBuf := b\<rparr>) = (sub_close n)\<lparr>sn_recvBuf := b\<rparr>"
  "sub_asyncSend (n\<lparr>sn_recvBuf := b\<rparr>) d =
     go_bind (sub_asyncSend n d) (\<lambda>n'. Ret (n'\<lparr>sn_recvBuf := b\<rparr>))"
  by (simp_all add: sub_send_def sub_addTopic_def sub_close_def sub_asyncSend_def sub_push_def
      Let_def split: prod.split)

lemma sub_onSetProEvent_simps:
  "sub_onSetProEvent um n [] = Panic IndexOutOfRange"
  "sub_onSetProEvent um n (flag # rest) =
     Ret (if flag = FlagSetPro then sub_onSetPro um n (string_of rest)
          else if flag = FlagPing then sub_close (fst (sub_send n packDataSetPro))
          else sub_close n)"
  by (simp_all add: sub_onSetProEvent_def go_index_def go_slice_def Let_def)

lemma sub_onSetProEvent_set_recvBuf:
  "sub_onSetProEvent um (n\<lparr>sn_recvBuf := b\<rparr>) d =
     go_bind (sub_onSetProEvent um n d) (\<lambda>n'. Ret (n'\<lparr>sn_recvBuf := b\<rparr>))"
  by (cases d) (simp_all add: sub_onSetProEvent_simps sub_onSetPro_def sub_ops_set_recvBuf)

lemma sub_handle_set_recvBuf:
  "sub_handle um (n\<lparr>sn_recvBuf := b\<rparr>) f =
     go_bind (sub_handle um n f) (\<lambda>n'. Ret (n'\<lparr>sn_recvBuf := b\<rparr>))"
  by (simp add: sub_handle_def sub_switch_def sub_onSetProEvent_set_recvBuf sub_ops_set_recvBuf
      go_simps)

lemma sub_loop_waits:
  assumes "frame_fits f" and "strict_prefix (sn_recvBuf n) (enc_frame f)"
  shows "sub_loop um n = Ret n"
  using partial_header [OF assms] by (subst sub_loop.simps) (auto simp: Let_def)

lemma sub_loop_consumes:
  assumes "sub_accepts f" and "sn_recvBuf n = enc_frame f @ rest"
  shows "sub_loop um n = go_bind (sub_handle um n f) (\<lambda>n'. sub_loop um (n'\<lparr>sn_recvBuf := rest\<rparr>))"
proof -
  note h = whole_header [OF _ assms(2)]
  have fits: "frame_fits f" using assms(1) by (simp add: sub_accepts_def)
  have "sub_loop um n = go_bind (sub_switch um n (fst f) (snd f)) (\<lambda>(n', unsupported).
      if unsupported then Ret (n'\<lparr>sn_recvBuf := []\<rparr>)
      else sub_loop um (n'\<lparr>sn_recvBuf := drop (nat (hdr_clen (sn_recvBuf n) + 4)) (sn_recvBuf n')\<rparr>))"
    using h(1,4) [OF fits] h(3,5) [OF fits] sub_accepts_hasCmd [OF assms(1)]
    by (subst sub_loop.simps) (simp add: Let_def)
  also have "\<dots> = go_bind (sub_switch um n (fst f) (snd f))
      (\<lambda>(n', _). sub_loop um (n'\<lparr>sn_recvBuf := rest\<rparr>))"
  proof (rule go_bind_cong_Ret)
    fix x
    assume x: "sub_switch um n (fst f) (snd f) = Ret x"
    obtain n' d where "x = (n', d)" by (cases x)
    with x sub_switch_accepted [OF assms(1)] sub_switch_recvBuf h(6) [OF fits]
    show "(case x of (n', unsupported) \<Rightarrow>
        if unsupported then Ret (n'\<lparr>sn_recvBuf := []\<rparr>)
        else sub_loop um (n'\<lparr>sn_recvBuf := drop (nat (hdr_clen (sn_recvBuf n) + 4)) (sn_recvBuf n')\<rparr>)) =
      (case x of (n', _) \<Rightarrow> sub_loop um (n'\<lparr>sn_recvBuf := rest\<rparr>))"
      by fastforce
  qed
  finally show ?thesis by (simp add: sub_handle_def go_simps case_prod_beta')
qed

interpretation sub_reader: frame_reader
  sn_recvBuf "\<lambda>b n. n\<lparr>sn_recvBuf := b\<rparr>" sub_accepts "sub_handle um" "sub_loop um" "sub_onMessage um"
proof unfold_locales
  fix n :: "'w sub_node"
  assume "sn_recvBuf n = []"
  then show "sub_loop um n = Ret n" by (subst sub_loop.simps) (simp add: Let_def)
next
  fix n :: "'w sub_node" and f
  assume "sub_accepts f" and "strict_prefix (sn_recvBuf n) (enc_frame f)"
  then show "sub_loop um n = Ret n" by (intro sub_loop_waits) (simp_all add: sub_accepts_def)
qed (simp_all add: sub_handle_set_recvBuf sub_loop_consumes sub_onMessage_def)

subsection \<open>Well-formed nodes\<close>

text \<open>
  A node is online exactly while its channel is open; a closed node has closed its connection;
  the channel never holds more than its capacity; no topic is registered twice.
\<close>

definition sub_wf :: "'w sub_node \<Rightarrow> bool" where
  "sub_wf n \<longleftrightarrow>
     (has_flag (sn_status n) tcpNodeOnline \<longleftrightarrow> \<not> sn_queueClosed n) \<and>
     (sn_queueClosed n \<longrightarrow> conn_closed (sn_conn n)) \<and>
     length (sn_sendQueue n) \<le> tcpMaxSendQueue \<and> distinct (sn_topics n)"

lemma topic_known_iff: "topic_known vs t \<longleftrightarrow> t \<in> set vs"
  by (induction vs) auto

lemma sub_wf_recvBuf [simp]: "sub_wf (n\<lparr>sn_recvBuf := b\<rparr>) = sub_wf n"
  by (simp add: sub_wf_def)

lemma sub_wf_newNode: "sub_wf (sub_newNode now c w [NodeClose f])"
  using sub_online.set_has [of 0]
  by (simp add: sub_wf_def sub_newNode_def NodeClose_def tcpMaxSendQueue_def)

lemma sub_wf_close: "sub_wf n \<Longrightarrow> sub_wf (sub_close n)"
  by (auto simp: sub_wf_def sub_close_def conn_close_def sub_online.flip_has Let_def)

lemma conn_closed_write: "conn_closed (fst (conn_write c d)) = conn_closed c"
  by (simp add: conn_write_def)

lemma sub_wf_send: "sub_wf n \<Longrightarrow> sub_wf (fst (sub_send n d))"
  by (auto simp: sub_wf_def sub_send_def conn_closed_write case_prod_beta)

lemma sub_wf_addTopic: "sub_wf n \<Longrightarrow> sub_wf (sub_addTopic um n t)"
  by (auto simp: sub_wf_def sub_addTopic_def topic_known_iff Let_def)

lemma sub_wf_asyncSend: "sub_wf n \<Longrightarrow> sub_asyncSend n d = Ret n' \<Longrightarrow> sub_wf n'"
  by (auto simp: sub_wf_def sub_asyncSend_def sub_push_def split: if_splits)

lemma sub_wf_switch: "sub_wf n \<Longrightarrow> sub_switch um n cmd c = Ret (n', d) \<Longrightarrow> sub_wf n'"
  by (auto simp: sub_switch_def sub_onSetProEvent_def sub_onSetPro_def Let_def
      intro: sub_wf_close sub_wf_send sub_wf_addTopic sub_wf_asyncSend split: if_splits)

lemma sub_loop_Ret_cases:
  assumes "sub_loop um n = Ret n'"
  obtains "n' = n" | "n' = n\<lparr>sn_recvBuf := []\<rparr>"
  | cmd c n1 where "sub_switch um n cmd c = Ret (n1, True)" "n' = n1\<lparr>sn_recvBuf := []\<rparr>"
  | cmd c n1 k where "sub_switch um n cmd c = Ret (n1, False)" "0 < k" "sn_recvBuf n \<noteq> []"
      "sub_loop um (n1\<lparr>sn_recvBuf := drop k (sn_recvBuf n)\<rparr>) = Ret n'"
proof (cases "6 \<le> length (sn_recvBuf n) \<and> \<not> int (length (sn_recvBuf n)) < hdr_clen (sn_recvBuf n) + 4
    \<and> sub_hasCmd (hdr_cmd (sn_recvBuf n))")
  case False
  with assms that(1,2) show thesis by (subst (asm) sub_loop.simps) (auto simp: Let_def split: if_splits)
next
  case True
  with assms obtain c n1 d where
    c: "go_slice (sn_recvBuf n) 6 (hdr_clen (sn_recvBuf n) + 4) = Ret c"
    and sw: "sub_switch um n (hdr_cmd (sn_recvBuf n)) c = Ret (n1, d)"
    and r: "(if d then Ret (n1\<lparr>sn_recvBuf := []\<rparr>) else sub_loop um
      (n1\<lparr>sn_recvBuf := drop (nat (hdr_clen (sn_recvBuf n) + 4)) (sn_recvBuf n1)\<rparr>)) = Ret n'"
    by (subst (asm) sub_loop.simps) (auto simp: Let_def)
  have "sn_recvBuf n1 = sn_recvBuf n" using sw by (rule sub_switch_recvBuf)
  moreover have "0 < nat (hdr_clen (sn_recvBuf n) + 4)" using c by (simp add: go_slice_Ret)
  moreover have "sn_recvBuf n \<noteq> []" using True by auto
  ultimately show thesis using that(3) that(4) [of _ c n1 "nat (hdr_clen (sn_recvBuf n) + 4)"] sw r
    by (cases d) auto
qed

lemma sub_wf_loop: "sub_wf n \<Longrightarrow> sub_loop um n = Ret n' \<Longrightarrow> sub_wf n'"
proof (induction "length (sn_recvBuf n)" arbitrary: n rule: less_induct)
  case less
  from less.prems(2) show ?case
  proof (cases rule: sub_loop_Ret_cases)
    case (4 cmd c n1 k)
    then show ?thesis
      using less.hyps [of "n1\<lparr>sn_recvBuf := drop k (sn_recvBuf n)\<rparr>"] less.prems(1)
      by (auto dest: sub_wf_switch)
  qed (use less.prems(1) in \<open>auto dest: sub_wf_switch\<close>)
qed

lemma sub_wf_onMessage: "sub_wf n \<Longrightarrow> sub_onMessage um n msg = Ret n' \<Longrightarrow> sub_wf n'"
  using sub_wf_loop [of "n\<lparr>sn_recvBuf := sn_recvBuf n @ msg\<rparr>"] by (simp add: sub_onMessage_def)

text \<open>A send from the goroutine that owns the node never hits a closed channel.\<close>

lemma sub_asyncSend_no_panic: "sub_wf n \<Longrightarrow> sub_asyncSend n d \<noteq> Panic p"
  by (auto simp: sub_wf_def sub_asyncSend_def sub_push_def)

subsection \<open>The sending goroutine\<close>

fun sub_send_run :: "send_turn list \<Rightarrow> 'w sub_node \<Rightarrow> 'w sub_node go" where
  "sub_send_run [] n = Ret n"
| "sub_send_run (t # ts) n =
     go_bind (sub_asyncSendService t n) (\<lambda>(n', goes_on). if goes_on then sub_send_run ts n' else Ret n')"

lemma send_take_up:
  assumes "has_flag (sn_status n) tcpNodeOnline" and "conn_up (sn_conn n)"
    and "sn_sendQueue n = msg # q"
  shows "sub_asyncSendService TakeMsg n =
    Ret (n\<lparr>sn_sendQueue := q, sn_conn := (sn_conn n)\<lparr>conn_out := conn_out (sn_conn n) @ [msg]\<rparr>\<rparr>, True)"
  using assms by (simp add: sub_asyncSendService_def Let_def)

lemma sub_close_out [simp]: "conn_out (sn_conn (sub_close n)) = conn_out (sn_conn n)"
  by (simp add: sub_close_def Let_def)

text \<open>What one turn does to the messages: nothing, or it takes the first one off the queue.\<close>

lemma send_turn_effect:
  assumes "sub_asyncSendService t n = Ret (n', goes_on)"
  obtains "sn_sendQueue n' = sn_sendQueue n" "conn_out (sn_conn n') = conn_out (sn_conn n)"
  | msg q where "sn_sendQueue n = msg # q" "sn_sendQueue n' = q"
      "conn_out (sn_conn n') = conn_out (sn_conn n) @ [msg]"
  | msg q where "sn_sendQueue n = msg # q" "sn_sendQueue n' = q" "\<not> goes_on"
      "conn_out (sn_conn n') = conn_out (sn_conn n)"
proof (cases "has_flag (sn_status n) tcpNodeOnline \<and> t = TakeMsg \<and> sn_sendQueue n \<noteq> []")
  case False
  with assms that(1) show thesis
    by (auto simp: sub_asyncSendService_def split: if_splits send_turn.splits list.splits)
next
  case True
  then obtain msg q where q: "sn_sendQueue n = msg # q" by (cases "sn_sendQueue n") auto
  show thesis
  proof (cases "conn_up (sn_conn n)")
    case up: True
    with True q assms show thesis by (intro that(2) [of msg q]) (auto simp: send_take_up)
  next
    case down: False
    with True q assms show thesis
      by (intro that(3) [of msg q]) (auto simp: sub_asyncSendService_def Let_def)
  qed
qed

text \<open>
  Whatever turns the goroutine takes, what it wrote is a prefix of what was queued, in order,
  each message once; a message that is neither written nor still queued was the one whose write
  failed.
\<close>

lemma send_run_prefix:
  assumes "sub_send_run ts n = Ret n'"
  shows "\<exists>k lost. conn_out (sn_conn n') = conn_out (sn_conn n) @ take k (sn_sendQueue n) \<and>
    sn_sendQueue n' = drop (k + lost) (sn_sendQueue n) \<and> lost \<le> 1"
  using assms
proof (induction ts arbitrary: n)
  case Nil
  then have "n' = n" by simp
  then show ?case by (intro exI [of _ 0]) simp
next
  case (Cons t ts)
  then obtain m b where m: "sub_asyncSendService t n = Ret (m, b)"
    and rest: "(if b then sub_send_run ts m else Ret m) = Ret n'" by auto
  have run: "\<exists>k lost. conn_out (sn_conn n') = conn_out (sn_conn m) @ take k (sn_sendQueue m) \<and>
      sn_sendQueue n' = drop (k + lost) (sn_sendQueue m) \<and> lost \<le> 1"
  proof (cases b)
    case True
    with rest show ?thesis by (intro Cons.IH) simp
  next
    case False
    with rest have "n' = m" by simp
    then show ?thesis by (intro exI [of _ 0]) simp
  qed
  from m show ?case
  proof (cases rule: send_turn_effect)
    case 1
    with run show ?thesis by simp
  next
    case (2 msg q)
    from run obtain k lost where "conn_out (sn_conn n') = conn_out (sn_conn m) @ take k q"
      "sn_sendQueue n' = drop (k + lost) q" "lost \<le> 1" using 2 by auto
    with 2 show ?thesis by (intro exI [of _ "Suc k"] exI [of _ lost]) simp
  next
    case (3 msg q)
    with rest have "n' = m" by simp
    with 3 show ?thesis by (intro exI [of _ 0] exI [of _ 1]) simp
  qed
qed

lemma send_run_drains:
  assumes "has_flag (sn_status n) tcpNodeOnline" and "conn_up (sn_conn n)"
  shows "sub_send_run (replicate (length (sn_sendQueue n)) TakeMsg) n =
    Ret (n\<lparr>sn_sendQueue := [],
           sn_conn := (sn_conn n)\<lparr>conn_out := conn_out (sn_conn n) @ sn_sendQueue n\<rparr>\<rparr>)"
  using assms
proof (induction "sn_sendQueue n" arbitrary: n)
  case Nil
  then show ?case by (cases n) auto
next
  case (Cons msg q)
  let ?m = "n\<lparr>sn_sendQueue := q, sn_conn := (sn_conn n)\<lparr>conn_out := conn_out (sn_conn n) @ [msg]\<rparr>\<rparr>"
  have "sub_send_run (replicate (length q) TakeMsg) ?m =
      Ret (?m\<lparr>sn_sendQueue := [], sn_conn := (sn_conn ?m)\<lparr>conn_out := conn_out (sn_conn ?m) @ q\<rparr>\<rparr>)"
    using Cons.hyps(1) [of ?m] Cons.prems by simp
  moreover have "sub_asyncSendService TakeMsg n = Ret (?m, True)"
    using Cons.prems Cons.hyps(2) by (intro send_take_up) simp_all
  ultimately show ?case using Cons.hyps(2) [symmetric] by simp
qed

subsection \<open>A send and a close that interleave\<close>

text \<open>
  \<open>asyncSend\<close> tests the status under the lock, releases it and only then waits for room and
  sends. Between the two another goroutine may close the node or take messages off the queue.
\<close>

datatype send_pc = SendStart | SendChecked | SendReturned | SendPanicked go_panic

inductive send_step :: "bytes \<Rightarrow> 'w sub_node \<times> send_pc \<Rightarrow> 'w sub_node \<times> send_pc \<Rightarrow> bool" for data where
  check_off: "\<not> has_flag (sn_status n) tcpNodeOnline \<Longrightarrow>
     send_step data (n, SendStart) (n, SendReturned)"
| check_on: "has_flag (sn_status n) tcpNodeOnline \<Longrightarrow>
     send_step data (n, SendStart) (n, SendChecked)"
| push: "sub_push n data = Ret n' \<Longrightarrow> send_step data (n, SendChecked) (n', SendReturned)"
| push_panic: "sub_push n data = Panic p \<Longrightarrow> send_step data (n, SendChecked) (n, SendPanicked p)"
| closed: "send_step data (n, pc) (sub_close n, pc)"
| taken: "sn_sendQueue n = m # q \<Longrightarrow> send_step data (n, pc) (n\<lparr>sn_sendQueue := q\<rparr>, pc)"

inductive_cases send_step_StartE: "send_step data (n, SendStart) s"
inductive_cases send_step_CheckedE: "send_step data (n, SendChecked) s"

lemma sub_close_closes: "has_flag (sn_status n) tcpNodeOnline \<Longrightarrow>
    sn_queueClosed (sub_close n) \<and> \<not> has_flag (sn_status (sub_close n)) tcpNodeOnline"
  by (simp add: sub_close_def Let_def sub_online.flip_has)

lemma send_close_race_run:
  assumes "has_flag (sn_status n) tcpNodeOnline" and "length (sn_sendQueue n) < tcpMaxSendQueue"
  shows "(send_step data)\<^sup>*\<^sup>* (n, SendStart) (sub_close n, SendPanicked SendOnClosedChannel)"
proof -
  have "send_step data (n, SendStart) (n, SendChecked)" using assms(1) by (rule check_on)
  moreover have "send_step data (n, SendChecked) (sub_close n, SendChecked)" by (rule closed)
  moreover have
    "send_step data (sub_close n, SendChecked) (sub_close n, SendPanicked SendOnClosedChannel)"
    using assms sub_close_closes [OF assms(1)] by (intro push_panic) (simp add: sub_push_def)
  ultimately show ?thesis by (meson converse_rtranclp_into_rtranclp r_into_rtranclp)
qed

subsection \<open>A node runs its close functions once\<close>

text \<open>
  However an operation of the node ends, either the node's online flag and the world are as
  before, or the node was online, is not any more, and the close functions ran once.
\<close>

definition closes_once :: "'w sub_node \<Rightarrow> 'w sub_node \<Rightarrow> bool" where
  "closes_once n n' \<longleftrightarrow>
     sn_onclose n' = sn_onclose n \<and>
     (has_flag (sn_status n') tcpNodeOnline = has_flag (sn_status n) tcpNodeOnline \<and>
        sn_world n' = sn_world n \<or>
      has_flag (sn_status n) tcpNodeOnline \<and> \<not> has_flag (sn_status n') tcpNodeOnline \<and>
        sn_world n' = foldl (\<lambda>w f. f w) (sn_world n) (sn_onclose n))"

lemma closes_once_refl [intro]: "closes_once n n"
  by (simp add: closes_once_def)

lemma closes_once_trans [trans]: "closes_once n m \<Longrightarrow> closes_once m n' \<Longrightarrow> closes_once n n'"
  by (auto simp: closes_once_def)

lemma closes_once_close: "closes_once n (sub_close n)"
  by (simp add: closes_once_def sub_close_def Let_def sub_online.flip_has)

lemma closes_once_send: "closes_once n (fst (sub_send n d))"
  by (simp add: closes_once_def)

lemma closes_once_recvBuf: "closes_once n n' \<Longrightarrow> closes_once n (n'\<lparr>sn_recvBuf := b\<rparr>)"
  by (simp add: closes_once_def)

lemma closes_once_asyncSend: "sub_asyncSend n d = Ret n' \<Longrightarrow> closes_once n n'"
  by (auto simp: closes_once_def sub_asyncSend_def sub_push_def split: if_splits)

lemma closes_once_addTopic: "closes_once n (sub_addTopic um n t)"
  by (simp add: closes_once_def sub_addTopic_def Let_def)

lemma closes_once_onSetProEvent: "sub_onSetProEvent um n d = Ret n' \<Longrightarrow> closes_once n n'"
  by (cases d) (auto simp: sub_onSetProEvent_simps sub_onSetPro_def
      intro: closes_once_trans [OF closes_once_send] closes_once_close closes_once_addTopic
      split: if_splits)

lemma closes_once_switch: "sub_switch um n cmd c = Ret (n', d) \<Longrightarrow> closes_once n n'"
  by (auto simp: sub_switch_def split: if_splits
      dest: closes_once_onSetProEvent closes_once_asyncSend)

lemma closes_once_loop: "sub_loop um n = Ret n' \<Longrightarrow> closes_once n n'"
proof (induction "length (sn_recvBuf n)" arbitrary: n rule: less_induct)
  case less
  from less.prems show ?case
  proof (cases rule: sub_loop_Ret_cases)
    case (4 cmd c n1 k)
    let ?m = "n1\<lparr>sn_recvBuf := drop k (sn_recvBuf n)\<rparr>"
    from 4 have "closes_once n ?m" by (intro closes_once_recvBuf closes_once_switch)
    also have "closes_once ?m n'" using 4 by (intro less.hyps) auto
    finally show ?thesis .
  qed (auto intro: closes_once_recvBuf closes_once_switch)
qed

lemma closes_once_onMessage: "sub_onMessage um n msg = Ret n' \<Longrightarrow> closes_once n n'"
  using closes_once_trans [OF closes_once_recvBuf [OF closes_once_refl]]
  by (auto simp: sub_onMessage_def dest: closes_once_loop)

lemma closes_once_turn: "sub_asyncSendService t n = Ret (n', b) \<Longrightarrow> closes_once n n'"
proof -
  assume t: "sub_asyncSendService t n = Ret (n', b)"
  have fields: "closes_once n (sub_close (n\<lparr>sn_sendQueue := q, sn_conn := c, sn_sendFailureTimes := k\<rparr>))"
    for q c k by (simp add: closes_once_def sub_close_def Let_def sub_online.flip_has)
  have "closes_once n (n\<lparr>sn_sendQueue := q, sn_conn := c\<rparr>)" for q c
    by (simp add: closes_once_def)
  with t fields show ?thesis
    by (auto simp: sub_asyncSendService_def Let_def
        split: if_splits send_turn.splits list.splits sum.splits prod.splits)
qed

subsection \<open>Properties\<close>

text \<open>
  C16: A subscriber's stream of registrations and heartbeats is handled the same way however the
  connection cuts it into reads, also when the last frame is still incomplete: its bytes wait in
  the buffer.
\<close>

theorem subscribe_reassembly:
  assumes "q = [] \<or> (\<exists>f. sub_accepts f \<and> strict_prefix q (enc_frame f))"
    and "\<forall>f \<in> set fs. sub_accepts f"
    and "wait_at (sn_recvBuf n) fs q"
    and "sn_recvBuf n @ concat chunks = frame_stream fs @ q"
  shows "go_foldM (sub_onMessage um) n chunks =
    go_bind (go_foldM (sub_handle um) n fs) (\<lambda>n'. Ret (n'\<lparr>sn_recvBuf := q\<rparr>))"
  using assms by (rule sub_reader.reassembly)

definition demo_sub :: "unit sub_node" where
  "demo_sub = sub_newNode 0 new_conn () [NodeClose id]"

theorem subscribe_reassembly_witness:
  "go_foldM (sub_onMessage id) demo_sub
     [take 4 (enc_frame (CMD_SET_PRO, 0 # bytes_of ''db.t'')),
      drop 4 (enc_frame (CMD_SET_PRO, 0 # bytes_of ''db.t'')), take 5 (enc_frame (CMD_TICK, []))] =
   go_bind (go_foldM (sub_handle id) demo_sub [(CMD_SET_PRO, 0 # bytes_of ''db.t'')])
     (\<lambda>n'. Ret (n'\<lparr>sn_recvBuf := take 5 (enc_frame (CMD_TICK, []))\<rparr>))"
proof (rule subscribe_reassembly)
  have "length (take 5 (enc_frame (CMD_TICK, []))) = 5" by (simp add: enc_frame_def)
  moreover have "length (enc_frame (CMD_TICK, [])) = 6" by (simp add: enc_frame_def)
  ultimately have "take 5 (enc_frame (CMD_TICK, [])) \<noteq> enc_frame (CMD_TICK, [])" by auto
  then have "strict_prefix (take 5 (enc_frame (CMD_TICK, []))) (enc_frame (CMD_TICK, []))"
    by (simp add: strict_prefix_def take_is_prefix)
  moreover have "sub_accepts (CMD_TICK, [])" by (simp add: sub_accepts_def frame_fits_def cmd_defs)
  ultimately show "take 5 (enc_frame (CMD_TICK, [])) = [] \<or>
      (\<exists>f. sub_accepts f \<and> strict_prefix (take 5 (enc_frame (CMD_TICK, []))) (enc_frame f))"
    by blast
qed (auto simp: sub_accepts_def frame_fits_def cmd_defs demo_sub_def sub_newNode_def NodeClose_def
    wait_at_def enc_frame_def strict_prefix_def Pack_not_Nil [symmetric])

text \<open>
  C17: The invariant of a subscriber holds in every state its reads lead to: the node is online
  exactly while its channel is open, a closed node has closed its connection, the channel never
  holds more than its capacity, and no topic is registered twice.
\<close>

theorem node_invariant:
  assumes "go_foldM (sub_onMessage um) (sub_newNode now c w [NodeClose f]) chunks = Ret n"
  shows "sub_wf n"
  by (rule go_foldM_inv [where P = sub_wf, OF _ sub_wf_newNode assms]) (rule sub_wf_onMessage)

theorem node_invariant_witness:
  "\<exists>n. go_foldM (sub_onMessage id) (sub_newNode 0 new_conn () [NodeClose id]) [[1, 2, 3]] = Ret n \<and> sub_wf n"
proof -
  have "go_foldM (sub_onMessage id) (sub_newNode 0 new_conn () [NodeClose id]) [[1, 2, 3]] =
      Ret ((sub_newNode 0 new_conn () [NodeClose id])\<lparr>sn_recvBuf := [1, 2, 3]\<rparr>)"
    by (simp add: sub_onMessage_def sub_loop.simps sub_newNode_def NodeClose_def Let_def)
  with node_invariant [OF this] show ?thesis by blast
qed

text \<open>
  The sending goroutine writes messages in the order they were queued, each at most once, and
  skips none: what it wrote is a prefix of the queue, the rest is still queued, apart from one
  message at most, the one whose write failed and closed the node.
\<close>

theorem send_order:
  assumes "sub_send_run ts n = Ret n'"
  shows "\<exists>k lost. conn_out (sn_conn n') = conn_out (sn_conn n) @ take k (sn_sendQueue n) \<and>
    sn_sendQueue n' = drop (k + lost) (sn_sendQueue n) \<and> lost \<le> 1"
  using assms by (rule send_run_prefix)

theorem send_order_witness:
  "\<exists>n'. sub_send_run [TakeMsg] (demo_sub\<lparr>sn_sendQueue := [[1], [2]]\<rparr>) = Ret n' \<and>
    (\<exists>k lost. conn_out (sn_conn n') = take k [[1], [2]] \<and> sn_sendQueue n' = drop (k + lost) [[1], [2]] \<and> lost \<le> 1)"
proof -
  let ?n = "demo_sub\<lparr>sn_sendQueue := [[1], [2]]\<rparr>"
  have "\<exists>n'. sub_send_run [TakeMsg] ?n = Ret n'"
    using send_take_up [of ?n "[1]" "[[2]]"] sub_online.set_has [of 0]
    by (simp add: demo_sub_def sub_newNode_def NodeClose_def)
  then obtain n' where n': "sub_send_run [TakeMsg] ?n = Ret n'" by blast
  from send_order [OF this] have "\<exists>k lost. conn_out (sn_conn n') = take k [[1], [2]] \<and>
      sn_sendQueue n' = drop (k + lost) [[1], [2]] \<and> lost \<le> 1"
    by (simp add: demo_sub_def sub_newNode_def NodeClose_def new_conn_def)
  with n' show ?thesis by blast
qed

text \<open>
  A node that is online and whose connection works gets everything that is queued for it: as many
  turns of the goroutine as there are messages write them all, in order.
\<close>

theorem send_all_queued:
  assumes "has_flag (sn_status n) tcpNodeOnline" and "conn_up (sn_conn n)"
  shows "sub_send_run (replicate (length (sn_sendQueue n)) TakeMsg) n =
    Ret (n\<lparr>sn_sendQueue := [],
           sn_conn := (sn_conn n)\<lparr>conn_out := conn_out (sn_conn n) @ sn_sendQueue n\<rparr>\<rparr>)"
  using assms by (rule send_run_drains)

theorem send_all_queued_witness:
  "sub_send_run [TakeMsg, TakeMsg] (demo_sub\<lparr>sn_sendQueue := [[1], [2]]\<rparr>) =
   Ret (demo_sub\<lparr>sn_sendQueue := [],
     sn_conn := (sn_conn demo_sub)\<lparr>conn_out := conn_out (sn_conn demo_sub) @ [[1], [2]]\<rparr>\<rparr>)"
proof -
  have "has_flag (sn_status (demo_sub\<lparr>sn_sendQueue := [[1], [2]]\<rparr>)) tcpNodeOnline"
    "conn_up (sn_conn (demo_sub\<lparr>sn_sendQueue := [[1], [2]]\<rparr>))"
    using sub_online.set_has [of 0] by (simp_all add: demo_sub_def sub_newNode_def NodeClose_def)
  from send_all_queued [OF this] show ?thesis by (simp add: numeral_2_eq_2)
qed

text \<open>
  C26: The status test of \<open>asyncSend\<close> does not protect its send. For every node that is online and has
  room, there is an interleaving in which the node is closed between the test and the send, and
  the sender, which is the goroutine that handles binlog events, panics on the closed channel.
\<close>

theorem send_close_race:
  assumes "has_flag (sn_status n) tcpNodeOnline" and "length (sn_sendQueue n) < tcpMaxSendQueue"
  shows "(send_step data)\<^sup>*\<^sup>* (n, SendStart) (sub_close n, SendPanicked SendOnClosedChannel)"
  using assms by (rule send_close_race_run)

theorem send_close_race_witness:
  "(send_step [1])\<^sup>*\<^sup>* (demo_sub, SendStart) (sub_close demo_sub, SendPanicked SendOnClosedChannel)"
  by (rule send_close_race)
    (use sub_online.set_has [of 0] in
      \<open>simp_all add: demo_sub_def sub_newNode_def NodeClose_def tcpMaxSendQueue_def\<close>)

end
