(* ===== verification/Subscribe_Groups.thy ===== *)
theory Subscribe_Groups
  imports Subscribe_Node
begin

text \<open>
  \<^verbatim>\<open>src/services/subscribe/groups.go\<close>: the list of connected subscribers. A node removes itself
  from the list while it closes, and \<open>close\<close> closes the nodes while it ranges over that same list,
  so the slice is modelled with its backing array: \<open>gr_arr\<close> are the cells up to the capacity,
  \<open>gr_len\<close> the length of the slice in them. Nodes are named by numbers, in the place of their
  addresses; \<open>gr_world\<close> is what the \<open>onRemove\<close> functions act on.

  \<open>grow\<close> is the capacity \<open>append\<close> gives the new array when the old one is full; Go only promises
  that it has room for the new element.
\<close>

subsection \<open>The list and its backing array\<close>

record 'v sub_groups =
  gr_arr :: "nat list"
  gr_len :: nat
  gr_unique :: int64
  gr_onRemove :: "(nat \<Rightarrow> 'v \<Rightarrow> 'v) list"
  gr_world :: 'v

definition groups_view :: "'v sub_groups \<Rightarrow> nat list" where
  "groups_view w = take (gr_len w) (gr_arr w)"

definition SetOnRemove :: "(nat \<Rightarrow> 'v \<Rightarrow> 'v) \<Rightarrow> 'v sub_groups \<Rightarrow> 'v sub_groups" where
  "SetOnRemove f w = w\<lparr>gr_onRemove := gr_onRemove w @ [f]\<rparr>"

definition newGroups :: "'v \<Rightarrow> ('v sub_groups \<Rightarrow> 'v sub_groups) list \<Rightarrow> 'v sub_groups" where
  "newGroups v opts =
     foldl (\<lambda>w f. f w)
       \<lparr>gr_arr = [], gr_len = 0, gr_unique = 0, gr_onRemove = [], gr_world = v\<rparr> opts"

fun index_of :: "nat list \<Rightarrow> nat \<Rightarrow> nat option" where
  "index_of [] x = None"
| "index_of (y # ys) x = (if y = x then Some 0 else map_option Suc (index_of ys x))"

text \<open>
  \<open>append(g[:i], g[i+1:]...)\<close>: the result fits the array, so the cells after \<open>i\<close> move one to the
  left in place and the last one keeps its old value.
\<close>

definition delete_at :: "nat \<Rightarrow> 'v sub_groups \<Rightarrow> 'v sub_groups" where
  "delete_at i w =
     w\<lparr>gr_arr := take i (gr_arr w) @ drop (Suc i) (take (gr_len w) (gr_arr w))
                 @ drop (gr_len w - 1) (gr_arr w),
       gr_len := gr_len w - 1\<rparr>"

definition groups_remove :: "nat \<Rightarrow> 'v sub_groups \<Rightarrow> 'v sub_groups" where
  "groups_remove node w =
     (let w = (case index_of (groups_view w) node of None \<Rightarrow> w | Some i \<Rightarrow> delete_at i w)
      in w\<lparr>gr_world := foldl (\<lambda>v f. f node v) (gr_world w) (gr_onRemove w)\<rparr>)"

text \<open>\<open>append(g, node)\<close>\<close>

definition groups_append :: "(nat \<Rightarrow> nat) \<Rightarrow> nat \<Rightarrow> 'v sub_groups \<Rightarrow> 'v sub_groups" where
  "groups_append grow node w =
     (if gr_len w < length (gr_arr w)
      then w\<lparr>gr_arr := (gr_arr w)[gr_len w := node], gr_len := Suc (gr_len w)\<rparr>
      else w\<lparr>gr_arr := take (gr_len w) (gr_arr w) @ node # replicate (grow (gr_len w) - Suc (gr_len w)) 0,
             gr_len := Suc (gr_len w)\<rparr>)"

subsection \<open>The nodes and the list together\<close>

record 'v sub_sys =
  ss_nodes :: "nat \<Rightarrow> 'v sub_groups sub_node"
  ss_groups :: "'v sub_groups"
  ss_next :: nat

text \<open>An operation of one node, with the list as the world its callbacks see.\<close>

definition on_node ::
    "nat \<Rightarrow> ('v sub_groups sub_node \<Rightarrow> 'v sub_groups sub_node go) \<Rightarrow> 'v sub_sys \<Rightarrow> 'v sub_sys go" where
  "on_node i f s =
     go_bind (f ((ss_nodes s i)\<lparr>sn_world := ss_groups s\<rparr>)) (\<lambda>n.
       Ret (s\<lparr>ss_nodes := (ss_nodes s)(i := n), ss_groups := sn_world n\<rparr>))"

definition node_close :: "nat \<Rightarrow> 'v sub_sys \<Rightarrow> 'v sub_sys" where
  "node_close i s =
     (let n = sub_close ((ss_nodes s i)\<lparr>sn_world := ss_groups s\<rparr>)
      in s\<lparr>ss_nodes := (ss_nodes s)(i := n), ss_groups := sn_world n\<rparr>)"

definition groups_onConnect ::
    "(nat \<Rightarrow> nat) \<Rightarrow> int64 \<Rightarrow> conn \<Rightarrow> 'v sub_sys \<Rightarrow> 'v sub_sys" where
  "groups_onConnect grow now c s =
     (let node = ss_next s;
          n = sub_newNode now c (ss_groups s) [NodeClose (groups_remove node)]
      in s\<lparr>ss_nodes := (ss_nodes s)(node := n),
           ss_groups := groups_append grow node (ss_groups s),
           ss_next := Suc node\<rparr>)"

definition groups_sendAll ::
    "regexp \<Rightarrow> string \<Rightarrow> bytes \<Rightarrow> 'v sub_sys \<Rightarrow> 'v sub_sys go" where
  "groups_sendAll rx table data s =
     go_foldM (\<lambda>s i. if MatchFilters rx (sn_topics (ss_nodes s i)) table
                     then on_node i (\<lambda>n. sub_asyncSend n data) s else Ret s)
       s (groups_view (ss_groups s))"

definition groups_asyncSend :: "bytes \<Rightarrow> 'v sub_sys \<Rightarrow> 'v sub_sys go" where
  "groups_asyncSend data s =
     go_foldM (\<lambda>s i. on_node i (\<lambda>n. sub_asyncSend n data) s) s (groups_view (ss_groups s))"

text \<open>
  \<open>for _, group := range groups.g\<close> fixes the length when the loop starts and reads each cell of
  the array when its turn comes.
\<close>

fun close_range :: "nat list \<Rightarrow> 'v sub_sys \<Rightarrow> 'v sub_sys" where
  "close_range [] s = s"
| "close_range (i # is) s = close_range is (node_close (gr_arr (ss_groups s) ! i) s)"

definition groups_close :: "'v sub_sys \<Rightarrow> 'v sub_sys" where
  "groups_close s =
     (let s = close_range [0..<gr_len (ss_groups s)] s
      in s\<lparr>ss_groups := (ss_groups s)\<lparr>gr_arr := [], gr_len := 0\<rparr>\<rparr>)"

definition groups_reload :: "'v sub_sys \<Rightarrow> 'v sub_sys" where
  "groups_reload s = groups_close s"

subsection \<open>The slice implements a list\<close>

text \<open>
  What the nodes and the service rely on: the registry shows a list, adding appends, removing
  drops the first occurrence.
\<close>

locale registry =
  fixes view :: "'w \<Rightarrow> nat list"
    and ok :: "'w \<Rightarrow> bool"
    and add :: "nat \<Rightarrow> 'w \<Rightarrow> 'w"
    and remove :: "nat \<Rightarrow> 'w \<Rightarrow> 'w"
  assumes view_add: "ok w \<Longrightarrow> view (add x w) = view w @ [x]"
    and view_remove: "ok w \<Longrightarrow> view (remove x w) = remove1 x (view w)"
    and ok_add: "ok w \<Longrightarrow> ok (add x w)"
    and ok_remove: "ok w \<Longrightarrow> ok (remove x w)"
begin

lemma set_add: "ok w \<Longrightarrow> set (view (add x w)) = insert x (set (view w))"
  by (simp add: view_add)

lemma set_remove: "ok w \<Longrightarrow> distinct (view w) \<Longrightarrow> set (view (remove x w)) = set (view w) - {x}"
  by (simp add: view_remove)

lemma distinct_add: "ok w \<Longrightarrow> distinct (view w) \<Longrightarrow> x \<notin> set (view w) \<Longrightarrow> distinct (view (add x w))"
  by (simp add: view_add)

lemma distinct_remove: "ok w \<Longrightarrow> distinct (view w) \<Longrightarrow> distinct (view (remove x w))"
  by (simp add: view_remove)

lemma remove_add: "ok w \<Longrightarrow> x \<notin> set (view w) \<Longrightarrow> view (remove x (add x w)) = view w"
  by (simp add: view_add view_remove ok_add remove1_append)

end

definition slice_ok :: "'v sub_groups \<Rightarrow> bool" where
  "slice_ok w \<longleftrightarrow> gr_len w \<le> length (gr_arr w)"

lemma index_of_Some: "index_of xs x = Some i \<Longrightarrow>
    i < length xs \<and> remove1 x xs = take i xs @ drop (Suc i) xs \<and> xs ! i = x"
  by (induction xs arbitrary: i) (auto split: if_splits)

lemma index_of_None: "index_of xs x = None \<longleftrightarrow> x \<notin> set xs"
  by (induction xs) auto

lemma view_delete_at:
  assumes "slice_ok w" and "i < gr_len w"
  shows "groups_view (delete_at i w) = take i (groups_view w) @ drop (Suc i) (groups_view w)"
    and "slice_ok (delete_at i w)"
proof -
  obtain l where l: "gr_len w = Suc l" using assms(2) by (cases "gr_len w") auto
  show "groups_view (delete_at i w) = take i (groups_view w) @ drop (Suc i) (groups_view w)"
    using assms l by (auto simp: groups_view_def delete_at_def slice_ok_def min_def less_Suc_eq)
  show "slice_ok (delete_at i w)"
    using assms l by (simp add: delete_at_def slice_ok_def)
qed

lemma groups_view_world [simp]: "groups_view (w\<lparr>gr_world := v\<rparr>) = groups_view w"
  and slice_ok_world [simp]: "slice_ok (w\<lparr>gr_world := v\<rparr>) = slice_ok w"
  by (simp_all add: groups_view_def slice_ok_def)

lemma remove_slice:
  assumes "slice_ok w"
  shows "groups_view (groups_remove x w) = remove1 x (groups_view w) \<and> slice_ok (groups_remove x w)"
proof (cases "index_of (groups_view w) x")
  case None
  then have "x \<notin> set (groups_view w)" by (simp add: index_of_None)
  with None assms show ?thesis by (simp add: groups_remove_def remove1_idem)
next
  case (Some i)
  note i = index_of_Some [OF Some]
  then have "i < gr_len w" by (simp add: groups_view_def)
  with i Some assms show ?thesis by (simp add: groups_remove_def view_delete_at Let_def)
qed

lemma append_slice:
  assumes "slice_ok w"
  shows "groups_view (groups_append grow x w) = groups_view w @ [x] \<and> slice_ok (groups_append grow x w)"
  using assms
  by (auto simp: groups_view_def groups_append_def slice_ok_def take_Suc_conv_app_nth nth_append)

interpretation groups_reg: registry groups_view slice_ok "groups_append grow" groups_remove
  by unfold_locales (simp_all add: remove_slice append_slice)

subsection \<open>Effects on the other parts of the list\<close>

lemma groups_remove_onRemove [simp]: "gr_onRemove (groups_remove x w) = gr_onRemove w"
  by (simp add: groups_remove_def delete_at_def Let_def split: option.split)

lemma groups_remove_world:
  "gr_world (groups_remove x w) = foldl (\<lambda>v f. f x v) (gr_world w) (gr_onRemove w)"
  by (simp add: groups_remove_def delete_at_def Let_def split: option.split)

lemma groups_append_fields [simp]:
  "gr_onRemove (groups_append grow x w) = gr_onRemove w"
  "gr_world (groups_append grow x w) = gr_world w"
  by (simp_all add: groups_append_def)

abbreviation online :: "'v sub_sys \<Rightarrow> nat \<Rightarrow> bool" where
  "online s i \<equiv> has_flag (sn_status (ss_nodes s i)) tcpNodeOnline"

subsection \<open>Closing all nodes\<close>

text \<open>
  Removing a node other than the one in the first cell leaves that cell alone: the cells that
  move come after it.
\<close>

lemma remove_keeps_first:
  assumes "gr_arr w = a # rest" and "1 \<le> gr_len w" and "x \<noteq> a" and "slice_ok w"
    and "a \<notin> set (take m rest)" and "gr_len w \<le> Suc m" and "m \<le> length rest"
  shows "\<exists>rest'. gr_arr (groups_remove x w) = a # rest' \<and> a \<notin> set (take m rest') \<and>
    1 \<le> gr_len (groups_remove x w) \<and> gr_len (groups_remove x w) \<le> Suc m \<and> m \<le> length rest'"
proof (cases "index_of (groups_view w) x")
  case None
  with assms show ?thesis by (simp add: groups_remove_def)
next
  case (Some i)
  obtain l where l: "gr_len w = Suc l" using assms(2) by (cases "gr_len w") auto
  note i = index_of_Some [OF Some]
  then obtain j where j: "i = Suc j" "j < l" "l \<le> m"
    using assms(1,3,6) l by (cases i) (auto simp: groups_view_def)
  let ?rest = "take j rest @ drop (Suc j) (take l rest) @ drop (l - 1) rest"
  have arr: "gr_arr (groups_remove x w) = a # ?rest"
    using Some assms(1) l j by (simp add: groups_remove_def delete_at_def Let_def drop_Cons')
  have eq: "take m ?rest = take j (take m rest) @ drop (Suc j) (take l (take m rest)) @ drop (l - 1) (take m rest)"
    using j assms(7) by (auto simp: min_def take_drop)
  have "set (take m ?rest) \<subseteq> set (take m rest)"
    unfolding eq by (auto simp del: take_take dest: in_set_takeD in_set_dropD)
  then have "a \<notin> set (take m ?rest)" using assms(5) by blast
  moreover have "1 \<le> gr_len (groups_remove x w) \<and> gr_len (groups_remove x w) \<le> Suc m"
    using Some l j by (simp add: groups_remove_def delete_at_def Let_def)
  moreover have "m \<le> length ?rest" using j assms(7) by (auto simp: min_def)
  ultimately show ?thesis using arr by blast
qed

lemma node_close_nodes: "j \<noteq> i \<Longrightarrow> ss_nodes (node_close i s) j = ss_nodes s j"
  by (simp add: node_close_def Let_def)

lemma sub_close_keeps [simp]:
  "sn_onclose (sub_close n) = sn_onclose n"
  "has_flag (sn_status (sub_close n)) tcpNodeOnline \<longleftrightarrow> False"
  by (simp_all add: sub_close_def Let_def sub_online.flip_has)

lemma sub_close_world:
  "sn_world (sub_close n) = (if has_flag (sn_status n) tcpNodeOnline
     then foldl (\<lambda>w f. f w) (sn_world n) (sn_onclose n) else sn_world n)"
  by (simp add: sub_close_def Let_def)

lemma node_close_onclose: "sn_onclose (ss_nodes (node_close i s) j) = sn_onclose (ss_nodes s j)"
  by (simp add: node_close_def Let_def)

lemma node_close_groups:
  "sn_onclose (ss_nodes s i) = [groups_remove i] \<Longrightarrow>
     ss_groups (node_close i s) = (if online s i then groups_remove i (ss_groups s) else ss_groups s)"
  by (simp add: node_close_def Let_def sub_close_world)

lemma node_close_next [simp]: "ss_next (node_close i s) = ss_next s"
  by (simp add: node_close_def Let_def)

lemma arr_groups_remove:
  "slice_ok w \<Longrightarrow> set (gr_arr (groups_remove x w)) \<subseteq> set (gr_arr w)"
  by (auto simp: groups_remove_def delete_at_def Let_def split: option.splits
      dest: in_set_takeD in_set_dropD)

text \<open>
  The invariant of nodes and list: the slice lies in its array and lists different nodes, all of
  them online; every node has been connected once, is well-formed and removes itself when it
  closes.
\<close>

definition sys_wf :: "'v sub_sys \<Rightarrow> bool" where
  "sys_wf s \<longleftrightarrow>
     slice_ok (ss_groups s) \<and> distinct (groups_view (ss_groups s)) \<and>
     set (gr_arr (ss_groups s)) \<subseteq> {..<ss_next s} \<and>
     (\<forall>i < ss_next s. sub_wf (ss_nodes s i) \<and> sn_onclose (ss_nodes s i) = [groups_remove i]) \<and>
     (\<forall>i \<in> set (groups_view (ss_groups s)). online s i)"

lemma sys_wf_cell: "sys_wf s \<Longrightarrow> i < length (gr_arr (ss_groups s)) \<Longrightarrow> gr_arr (ss_groups s) ! i < ss_next s"
  by (metis lessThan_iff nth_mem subsetD sys_wf_def)

lemma sub_wf_world [simp]: "sub_wf (n\<lparr>sn_world := w\<rparr>) = sub_wf n"
  by (simp add: sub_wf_def)

text \<open>Any operation of a node that keeps it well-formed and closes it at most once is safe.\<close>

lemma sys_wf_node:
  assumes wf: "sys_wf s" and i: "i < ss_next s"
    and once: "closes_once ((ss_nodes s i)\<lparr>sn_world := ss_groups s\<rparr>) n" and "sub_wf n"
    and s': "s' = s\<lparr>ss_nodes := (ss_nodes s)(i := n), ss_groups := sn_world n\<rparr>"
  shows "sys_wf s'"
proof -
  have onclose: "sn_onclose (ss_nodes s i) = [groups_remove i]" using wf i by (simp add: sys_wf_def)
  consider (same) "has_flag (sn_status n) tcpNodeOnline = online s i" "sn_world n = ss_groups s"
    | (closed) "sn_world n = groups_remove i (ss_groups s)"
    using once onclose by (auto simp: closes_once_def)
  then show ?thesis
  proof cases
    case same
    with wf i once onclose \<open>sub_wf n\<close> show ?thesis by (auto simp: sys_wf_def s' closes_once_def)
  next
    case closed
    have "slice_ok (ss_groups s)" "distinct (groups_view (ss_groups s))"
      using wf by (simp_all add: sys_wf_def)
    then have "set (groups_view (sn_world n)) = set (groups_view (ss_groups s)) - {i}"
      "distinct (groups_view (sn_world n))" "slice_ok (sn_world n)"
      "set (gr_arr (sn_world n)) \<subseteq> set (gr_arr (ss_groups s))"
      by (simp_all add: closed groups_reg.set_remove groups_reg.distinct_remove
          groups_reg.ok_remove arr_groups_remove)
    with wf i once onclose \<open>sub_wf n\<close> show ?thesis by (auto simp: sys_wf_def s' closes_once_def)
  qed
qed

lemma sys_wf_node_close:
  "sys_wf s \<Longrightarrow> i < ss_next s \<Longrightarrow> sys_wf (node_close i s)"
  using sys_wf_node [of s i _ "node_close i s", OF _ _ closes_once_close]
  by (simp add: node_close_def Let_def sub_wf_close sys_wf_def [of s])

lemma length_arr_remove:
  "slice_ok w \<Longrightarrow> length (gr_arr (groups_remove y w)) = length (gr_arr w)"
  using index_of_Some [of "groups_view w" y]
  by (auto simp: groups_remove_def delete_at_def groups_view_def slice_ok_def Let_def split: option.split)

lemma node_close_arr:
  "sys_wf s \<Longrightarrow> i < ss_next s \<Longrightarrow> length (gr_arr (ss_groups (node_close i s))) = length (gr_arr (ss_groups s))"
  by (subst node_close_groups) (auto simp: sys_wf_def length_arr_remove)

lemma sys_wf_close_range:
  "sys_wf s \<Longrightarrow> \<forall>i \<in> set is. i < length (gr_arr (ss_groups s)) \<Longrightarrow> sys_wf (close_range is s)"
proof (induction "is" arbitrary: s)
  case Nil
  then show ?case by simp
next
  case (Cons i "is")
  let ?x = "gr_arr (ss_groups s) ! i"
  have x: "?x < ss_next s" using Cons.prems by (intro sys_wf_cell) auto
  then show ?case
    using Cons.prems sys_wf_node_close [OF Cons.prems(1) x] node_close_arr [OF Cons.prems(1) x]
    by (auto intro: Cons.IH)
qed

lemma sys_wf_groups_close: "sys_wf s \<Longrightarrow> sys_wf (groups_close s)"
proof -
  assume wf: "sys_wf s"
  then have "sys_wf (close_range [0..<gr_len (ss_groups s)] s)"
    by (intro sys_wf_close_range) (auto simp: sys_wf_def slice_ok_def)
  then show ?thesis
    by (auto simp: groups_close_def sys_wf_def slice_ok_def groups_view_def Let_def)
qed

lemma sys_wf_onConnect: "sys_wf s \<Longrightarrow> sys_wf (groups_onConnect grow now c s)"
proof -
  assume wf: "sys_wf s"
  let ?n = "ss_next s" and ?w = "ss_groups s"
  have ok: "slice_ok ?w" and fresh: "?n \<notin> set (groups_view ?w)"
    using wf by (auto simp: sys_wf_def groups_view_def dest!: in_set_takeD)
  have "set (gr_arr (groups_append grow ?n ?w)) \<subseteq> {..<Suc ?n}"
    using wf by (auto simp: sys_wf_def groups_append_def dest!: in_set_takeD set_update_subset_insert [THEN subsetD])
  moreover have "has_flag (sn_status (sub_newNode now c ?w [NodeClose (groups_remove ?n)])) tcpNodeOnline"
    using sub_online.set_has [of 0] by (simp add: sub_newNode_def NodeClose_def)
  moreover have "sn_onclose (sub_newNode now c ?w [NodeClose (groups_remove ?n)]) = [groups_remove ?n]"
    by (simp add: sub_newNode_def NodeClose_def)
  ultimately show ?thesis
    using wf ok fresh append_slice [OF ok, of grow ?n]
    by (auto simp: sys_wf_def groups_onConnect_def Let_def sub_wf_newNode less_Suc_eq)
qed

text \<open>After the first turn of the loop the second node is in the first cell, where no later turn looks.\<close>

lemma close_range_skips:
  assumes "sys_wf s" and "gr_arr (ss_groups s) = a # rest" and "a \<notin> set (take m rest)"
    and "1 \<le> gr_len (ss_groups s)" and "gr_len (ss_groups s) \<le> Suc m" and "m \<le> length rest"
    and "\<forall>i \<in> set is. 1 \<le> i \<and> i \<le> m"
  shows "ss_nodes (close_range is s) a = ss_nodes s a"
  using assms
proof (induction "is" arbitrary: s rest)
  case Nil
  then show ?case by simp
next
  case (Cons i "is")
  let ?x = "gr_arr (ss_groups s) ! i"
  have i: "1 \<le> i" "i \<le> m" using Cons.prems(7) by auto
  have "?x = take m rest ! (i - 1)" using i Cons.prems(2,6) by (cases i) auto
  then have xa: "?x \<noteq> a" using i Cons.prems(3,6) nth_mem [of "i - 1" "take m rest"] by auto
  have x: "?x < ss_next s"
    using Cons.prems(1,2,6) i by (intro sys_wf_cell) auto
  let ?s = "node_close ?x s"
  have wf: "sys_wf ?s" using Cons.prems(1) x by (rule sys_wf_node_close)
  have g: "ss_groups ?s = (if online s ?x then groups_remove ?x (ss_groups s) else ss_groups s)"
    using Cons.prems(1) x by (intro node_close_groups) (simp add: sys_wf_def)
  have "slice_ok (ss_groups s)" using Cons.prems(1) by (simp add: sys_wf_def)
  then obtain rest' where "gr_arr (ss_groups ?s) = a # rest'" "a \<notin> set (take m rest')"
    "1 \<le> gr_len (ss_groups ?s)" "gr_len (ss_groups ?s) \<le> Suc m" "m \<le> length rest'"
    using remove_keeps_first [OF Cons.prems(2,4) xa _ Cons.prems(3,5,6)] Cons.prems(2-6) g
    by (auto split: if_splits)
  with Cons.IH [OF wf] Cons.prems(7) have "ss_nodes (close_range is ?s) a = ss_nodes ?s a" by auto
  then show ?case using xa by (simp add: node_close_nodes)
qed

lemma close_leaves_second:
  assumes wf: "sys_wf s" and len: "3 \<le> gr_len (ss_groups s)"
  shows "ss_nodes (groups_close s) (groups_view (ss_groups s) ! 1) =
    ss_nodes s (groups_view (ss_groups s) ! 1)"
proof -
  let ?w = "ss_groups s"
  obtain n where n: "gr_len ?w = Suc (Suc (Suc n))"
    using len by (metis Suc3_eq_add_3 le_Suc_ex)
  moreover have ok: "slice_ok ?w" and dist: "distinct (groups_view ?w)"
    using wf by (simp_all add: sys_wf_def)
  ultimately obtain a0 a1 a2 tl where arr: "gr_arr ?w = a0 # a1 # a2 # tl" and tl: "n \<le> length tl"
    by (auto simp: slice_ok_def Suc_le_length_iff)
  have view: "groups_view ?w = a0 # a1 # a2 # take n tl" by (simp add: groups_view_def n arr)
  have a0: "a0 < ss_next s" "online s a0" using wf view by (auto simp: sys_wf_def arr)
  let ?s = "node_close a0 s" and ?rest = "a2 # take n tl @ drop n (a2 # tl)"
  have "ss_groups ?s = groups_remove a0 ?w"
    using wf a0 by (subst node_close_groups) (auto simp: sys_wf_def)
  then have "gr_arr (ss_groups ?s) = a1 # ?rest" "gr_len (ss_groups ?s) = Suc (Suc n)"
    by (simp_all add: groups_remove_def view delete_at_def Let_def arr n)
  moreover have "a1 \<notin> set (take (Suc (Suc n)) ?rest)"
  proof -
    have "set (take 1 (drop n (a2 # tl))) \<subseteq> set (a2 # take n tl)"
      using tl by (cases n) (auto simp: take_Suc_conv_app_nth drop_Cons' hd_drop_conv_nth in_set_conv_nth
          take_Suc dest!: in_set_takeD)
    then show ?thesis using dist view tl by (auto simp: min_def)
  qed
  moreover have "Suc (Suc n) \<le> length ?rest" using tl by simp
  moreover have "sys_wf ?s" using wf a0(1) by (rule sys_wf_node_close)
  ultimately have "ss_nodes (close_range [1..<gr_len ?w] ?s) a1 = ss_nodes ?s a1"
    by (intro close_range_skips [where m = "Suc (Suc n)" and rest = ?rest]) (auto simp: n)
  moreover have "close_range [0..<gr_len ?w] s = close_range [1..<gr_len ?w] ?s"
    by (simp add: n arr upt_conv_Cons del: upt_Suc)
  moreover have "a1 \<noteq> a0" using dist view by auto
  ultimately show ?thesis by (simp add: groups_close_def Let_def view node_close_nodes)
qed

subsection \<open>Delivery\<close>

text \<open>The node can take a message: it is open and its channel has room.\<close>

definition can_take :: "'w sub_node \<Rightarrow> bool" where
  "can_take n \<longleftrightarrow> has_flag (sn_status n) tcpNodeOnline \<and> \<not> sn_queueClosed n \<and>
     length (sn_sendQueue n) < tcpMaxSendQueue"

lemma on_node_send:
  assumes "can_take (ss_nodes s i)"
  shows "on_node i (\<lambda>n. sub_asyncSend n data) s =
    Ret (s\<lparr>ss_nodes := (ss_nodes s)(i := (ss_nodes s i)\<lparr>sn_world := ss_groups s,
      sn_sendQueue := sn_sendQueue (ss_nodes s i) @ [data]\<rparr>)\<rparr>)"
  using assms by (simp add: on_node_def can_take_def sub_asyncSend_def sub_push_def)

lemma sendAll_loop:
  assumes "distinct is"
    and "\<forall>i \<in> set is. MatchFilters rx (sn_topics (ss_nodes s i)) table \<longrightarrow> can_take (ss_nodes s i)"
  shows "\<exists>s'. go_foldM (\<lambda>s i. if MatchFilters rx (sn_topics (ss_nodes s i)) table
        then on_node i (\<lambda>n. sub_asyncSend n data) s else Ret s) s is = Ret s' \<and>
      ss_groups s' = ss_groups s \<and>
      (\<forall>i. sn_sendQueue (ss_nodes s' i) = sn_sendQueue (ss_nodes s i) @
        (if i \<in> set is \<and> MatchFilters rx (sn_topics (ss_nodes s i)) table then [data] else []))"
  using assms
proof (induction "is" arbitrary: s)
  case Nil
  then show ?case by simp
next
  case (Cons i "is")
  let ?t = "s\<lparr>ss_nodes := (ss_nodes s)(i := (ss_nodes s i)\<lparr>sn_world := ss_groups s,
      sn_sendQueue := sn_sendQueue (ss_nodes s i) @ [data]\<rparr>)\<rparr>"
  show ?case
  proof (cases "MatchFilters rx (sn_topics (ss_nodes s i)) table")
    case True
    then have "on_node i (\<lambda>n. sub_asyncSend n data) s = Ret ?t"
      using Cons.prems by (intro on_node_send) simp
    moreover have "\<forall>j \<in> set is. MatchFilters rx (sn_topics (ss_nodes ?t j)) table \<longrightarrow> can_take (ss_nodes ?t j)"
      using Cons.prems by auto
    ultimately show ?thesis using Cons.IH [of ?t] Cons.prems(1) True by auto
  next
    case False
    then show ?thesis using Cons.IH [of s] Cons.prems by auto
  qed
qed

lemma sendAll_delivers:
  assumes "sys_wf s"
    and "\<forall>i \<in> set (groups_view (ss_groups s)). MatchFilters rx (sn_topics (ss_nodes s i)) table \<longrightarrow>
      length (sn_sendQueue (ss_nodes s i)) < tcpMaxSendQueue"
  shows "\<exists>s'. groups_sendAll rx table data s = Ret s' \<and> ss_groups s' = ss_groups s \<and>
    (\<forall>i. sn_sendQueue (ss_nodes s' i) = sn_sendQueue (ss_nodes s i) @
      (if i \<in> set (groups_view (ss_groups s)) \<and> MatchFilters rx (sn_topics (ss_nodes s i)) table
       then [data] else []))"
proof -
  have "\<forall>i \<in> set (groups_view (ss_groups s)). MatchFilters rx (sn_topics (ss_nodes s i)) table \<longrightarrow>
      can_take (ss_nodes s i)"
  proof (intro ballI impI)
    fix i
    assume i: "i \<in> set (groups_view (ss_groups s))"
      and m: "MatchFilters rx (sn_topics (ss_nodes s i)) table"
    have "i < ss_next s" "online s i"
      using assms(1) i by (auto simp: sys_wf_def groups_view_def dest!: in_set_takeD)
    then show "can_take (ss_nodes s i)"
      using assms i m by (simp add: can_take_def sys_wf_def sub_wf_def)
  qed
  moreover have "distinct (groups_view (ss_groups s))" using assms(1) by (simp add: sys_wf_def)
  ultimately show ?thesis
    using sendAll_loop [of "groups_view (ss_groups s)" rx s table data] unfolding groups_sendAll_def
    by simp
qed

subsection \<open>Properties\<close>

text \<open>
  C18: The slice of nodes with its shared backing array implements a list: removing a node drops
  its first occurrence and keeps the order of the others, adding one appends it, whatever room the
  array has.
\<close>

theorem slice_refines_list:
  assumes "slice_ok w"
  shows "groups_view (groups_remove x w) = remove1 x (groups_view w) \<and>
    groups_view (groups_append grow x w) = groups_view w @ [x] \<and>
    slice_ok (groups_remove x w) \<and> slice_ok (groups_append grow x w)"
  using remove_slice [OF assms] append_slice [OF assms] by blast

theorem slice_refines_list_witness:
  "groups_view (groups_remove 5 \<lparr>gr_arr = [4, 5, 6, 0], gr_len = 3, gr_unique = 0, gr_onRemove = [], gr_world = ()\<rparr>) = [4, 6]"
  using slice_refines_list [of "\<lparr>gr_arr = [4, 5, 6, 0], gr_len = 3, gr_unique = 0, gr_onRemove = [], gr_world = ()\<rparr>" 5]
  by (simp add: slice_ok_def groups_view_def)

definition demo_sys :: "unit sub_sys" where
  "demo_sys = groups_onConnect Suc 0 new_conn (groups_onConnect Suc 0 new_conn
     (groups_onConnect Suc 0 new_conn
       \<lparr>ss_nodes = (\<lambda>_. sub_newNode 0 new_conn (newGroups () []) []), ss_groups = newGroups () [], ss_next = 0\<rparr>))"

lemma demo_sys_wf: "sys_wf demo_sys"
  unfolding demo_sys_def
  by (intro sys_wf_onConnect) (simp add: sys_wf_def newGroups_def slice_ok_def groups_view_def)

lemma demo_sys_view:
  "groups_view (ss_groups demo_sys) = [0, 1, 2]" "gr_len (ss_groups demo_sys) = 3" "online demo_sys 1"
  using sub_online.set_has [of 0]
  by (simp_all add: demo_sys_def groups_onConnect_def Let_def groups_append_def groups_view_def
      newGroups_def sub_newNode_def NodeClose_def numeral_eq_Suc)

text \<open>
  C25: Closing the list does not close every subscriber. With three subscribers or more, the second
  one is skipped (each closing node shifts the array the loop ranges over): it keeps its state,
  stays online with its connection open, and is not in the list any more.
\<close>

theorem close_skips_second:
  assumes "sys_wf s" and "3 \<le> gr_len (ss_groups s)"
  shows "online (groups_close s) (groups_view (ss_groups s) ! 1) \<and>
    ss_nodes (groups_close s) (groups_view (ss_groups s) ! 1) = ss_nodes s (groups_view (ss_groups s) ! 1) \<and>
    groups_view (ss_groups (groups_close s)) = []"
proof -
  have "1 < length (groups_view (ss_groups s))"
    using assms by (simp add: sys_wf_def slice_ok_def groups_view_def)
  then have "online s (groups_view (ss_groups s) ! 1)" using assms(1) by (auto simp: sys_wf_def)
  then show ?thesis
    using close_leaves_second [OF assms] by (simp add: groups_close_def groups_view_def Let_def)
qed

theorem close_skips_second_witness:
  "online (groups_close demo_sys) 1 \<and> groups_view (ss_groups (groups_close demo_sys)) = []"
  using close_skips_second [OF demo_sys_wf] by (simp add: demo_sys_view del: One_nat_def)

end
