(* ===== verification/Subscribe_Service.thy ===== *)
theory Subscribe_Service
  imports Subscribe_Groups App
begin

text \<open>
  \<^verbatim>\<open>src/services/subscribe/service.go\<close> (the registration of the subscribe port in consul, with the
  number of connections) and \<^verbatim>\<open>tcp.go\<close> (the service that owns the listener, and its wiring to the
  list of nodes and to the registration).

  The consul client library is an argument \<open>api\<close>: each call acts on a state \<open>'c\<close> that stands for
  consul and the network, and returns an error or none.
\<close>

subsection \<open>Registration in consul\<close>

record agent_reg =
  ar_ID :: string
  ar_Name :: string
  ar_Address :: string
  ar_Port :: int
  ar_Tags :: "string list"

record check_reg =
  cr_ID :: string
  cr_Name :: string
  cr_ServiceID :: string
  cr_TTL :: string
  cr_Status :: string

record kv_pair =
  kv_Key :: string
  kv_Value :: bytes
  kv_Session :: string

record 'c consul_api =
  api_ServiceRegister :: "agent_reg \<Rightarrow> 'c \<Rightarrow> 'c \<times> string option"
  api_CheckRegister :: "check_reg \<Rightarrow> 'c \<Rightarrow> 'c \<times> string option"
  api_ServiceDeregister :: "string \<Rightarrow> 'c \<Rightarrow> 'c \<times> string option"
  api_CheckDeregister :: "string \<Rightarrow> 'c \<Rightarrow> 'c \<times> string option"
  api_UpdateTTL :: "string \<Rightarrow> 'c \<Rightarrow> 'c \<times> string option"
  api_SessionCreate :: "int \<Rightarrow> 'c \<Rightarrow> 'c \<times> (string + string)" \<comment> \<open>\<open>Inl\<close> the error, \<open>Inr\<close> the session; the argument is the session's TTL in ns\<close>
  api_SessionRenew :: "string \<Rightarrow> 'c \<Rightarrow> 'c \<times> string option"
  api_Put :: "kv_pair \<Rightarrow> 'c \<Rightarrow> 'c \<times> string option"

record consul_service =
  sv_ServiceName :: string
  sv_ServiceHost :: string
  sv_ServiceIp :: string
  sv_ServicePort :: int
  sv_Interval :: int
  sv_Ttl :: int
  sv_ServiceID :: string
  sv_status :: int
  sv_connects :: int64

definition Registered :: int where "Registered = 1"

interpretation sub_registered: status_flag Registered 0
  by unfold_locales (simp add: Registered_def)

definition ServiceName :: string where "ServiceName = ''wing-binlog-go-subscribe''"

definition opt_Ttl :: "int \<Rightarrow> consul_service \<Rightarrow> consul_service" where
  "opt_Ttl ttl s = s\<lparr>sv_Ttl := ttl\<rparr>"

definition opt_Interval :: "int \<Rightarrow> consul_service \<Rightarrow> consul_service" where
  "opt_Interval interval s = s\<lparr>sv_Interval := interval\<rparr>"

definition opt_ServiceIp :: "string \<Rightarrow> consul_service \<Rightarrow> consul_service" where
  "opt_ServiceIp ip s = s\<lparr>sv_ServiceIp := ip\<rparr>"

text \<open>
  The constructor; it also starts \<open>updateTtl\<close> below. \<open>log.Panicf\<close> ends it when the host is the
  wildcard address and no address to publish was given.
\<close>

definition NewService ::
    "string \<Rightarrow> int \<Rightarrow> (consul_service \<Rightarrow> consul_service) list \<Rightarrow> consul_service go" where
  "NewService host port opts =
     (let sev = foldl (\<lambda>s f. f s)
                  \<lparr>sv_ServiceName = ServiceName, sv_ServiceHost = host, sv_ServiceIp = '''',
                   sv_ServicePort = port, sv_Interval = 1000000000 * 10, sv_Ttl = 15,
                   sv_ServiceID = '''', sv_status = 0, sv_connects = 0\<rparr> opts
      in go_bind (if host = ''0.0.0.0''
                  then if sv_ServiceIp sev = '''' then Panic (LogPanic ''please set consul service ip'')
                       else Ret (sv_ServiceIp sev)
                  else Ret host) (\<lambda>ip.
           Ret (sev\<lparr>sv_ServiceID := ServiceName @ ''-'' @ ip @ ''-'' @ int_digits port\<rparr>)))"

definition sv_Deregister :: "'c consul_api \<Rightarrow> consul_service \<Rightarrow> 'c \<Rightarrow> 'c \<times> string option" where
  "sv_Deregister api sev c =
     (case api_ServiceDeregister api (sv_ServiceID sev) c of
        (c, Some err) \<Rightarrow> (c, Some err)
      | (c, None) \<Rightarrow> api_CheckDeregister api (sv_ServiceID sev) c)"

definition publish_ip :: "consul_service \<Rightarrow> string" where
  "publish_ip sev =
     (if sv_ServiceHost sev = ''0.0.0.0'' \<and> sv_ServiceIp sev \<noteq> '''' then sv_ServiceIp sev
      else sv_ServiceHost sev)"

definition connects_key :: "consul_service \<Rightarrow> string" where
  "connects_key sev = ''connects/'' @ publish_ip sev @ ''/'' @ int_digits (sv_ServicePort sev)"

text \<open>\<open>updateTtl\<close> up to its loop, and one turn of the loop.\<close>

definition updateTtl_start :: "'c consul_api \<Rightarrow> consul_service \<Rightarrow> 'c \<Rightarrow> ('c \<times> string) go" where
  "updateTtl_start api sev c =
     (case api_SessionCreate api (sv_Interval sev * 3) c of
        (c, Inl err) \<Rightarrow> Panic (LogPanic err)
      | (c, Inr session) \<Rightarrow> Ret (c, session))"

definition updateTtl_turn :: "'c consul_api \<Rightarrow> consul_service \<Rightarrow> string \<Rightarrow> 'c \<Rightarrow> 'c" where
  "updateTtl_turn api sev session c =
     (let c = fst (api_SessionRenew api session c);
          count = sv_connects sev;
          p = \<lparr>kv_Key = connects_key sev, kv_Value = le_enc 8 count, kv_Session = session\<rparr>;
          c = fst (api_Put api p c)
      in if \<not> has_flag (sv_status sev) Registered then c
         else fst (api_UpdateTTL api (sv_ServiceID sev) c))"

definition newConnect :: "consul_service \<Rightarrow> consul_service" where
  "newConnect sev = sev\<lparr>sv_connects := sv_connects sev + 1\<rparr>"

definition disconnect :: "consul_service \<Rightarrow> consul_service" where
  "disconnect sev = sev\<lparr>sv_connects := sv_connects sev - 1\<rparr>"

datatype register_error = ServiceRegisterError string | CheckRegisterError string

definition Register ::
    "'c consul_api \<Rightarrow> string \<Rightarrow> consul_service \<Rightarrow> 'c \<Rightarrow> consul_service \<times> 'c \<times> register_error option" where
  "Register api hostname sev c =
     (let sev = (if \<not> has_flag (sv_status sev) Registered
                 then sev\<lparr>sv_status := sv_status sev OR Registered\<rparr> else sev);
          regis = \<lparr>ar_ID = sv_ServiceID sev, ar_Name = sv_ServiceName sev,
                   ar_Address = publish_ip sev, ar_Port = sv_ServicePort sev, ar_Tags = [hostname]\<rparr>
      in case api_ServiceRegister api regis c of
           (c, Some err) \<Rightarrow> (sev, c, Some (ServiceRegisterError err))
         | (c, None) \<Rightarrow>
             (case api_CheckRegister api
                     \<lparr>cr_ID = sv_ServiceID sev, cr_Name = sv_ServiceName sev,
                      cr_ServiceID = sv_ServiceID sev,
                      cr_TTL = int_digits (sv_Ttl sev) @ ''s'', cr_Status = ''passing''\<rparr> c of
                (c, Some err) \<Rightarrow> (sev, c, Some (CheckRegisterError err))
              | (c, None) \<Rightarrow> (sev, c, None)))"

text \<open>The registration and consul, as the world behind the list of nodes.\<close>

record 'c consul_world =
  cw_service :: "consul_service option"
  cw_consul :: 'c

definition on_service ::
    "(consul_service \<Rightarrow> consul_service) \<Rightarrow> 'c consul_world \<Rightarrow> 'c consul_world" where
  "on_service f v = v\<lparr>cw_service := map_option f (cw_service v)\<rparr>"

definition sv_Close :: "'c consul_api \<Rightarrow> 'c consul_world \<Rightarrow> 'c consul_world" where
  "sv_Close api v =
     (case cw_service v of
        None \<Rightarrow> v
      | Some sev \<Rightarrow> v\<lparr>cw_consul := fst (sv_Deregister api sev (cw_consul v))\<rparr>)"

subsection \<open>The service\<close>

definition serviceEnable :: int where "serviceEnable = 1"
definition serviceClosed :: int where "serviceClosed = 2"

interpretation sub_status: flag_pair serviceEnable 0 serviceClosed 1
  by unfold_locales (simp_all add: serviceEnable_def serviceClosed_def)

lemmas tcp_flags = sub_status.pair_simps

record tcp_config =
  tc_Listen :: string
  tc_Enable :: bool
  tc_ConsulAddress :: string
  tc_ConsulEnable :: bool

definition sub_getConfig ::
    "(string \<Rightarrow> tcp_config option) \<Rightarrow> app_env \<Rightarrow> file_system \<Rightarrow> app_error + tcp_config" where
  "sub_getConfig dec env fs = decode_file fs dec (config_file (ev_ConfigPath env) ''subscribe.toml'')"

record 'w tcp_service =
  ts_Listen :: string
  ts_Enable :: bool
  ts_status :: int
  ts_listener :: "bool option"  \<comment> \<open>\<open>Some True\<close> while the last listener is open\<close>
  ts_sendAll :: "(string \<Rightarrow> bytes \<Rightarrow> 'w \<Rightarrow> 'w go) list"
  ts_sendRaw :: "(bytes \<Rightarrow> 'w \<Rightarrow> 'w go) list"
  ts_onConnect :: "(conn \<Rightarrow> 'w \<Rightarrow> 'w) list"
  ts_onClose :: "('w \<Rightarrow> 'w) list"
  ts_onKeepalive :: "(bytes \<Rightarrow> 'w \<Rightarrow> 'w go) list"
  ts_reload :: "('w \<Rightarrow> 'w) list"
  ts_world :: 'w

definition SetSendAll :: "(string \<Rightarrow> bytes \<Rightarrow> 'w \<Rightarrow> 'w go) \<Rightarrow> 'w tcp_service \<Rightarrow> 'w tcp_service" where
  "SetSendAll f t = t\<lparr>ts_sendAll := ts_sendAll t @ [f]\<rparr>"

definition SetSendRaw :: "(bytes \<Rightarrow> 'w \<Rightarrow> 'w go) \<Rightarrow> 'w tcp_service \<Rightarrow> 'w tcp_service" where
  "SetSendRaw f t = t\<lparr>ts_sendRaw := ts_sendRaw t @ [f]\<rparr>"

definition SetOnConnect :: "(conn \<Rightarrow> 'w \<Rightarrow> 'w) \<Rightarrow> 'w tcp_service \<Rightarrow> 'w tcp_service" where
  "SetOnConnect f t = t\<lparr>ts_onConnect := ts_onConnect t @ [f]\<rparr>"

definition SetOnClose :: "('w \<Rightarrow> 'w) \<Rightarrow> 'w tcp_service \<Rightarrow> 'w tcp_service" where
  "SetOnClose f t = t\<lparr>ts_onClose := ts_onClose t @ [f]\<rparr>"

definition SetKeepalive :: "(bytes \<Rightarrow> 'w \<Rightarrow> 'w go) \<Rightarrow> 'w tcp_service \<Rightarrow> 'w tcp_service" where
  "SetKeepalive f t = t\<lparr>ts_onKeepalive := ts_onKeepalive t @ [f]\<rparr>"

definition SetReload :: "('w \<Rightarrow> 'w) \<Rightarrow> 'w tcp_service \<Rightarrow> 'w tcp_service" where
  "SetReload f t = t\<lparr>ts_reload := ts_reload t @ [f]\<rparr>"

definition newSubscribeService ::
    "bool \<Rightarrow> string \<Rightarrow> 'w \<Rightarrow> ('w tcp_service \<Rightarrow> 'w tcp_service) list \<Rightarrow> 'w tcp_service" where
  "newSubscribeService enable listen w opts =
     (let tcp = \<lparr>ts_Listen = listen, ts_Enable = enable, ts_status = 0, ts_listener = None,
                 ts_sendAll = [], ts_sendRaw = [], ts_onConnect = [], ts_onClose = [],
                 ts_onKeepalive = [], ts_reload = [], ts_world = w\<rparr>;
          tcp = (if enable then tcp\<lparr>ts_status := ts_status tcp OR serviceEnable\<rparr> else tcp)
      in foldl (\<lambda>t f. f t) tcp opts)"

definition tcp_SendAll :: "string \<Rightarrow> bytes \<Rightarrow> 'w tcp_service \<Rightarrow> ('w tcp_service \<times> bool) go" where
  "tcp_SendAll table data tcp =
     (if \<not> has_flag (ts_status tcp) serviceEnable then Ret (tcp, False)
      else let packData = Pack CMD_EVENT data
           in go_bind (go_foldM (\<lambda>w f. f table packData w) (ts_world tcp) (ts_sendAll tcp)) (\<lambda>w.
                Ret (tcp\<lparr>ts_world := w\<rparr>, True)))"

definition tcp_SendRaw :: "bytes \<Rightarrow> 'w tcp_service \<Rightarrow> ('w tcp_service \<times> bool) go" where
  "tcp_SendRaw msg tcp =
     (if \<not> has_flag (ts_status tcp) serviceEnable then Ret (tcp, False)
      else go_bind (go_foldM (\<lambda>w f. f msg w) (ts_world tcp) (ts_sendRaw tcp)) (\<lambda>w.
             Ret (tcp\<lparr>ts_world := w\<rparr>, True)))"

text \<open>
  \<open>Start\<close>: the status, and whether an accept goroutine now runs; \<open>listens\<close> is whether
  \<open>net.Listen\<close> succeeds. \<open>tcp_accept\<close> is one turn of that goroutine: what \<open>Accept\<close> returned and
  whether the context is cancelled; the result says whether the goroutine goes on.
\<close>

definition tcp_Start :: "bool \<Rightarrow> 'w tcp_service \<Rightarrow> 'w tcp_service \<times> bool" where
  "tcp_Start listens tcp =
     (if \<not> has_flag (ts_status tcp) serviceEnable then (tcp, False)
      else let tcp = (if has_flag (ts_status tcp) serviceClosed
                      then tcp\<lparr>ts_status := ts_status tcp XOR serviceClosed\<rparr> else tcp)
           in if \<not> listens then (tcp, False) else (tcp\<lparr>ts_listener := Some True\<rparr>, True))"

definition tcp_accept :: "conn option \<Rightarrow> bool \<Rightarrow> 'w tcp_service \<Rightarrow> 'w tcp_service \<times> bool" where
  "tcp_accept c cancelled tcp =
     (if cancelled then (tcp, False)
      else if has_flag (ts_status tcp) serviceClosed then (tcp, False)
      else case c of
        None \<Rightarrow> (tcp, True)
      | Some conn \<Rightarrow> (tcp\<lparr>ts_world := foldl (\<lambda>w f. f conn w) (ts_world tcp) (ts_onConnect tcp)\<rparr>, True))"

definition tcp_Close :: "'w tcp_service \<Rightarrow> 'w tcp_service" where
  "tcp_Close tcp =
     (if has_flag (ts_status tcp) serviceClosed then tcp
      else let tcp = tcp\<lparr>ts_listener := map_option (\<lambda>_. False) (ts_listener tcp)\<rparr>;
               tcp = tcp\<lparr>ts_world := foldl (\<lambda>w f. f w) (ts_world tcp) (ts_onClose tcp)\<rparr>
           in if \<not> has_flag (ts_status tcp) serviceClosed
              then tcp\<lparr>ts_status := ts_status tcp OR serviceClosed\<rparr> else tcp)"

definition tcp_Reload ::
    "app_error + tcp_config \<Rightarrow> bool \<Rightarrow> 'w tcp_service \<Rightarrow> ('w tcp_service \<times> bool) go" where
  "tcp_Reload cfg listens tcp =
     go_bind (deref cfg) (\<lambda>config.
       let tcp = (if tc_Enable config \<and> \<not> has_flag (ts_status tcp) serviceEnable
                  then tcp\<lparr>ts_status := ts_status tcp OR serviceEnable\<rparr> else tcp);
           tcp = (if \<not> tc_Enable config \<and> has_flag (ts_status tcp) serviceEnable
                  then tcp\<lparr>ts_status := ts_status tcp XOR serviceEnable\<rparr> else tcp);
           tcp = tcp\<lparr>ts_world := foldl (\<lambda>w f. f w) (ts_world tcp) (ts_reload tcp)\<rparr>
       in Ret (tcp_Start listens (tcp_Close tcp)))"

text \<open>
  \<open>keepalive\<close>: the test at the start of the goroutine, and one turn of its loop.
\<close>

definition keepalive_runs :: "'w tcp_service \<Rightarrow> bool" where
  "keepalive_runs tcp \<longleftrightarrow> has_flag (ts_status tcp) serviceEnable"

definition keepalive_turn :: "bool \<Rightarrow> 'w tcp_service \<Rightarrow> ('w tcp_service \<times> bool) go" where
  "keepalive_turn cancelled tcp =
     (if cancelled then Ret (tcp, False)
      else go_bind (go_foldM (\<lambda>w f. f packDataTickOk w) (ts_world tcp) (ts_onKeepalive tcp)) (\<lambda>w.
             Ret (tcp\<lparr>ts_world := w\<rparr>, True)))"

definition tcp_Name :: string where "tcp_Name = ''subscribe''"

subsection \<open>Wiring\<close>

type_synonym 'c sub_world = "'c consul_world sub_sys"

definition groups_on_service ::
    "(consul_service \<Rightarrow> consul_service) \<Rightarrow> 'c sub_world \<Rightarrow> 'c sub_world" where
  "groups_on_service f s =
     s\<lparr>ss_groups := (ss_groups s)\<lparr>gr_world := on_service f (gr_world (ss_groups s))\<rparr>\<rparr>"

definition groups_on_close :: "'c consul_api \<Rightarrow> 'c sub_world \<Rightarrow> 'c sub_world" where
  "groups_on_close api s =
     s\<lparr>ss_groups := (ss_groups s)\<lparr>gr_world := sv_Close api (gr_world (ss_groups s))\<rparr>\<rparr>"

definition no_nodes :: "'v \<Rightarrow> 'v sub_sys" where
  "no_nodes v = \<lparr>ss_nodes = (\<lambda>_. sub_newNode 0 new_conn (newGroups v []) []),
                 ss_groups = newGroups v [], ss_next = 0\<rparr>"

definition sub_service_opts ::
    "regexp \<Rightarrow> (nat \<Rightarrow> nat) \<Rightarrow> int64 \<Rightarrow> ('v sub_sys tcp_service \<Rightarrow> 'v sub_sys tcp_service) list" where
  "sub_service_opts rx grow now =
     [SetSendAll (groups_sendAll rx), SetSendRaw groups_asyncSend,
      SetOnConnect (groups_onConnect grow now), SetOnClose groups_close,
      SetKeepalive groups_asyncSend, SetReload groups_reload]"

definition NewSubscribeService ::
    "regexp \<Rightarrow> (nat \<Rightarrow> nat) \<Rightarrow> int64 \<Rightarrow> 'c consul_api \<Rightarrow> string \<Rightarrow> app_error + tcp_config \<Rightarrow> 'c
       \<Rightarrow> 'c sub_world tcp_service go" where
  "NewSubscribeService rx grow now api hostname cfg consul =
     go_bind (deref cfg) (\<lambda>config.
       let g = no_nodes \<lparr>cw_service = None, cw_consul = consul\<rparr>;
           t = newSubscribeService (tc_Enable config) (tc_Listen config) g (sub_service_opts rx grow now)
       in if tc_ConsulEnable config \<and> tc_ConsulAddress config \<noteq> ''''
          then let temp = split_on (CHR '':'') (tc_Listen config) in
               go_bind (go_index temp 0) (\<lambda>host.
               go_bind (go_index temp 1) (\<lambda>p.
                 let port = fst (ParseInt 32 p) in
                 go_bind (NewService host port []) (\<lambda>service.
                   let (service, consul, _) = Register api hostname service consul;
                       t = SetOnClose (groups_on_close api) t;
                       t = SetOnConnect (\<lambda>_. groups_on_service newConnect) t;
                       g = ts_world t;
                       grp = (ss_groups g)\<lparr>gr_world := \<lparr>cw_service = Some service, cw_consul = consul\<rparr>\<rparr>;
                       grp = SetOnRemove (\<lambda>_. on_service disconnect) grp
                   in Ret (t\<lparr>ts_world := g\<lparr>ss_groups := grp\<rparr>\<rparr>))))
          else Ret t)"

subsection \<open>The number of connections\<close>

text \<open>
  The steps of the running service: an accepted connection is added to the list and, in a second
  step, counted (the goroutines of the node run in between); a node handles what it reads, takes
  a turn of its sending goroutine, or closes; an event or a keepalive is queued for the nodes; the
  whole list is closed; the registration is removed. \<open>p\<close> is the number of connections that are
  listed and not yet counted.
\<close>

inductive sub_step ::
    "regexp \<Rightarrow> (string \<Rightarrow> string) \<Rightarrow> 'c consul_api \<Rightarrow> 'c sub_world \<times> nat \<Rightarrow> 'c sub_world \<times> nat \<Rightarrow> bool"
  for rx um api where
  accepted: "sub_step rx um api (s, p) (groups_onConnect grow now c s, Suc p)"
| counted: "sub_step rx um api (s, Suc p) (groups_on_service newConnect s, p)"
| message: "i < ss_next s \<Longrightarrow> on_node i (\<lambda>n. sub_onMessage um n msg) s = Ret s' \<Longrightarrow>
    sub_step rx um api (s, p) (s', p)"
| turn: "i < ss_next s \<Longrightarrow>
    on_node i (\<lambda>n. go_bind (sub_asyncSendService t n) (\<lambda>(n', _). Ret n')) s = Ret s' \<Longrightarrow>
    sub_step rx um api (s, p) (s', p)"
| hangup: "i < ss_next s \<Longrightarrow> sub_step rx um api (s, p) (node_close i s, p)"
| event: "groups_sendAll rx table data s = Ret s' \<Longrightarrow> sub_step rx um api (s, p) (s', p)"
| raw: "groups_asyncSend data s = Ret s' \<Longrightarrow> sub_step rx um api (s, p) (s', p)"
| close_all: "sub_step rx um api (s, p) (groups_close s, p)"
| deregister: "sub_step rx um api (s, p) (groups_on_close api s, p)"

definition online_nodes :: "'v sub_sys \<Rightarrow> nat set" where
  "online_nodes s = {i. i < ss_next s \<and> online s i}"

definition count_inv :: "'c sub_world \<Rightarrow> nat \<Rightarrow> bool" where
  "count_inv s p \<longleftrightarrow>
     sys_wf s \<and> gr_onRemove (ss_groups s) = [\<lambda>_. on_service disconnect] \<and>
     (\<exists>sev. cw_service (gr_world (ss_groups s)) = Some sev \<and>
        sv_connects sev + of_nat p = of_nat (card (online_nodes s)))"

lemma finite_online_nodes [simp]: "finite (online_nodes s)"
  by (simp add: online_nodes_def)

lemma count_inv_node:
  assumes inv: "count_inv s p" and i: "i < ss_next s"
    and once: "closes_once ((ss_nodes s i)\<lparr>sn_world := ss_groups s\<rparr>) n" and "sub_wf n"
    and s': "s' = s\<lparr>ss_nodes := (ss_nodes s)(i := n), ss_groups := sn_world n\<rparr>"
  shows "count_inv s' p \<and> ss_next s' = ss_next s"
proof -
  have wf: "sys_wf s" and onRemove: "gr_onRemove (ss_groups s) = [\<lambda>_. on_service disconnect]"
    using inv by (simp_all add: count_inv_def)
  obtain sev where sev: "cw_service (gr_world (ss_groups s)) = Some sev"
    "sv_connects sev + of_nat p = of_nat (card (online_nodes s))"
    using inv by (auto simp: count_inv_def)
  have wf': "sys_wf s'" using wf i once \<open>sub_wf n\<close> s' by (rule sys_wf_node)
  have onclose: "sn_onclose (ss_nodes s i) = [groups_remove i]" using wf i by (simp add: sys_wf_def)
  consider (same) "has_flag (sn_status n) tcpNodeOnline = online s i" "sn_world n = ss_groups s"
    | (closed) "online s i" "\<not> has_flag (sn_status n) tcpNodeOnline"
      "sn_world n = groups_remove i (ss_groups s)"
    using once onclose by (auto simp: closes_once_def)
  then show ?thesis
  proof cases
    case same
    then have "online_nodes s' = online_nodes s" by (auto simp: online_nodes_def s')
    with same sev onRemove wf' show ?thesis by (auto simp: count_inv_def s')
  next
    case closed
    have nodes: "online_nodes s' = online_nodes s - {i}" using closed(2) by (auto simp: online_nodes_def s')
    have i_on: "i \<in> online_nodes s" using i closed(1) by (simp add: online_nodes_def)
    obtain k where k: "card (online_nodes s) = Suc k" "card (online_nodes s') = k"
      using i_on by (metis card.remove finite_online_nodes nodes)
    have "sv_connects sev + of_nat p = 1 + of_nat k" using sev(2) k(1) by simp
    then have "sv_connects (disconnect sev) + of_nat p = of_nat k"
      by (simp add: disconnect_def algebra_simps)
    moreover have "cw_service (gr_world (sn_world n)) = Some (disconnect sev)"
      by (simp add: closed(3) groups_remove_world onRemove on_service_def sev(1))
    ultimately show ?thesis using wf' k(2) onRemove closed(3) by (simp add: count_inv_def s')
  qed
qed

lemma count_inv_on_node:
  assumes inv: "count_inv s p" and i: "i < ss_next s" and run: "on_node i f s = Ret s'"
    and f: "\<And>n n'. f n = Ret n' \<Longrightarrow> closes_once n n'" "\<And>n n'. f n = Ret n' \<Longrightarrow> sub_wf n \<Longrightarrow> sub_wf n'"
  shows "count_inv s' p \<and> ss_next s' = ss_next s"
proof -
  from run obtain n where n: "f ((ss_nodes s i)\<lparr>sn_world := ss_groups s\<rparr>) = Ret n"
    and s': "s' = s\<lparr>ss_nodes := (ss_nodes s)(i := n), ss_groups := sn_world n\<rparr>"
    by (auto simp: on_node_def)
  have "sub_wf (ss_nodes s i)" using inv i by (simp add: count_inv_def sys_wf_def)
  then have "sub_wf n" using f(2) [OF n] by simp
  with f(1) [OF n] show ?thesis by (intro count_inv_node [OF inv i _ _ s'])
qed

lemma count_inv_node_close:
  "count_inv s p \<Longrightarrow> i < ss_next s \<Longrightarrow> count_inv (node_close i s) p"
  using count_inv_node [of s p i _ "node_close i s", OF _ _ closes_once_close]
  by (simp add: node_close_def Let_def sub_wf_close count_inv_def [of s] sys_wf_def [of s])

lemma sub_wf_turn: "sub_asyncSendService t n = Ret (n', b) \<Longrightarrow> sub_wf n \<Longrightarrow> sub_wf n'"
proof -
  assume t: "sub_asyncSendService t n = Ret (n', b)" and wf: "sub_wf n"
  have "sub_wf (n\<lparr>sn_sendQueue := q, sn_conn := fst (conn_write (sn_conn n) m), sn_sendFailureTimes := k\<rparr>)"
    if "sn_sendQueue n = m # q" for m q k
    using wf that by (simp add: sub_wf_def conn_closed_write)
  moreover have "sub_wf (n\<lparr>sn_sendQueue := q, sn_conn := fst (conn_write (sn_conn n) m)\<rparr>)"
    if "sn_sendQueue n = m # q" for m q
    using wf that by (simp add: sub_wf_def conn_closed_write)
  ultimately show ?thesis
    using t wf by (auto simp: sub_asyncSendService_def Let_def case_prod_beta intro!: sub_wf_close
        split: if_splits send_turn.splits list.splits sum.splits)
qed

lemma count_inv_sends:
  assumes inv: "count_inv s p" and "\<forall>i \<in> set is. i < ss_next s"
    and run: "go_foldM (\<lambda>s i. if P s i then on_node i (\<lambda>n. sub_asyncSend n data) s else Ret s) s is = Ret s'"
  shows "count_inv s' p"
proof -
  have "count_inv s' p \<and> ss_next s' = ss_next s"
  proof (rule go_foldM_inv [OF _ _ run])
    fix t i t'
    assume i: "i \<in> set is" and t: "count_inv t p \<and> ss_next t = ss_next s"
      and r: "(if P t i then on_node i (\<lambda>n. sub_asyncSend n data) t else Ret t) = Ret t'"
    show "count_inv t' p \<and> ss_next t' = ss_next s"
    proof (cases "P t i")
      case True
      have "count_inv t' p \<and> ss_next t' = ss_next t"
        using t assms(2) i r True
        by (intro count_inv_on_node [where f = "\<lambda>n. sub_asyncSend n data" and i = i])
          (auto intro: closes_once_asyncSend sub_wf_asyncSend)
      with t show ?thesis by simp
    next
      case False
      with t r show ?thesis by simp
    qed
  qed (simp add: inv)
  then show ?thesis by simp
qed

lemma view_next: "count_inv s p \<Longrightarrow> \<forall>i \<in> set (groups_view (ss_groups s)). i < ss_next s"
  by (auto simp: count_inv_def sys_wf_def groups_view_def dest!: in_set_takeD)

lemma count_inv_close_range:
  "count_inv s p \<Longrightarrow> \<forall>i \<in> set is. i < length (gr_arr (ss_groups s)) \<Longrightarrow> count_inv (close_range is s) p"
proof (induction "is" arbitrary: s)
  case Nil
  then show ?case by simp
next
  case (Cons i "is")
  let ?x = "gr_arr (ss_groups s) ! i"
  have wf: "sys_wf s" using Cons.prems(1) by (simp add: count_inv_def)
  have x: "?x < ss_next s" using Cons.prems wf by (intro sys_wf_cell) auto
  have "length (gr_arr (ss_groups (node_close ?x s))) = length (gr_arr (ss_groups s))"
    using wf x by (rule node_close_arr)
  then show ?case using Cons.prems count_inv_node_close [OF Cons.prems(1) x] by (auto intro: Cons.IH)
qed

lemma count_inv_close: "count_inv s p \<Longrightarrow> count_inv (groups_close s) p"
proof -
  assume inv: "count_inv s p"
  let ?t = "close_range [0..<gr_len (ss_groups s)] s"
  have "count_inv ?t p"
    using inv by (intro count_inv_close_range) (auto simp: count_inv_def sys_wf_def slice_ok_def)
  moreover have "sys_wf (groups_close s)"
    using inv by (intro sys_wf_groups_close) (simp add: count_inv_def)
  moreover have "online_nodes (groups_close s) = online_nodes ?t"
    by (simp add: online_nodes_def groups_close_def Let_def)
  ultimately show ?thesis by (simp add: count_inv_def groups_close_def Let_def)
qed

lemma count_inv_onConnect: "count_inv s p \<Longrightarrow> count_inv (groups_onConnect grow now c s) (Suc p)"
proof -
  assume inv: "count_inv s p"
  let ?s = "groups_onConnect grow now c s"
  have "sys_wf ?s" using inv by (intro sys_wf_onConnect) (simp add: count_inv_def)
  moreover have "online_nodes ?s = insert (ss_next s) (online_nodes s)"
    using sub_online.set_has [of 0]
    by (auto simp: online_nodes_def groups_onConnect_def Let_def sub_newNode_def NodeClose_def)
  moreover have "ss_next s \<notin> online_nodes s" by (simp add: online_nodes_def)
  ultimately show ?thesis
    using inv by (auto simp: count_inv_def groups_onConnect_def Let_def algebra_simps)
qed

lemma sys_wf_gr_world:
  "sys_wf (s\<lparr>ss_groups := (ss_groups s)\<lparr>gr_world := v\<rparr>\<rparr>) = sys_wf s"
  by (simp add: sys_wf_def)

lemma online_nodes_gr_world:
  "online_nodes (s\<lparr>ss_groups := g\<rparr>) = online_nodes s"
  by (simp add: online_nodes_def)

lemma count_inv_step: "sub_step rx um api (s, p) (s', p') \<Longrightarrow> count_inv s p \<Longrightarrow> count_inv s' p'"
proof (induction "(s, p)" "(s', p')" rule: sub_step.induct)
  case (message i msg)
  then show ?case
    using count_inv_on_node [of s p i "\<lambda>n. sub_onMessage um n msg" s']
    by (auto intro: closes_once_onMessage sub_wf_onMessage)
next
  case (turn i t)
  have "count_inv s' p \<and> ss_next s' = ss_next s"
    by (rule count_inv_on_node [OF turn.prems turn.hyps(1,2)]) (auto intro: closes_once_turn sub_wf_turn)
  with turn.hyps show ?case by simp
next
  case (event table data)
  then show ?case
    using count_inv_sends [OF event.prems view_next [OF event.prems]] by (simp add: groups_sendAll_def)
next
  case (raw data)
  then show ?case
    using count_inv_sends [OF raw.prems view_next [OF raw.prems], of "\<lambda>_ _. True"]
    by (simp add: groups_asyncSend_def)
next
  case counted
  then show ?case
    by (auto simp: count_inv_def groups_on_service_def sys_wf_gr_world online_nodes_gr_world
        on_service_def newConnect_def algebra_simps)
next
  case deregister
  then show ?case
    by (auto simp: count_inv_def groups_on_close_def sys_wf_gr_world online_nodes_gr_world
        sv_Close_def split: option.splits)
qed (auto intro: count_inv_onConnect count_inv_node_close count_inv_close)

lemma count_inv_reachable:
  "(sub_step rx um api)\<^sup>*\<^sup>* (s, p) (s', p') \<Longrightarrow> count_inv s p \<Longrightarrow> count_inv s' p'"
  by (induction "(s, p)" arbitrary: s p rule: converse_rtranclp_induct)
    (auto dest: count_inv_step)

subsection \<open>A service that registers in consul\<close>

definition consul_config :: "tcp_config \<Rightarrow> bool" where
  "consul_config config \<longleftrightarrow> tc_ConsulEnable config \<and> tc_ConsulAddress config \<noteq> ''''"

lemma Register_keeps:
  "Register api hostname sev c = (sev', c', e) \<Longrightarrow>
     sv_connects sev' = sv_connects sev \<and> sv_ServiceID sev' = sv_ServiceID sev \<and>
     has_flag (sv_status sev') Registered"
  by (auto simp: Register_def Let_def sub_registered.set_has split: prod.splits option.splits if_splits)

lemma NewService_Ret:
  "NewService host port [] = Ret sev \<Longrightarrow>
     sv_connects sev = 0 \<and> host \<noteq> ''0.0.0.0'' \<and>
     sv_ServiceID sev = ServiceName @ ''-'' @ host @ ''-'' @ int_digits port"
  by (auto simp: NewService_def Let_def split: if_splits)

lemma NewSubscribeService_consul:
  assumes "consul_config config"
    and "NewSubscribeService rx grow now api hostname (Inr config) consul = Ret t"
  shows "count_inv (ts_world t) 0"
    and "ts_onClose t = [groups_close, groups_on_close api]"
    and "ts_sendAll t = [groups_sendAll rx]" and "ts_reload t = [groups_reload]"
    and "ts_onConnect t = [groups_onConnect grow now, \<lambda>_. groups_on_service newConnect]"
    and "has_flag (ts_status t) serviceEnable \<longleftrightarrow> tc_Enable config"
    and "\<not> has_flag (ts_status t) serviceClosed"
proof -
  let ?t0 = "newSubscribeService (tc_Enable config) (tc_Listen config)
      (no_nodes \<lparr>cw_service = None, cw_consul = consul\<rparr>) (sub_service_opts rx grow now)"
  have world: "ts_world ?t0 = no_nodes \<lparr>cw_service = None, cw_consul = consul\<rparr>"
    by (simp add: newSubscribeService_def sub_service_opts_def SetSendAll_def SetSendRaw_def
        SetOnConnect_def SetOnClose_def SetKeepalive_def SetReload_def Let_def)
  obtain host port sev0 where sev0: "NewService host port [] = Ret sev0"
    and t': "t = (SetOnConnect (\<lambda>_. groups_on_service newConnect) (SetOnClose (groups_on_close api) ?t0))
      \<lparr>ts_world := (ts_world ?t0)\<lparr>ss_groups := SetOnRemove (\<lambda>_. on_service disconnect)
        ((ss_groups (ts_world ?t0))\<lparr>gr_world :=
          \<lparr>cw_service = Some (fst (Register api hostname sev0 consul)),
           cw_consul = fst (snd (Register api hostname sev0 consul))\<rparr>\<rparr>)\<rparr>\<rparr>"
    using assms
    by (auto simp: NewSubscribeService_def consul_config_def Let_def SetOnClose_def SetOnConnect_def
        case_prod_beta)
  obtain sev c e where reg: "Register api hostname sev0 consul = (sev, c, e)"
    by (metis prod_cases3)
  note t = t' [unfolded reg fst_conv snd_conv]
  have tw: "ts_world t = (no_nodes \<lparr>cw_service = None, cw_consul = consul\<rparr>)
      \<lparr>ss_groups := SetOnRemove (\<lambda>_. on_service disconnect)
        (newGroups \<lparr>cw_service = Some sev, cw_consul = c\<rparr> [])\<rparr>"
    unfolding t by (simp add: world) (simp add: no_nodes_def newGroups_def)
  have "sv_connects sev = 0" using NewService_Ret [OF sev0] Register_keeps [OF reg] by simp
  moreover have "sys_wf (ts_world t)"
    by (simp add: tw sys_wf_def no_nodes_def newGroups_def SetOnRemove_def slice_ok_def groups_view_def)
  ultimately show "count_inv (ts_world t) 0"
    by (auto simp: count_inv_def tw no_nodes_def newGroups_def SetOnRemove_def online_nodes_def)
  have "has_flag 0 f \<longleftrightarrow> False" "has_flag serviceEnable serviceEnable" "\<not> has_flag serviceEnable serviceClosed" for f
    using tcp_flags(1) [of 0] tcp_flags(5) [of 0] by simp_all
  then show "ts_onClose t = [groups_close, groups_on_close api]"
    "ts_sendAll t = [groups_sendAll rx]" "ts_reload t = [groups_reload]"
    "ts_onConnect t = [groups_onConnect grow now, \<lambda>_. groups_on_service newConnect]"
    "has_flag (ts_status t) serviceEnable \<longleftrightarrow> tc_Enable config"
    "\<not> has_flag (ts_status t) serviceClosed"
    by (simp_all add: t newSubscribeService_def sub_service_opts_def SetSendAll_def SetSendRaw_def
        SetOnConnect_def SetOnClose_def SetKeepalive_def SetReload_def Let_def)
qed

lemma NewSubscribeService_returns:
  assumes "consul_config config" and "split_on (CHR '':'') (tc_Listen config) = host # p # rest"
    and "host \<noteq> ''0.0.0.0''"
  shows "\<exists>t. NewSubscribeService rx grow now api hostname (Inr config) consul = Ret t"
proof -
  have "\<exists>sev. NewService host port [] = Ret sev" for port
    using assms(3) by (simp add: NewService_def Let_def)
  then obtain sev where "NewService host (fst (ParseInt 32 p)) [] = Ret sev" by blast
  with assms show ?thesis
    by (auto simp: NewSubscribeService_def consul_config_def Let_def go_index_def split: prod.splits)
qed

text \<open>
  A small consul for the examples: the list of the registered services and the values put.
\<close>

definition list_consul :: "(string list \<times> kv_pair list) consul_api" where
  "list_consul = \<lparr>
     api_ServiceRegister = (\<lambda>r (ids, kvs). ((ar_ID r # ids, kvs), None)),
     api_CheckRegister = (\<lambda>r c. (c, None)),
     api_ServiceDeregister = (\<lambda>i (ids, kvs). ((filter (\<lambda>j. j \<noteq> i) ids, kvs), None)),
     api_CheckDeregister = (\<lambda>i c. (c, None)),
     api_UpdateTTL = (\<lambda>i c. (c, None)),
     api_SessionCreate = (\<lambda>ttl c. (c, Inr ''session'')),
     api_SessionRenew = (\<lambda>i c. (c, None)),
     api_Put = (\<lambda>p (ids, kvs). ((ids, p # kvs), None))\<rparr>"

definition local_config :: tcp_config where
  "local_config = \<lparr>tc_Listen = ''127.0.0.1:9996'', tc_Enable = True,
     tc_ConsulAddress = ''127.0.0.1:8500'', tc_ConsulEnable = True\<rparr>"

lemma local_config_ok:
  "consul_config local_config"
  "split_on (CHR '':'') (tc_Listen local_config) = [''127.0.0.1'', ''9996'']"
  "tc_Enable local_config"
  by (simp_all add: consul_config_def local_config_def)

text \<open>
  C5: The connection counter of a service that registers in consul is exact. Whatever the nodes,
  the events and the shutdowns do after the service was created, and in whatever order, the
  counter is the number of online subscribers minus those connections that are listed and not
  yet counted; when the accept loop is between two connections it is the number of online
  subscribers.
\<close>

theorem connects_counts_online:
  assumes "consul_config config"
    and "NewSubscribeService rx grow now api hostname (Inr config) consul = Ret t"
    and "(sub_step rx um api)\<^sup>*\<^sup>* (ts_world t, 0) (s, p)"
  shows "\<exists>sev. cw_service (gr_world (ss_groups s)) = Some sev \<and>
    sv_connects sev = of_nat (card (online_nodes s)) - of_nat p"
proof -
  have "count_inv s p"
    using NewSubscribeService_consul(1) [OF assms(1,2)] count_inv_reachable [OF assms(3)] by simp
  then show ?thesis by (force simp: count_inv_def algebra_simps)
qed

theorem connects_counts_online_witness:
  "\<exists>t s. NewSubscribeService (\<lambda>_ _. Some True) Suc 0 list_consul ''host'' (Inr local_config) ([], []) = Ret t \<and>
    s = groups_onConnect Suc 0 new_conn (ts_world t) \<and>
    (\<exists>sev. cw_service (gr_world (ss_groups s)) = Some sev \<and>
      sv_connects sev = of_nat (card (online_nodes s)) - of_nat 1)"
proof -
  obtain t where t: "NewSubscribeService (\<lambda>_ _. Some True) Suc 0 list_consul ''host''
      (Inr local_config) ([], []) = Ret t"
    using NewSubscribeService_returns [OF local_config_ok(1,2)] by fastforce
  have "sub_step (\<lambda>_ _. Some True) id list_consul (ts_world t, 0)
      (groups_onConnect Suc 0 new_conn (ts_world t), Suc 0)"
    by (rule sub_step.accepted)
  from connects_counts_online [OF local_config_ok(1) t, OF r_into_rtranclp, OF this] t show ?thesis
    by auto
qed





text \<open>
  A service configured to listen on the wildcard address with consul enabled never comes up:
  the address to publish cannot be configured, and its constructor panics.
\<close>

theorem wildcard_listen_panics:
  assumes "consul_config config"
    and "tc_Listen config = ''0.0.0.0:'' @ port" and "CHR '':'' \<notin> set port"
  shows "NewSubscribeService rx grow now api hostname (Inr config) consul =
    Panic (LogPanic ''please set consul service ip'')"
proof -
  have "split_on (CHR '':'') (tc_Listen config) = [''0.0.0.0'', port]"
    using split_on_append [of "CHR '':''" "''0.0.0.0''" port] split_on_plain [OF assms(3)]
    by (simp add: assms(2))
  with assms(1) show ?thesis
    by (simp add: NewSubscribeService_def consul_config_def NewService_def Let_def go_index_def)
qed

theorem wildcard_listen_panics_witness:
  "NewSubscribeService (\<lambda>_ _. Some True) Suc 0 list_consul ''host''
     (Inr (local_config\<lparr>tc_Listen := ''0.0.0.0:9996''\<rparr>)) ([], []) =
   Panic (LogPanic ''please set consul service ip'')"
  by (rule wildcard_listen_panics [where port = "''9996''"])
    (simp_all add: consul_config_def local_config_def)

text \<open>
  C28: A reload takes the service out of consul for good. If consul forgets a service that is
  deregistered and removing a check registers nothing, then after a reload that leaves the
  service enabled and listening, its id is not registered, although its status still says
  \<open>Registered\<close>.
\<close>

theorem reload_deregisters:
  assumes consul: "consul_config config"
    and new: "NewSubscribeService rx grow now api hostname (Inr config) consul = Ret t"
    and run: "(sub_step rx um api)\<^sup>*\<^sup>* (ts_world t, 0) (s, p)"
    and dereg: "\<And>i c. i \<notin> ids (fst (api_ServiceDeregister api i c))" "\<And>i c. snd (api_ServiceDeregister api i c) = None"
    and check: "\<And>i c. ids (fst (api_CheckDeregister api i c)) \<subseteq> ids c"
    and cfg: "tc_Enable config'"
  shows "\<exists>t' sev. tcp_Reload (Inr config') True (t\<lparr>ts_world := s\<rparr>) = Ret (t', True) \<and>
    cw_service (gr_world (ss_groups (ts_world t'))) = Some sev \<and>
    sv_ServiceID sev \<notin> ids (cw_consul (gr_world (ss_groups (ts_world t')))) \<and>
    has_flag (ts_status t') serviceEnable \<and> \<not> has_flag (ts_status t') serviceClosed"
proof -
  note wired = NewSubscribeService_consul [OF consul new]
  have "count_inv s p" using wired(1) count_inv_reachable [OF run] by simp
  then have "count_inv (groups_close (groups_reload s)) p"
    by (simp add: groups_reload_def count_inv_close)
  then obtain sev where sev: "cw_service (gr_world (ss_groups (groups_close (groups_reload s)))) = Some sev"
    by (auto simp: count_inv_def)
  let ?c = "cw_consul (gr_world (ss_groups (groups_close (groups_reload s))))"
  have "sv_ServiceID sev \<notin> ids (fst (sv_Deregister api sev ?c))"
    using dereg(1) [of "sv_ServiceID sev" ?c] dereg(2) [of "sv_ServiceID sev" ?c]
      check [of "sv_ServiceID sev" "fst (api_ServiceDeregister api (sv_ServiceID sev) ?c)"]
    by (auto simp: sv_Deregister_def split: prod.splits)
  with sev wired(2,4,6,7) cfg show ?thesis
    by (auto simp: tcp_Reload_def tcp_Close_def tcp_Start_def Let_def tcp_flags groups_on_close_def
        sv_Close_def)
qed

theorem reload_deregisters_witness:
  "\<exists>t. NewSubscribeService (\<lambda>_ _. Some True) Suc 0 list_consul ''host'' (Inr local_config) ([], []) = Ret t \<and>
    (\<exists>t' sev. tcp_Reload (Inr local_config) True t = Ret (t', True) \<and>
      cw_service (gr_world (ss_groups (ts_world t'))) = Some sev \<and>
      sv_ServiceID sev \<notin> set (fst (cw_consul (gr_world (ss_groups (ts_world t'))))))"
proof -
  obtain t where t: "NewSubscribeService (\<lambda>_ _. Some True) Suc 0 list_consul ''host''
      (Inr local_config) ([], []) = Ret t"
    using NewSubscribeService_returns [OF local_config_ok(1,2)] by fastforce
  have "\<exists>t' sev. tcp_Reload (Inr local_config) True (t\<lparr>ts_world := ts_world t\<rparr>) = Ret (t', True) \<and>
      cw_service (gr_world (ss_groups (ts_world t'))) = Some sev \<and>
      sv_ServiceID sev \<notin> set (fst (cw_consul (gr_world (ss_groups (ts_world t'))))) \<and>
      has_flag (ts_status t') serviceEnable \<and> \<not> has_flag (ts_status t') serviceClosed"
    by (rule reload_deregisters [OF local_config_ok(1) t, of id _ 0 "\<lambda>c. set (fst c)"])
      (auto simp: list_consul_def local_config_ok split: prod.splits)
  with t show ?thesis by auto
qed

text \<open>
  After a reload that leaves the service enabled, the accept goroutine of the listener that was
  closed does not end: each of its turns gets an error from \<open>Accept\<close>, finds the service open and
  goes round again, for any number of turns.
\<close>

theorem old_accept_loop_spins:
  assumes "tcp_Reload (Inr config) listens tcp = Ret (tcp', started)" and "tc_Enable config"
  shows "((\<lambda>(t, b). if b then tcp_accept None False t else (t, b)) ^^ n) (tcp', True) = (tcp', True)"
proof -
  have "\<not> has_flag (ts_status tcp') serviceClosed"
    using assms by (auto simp: tcp_Reload_def tcp_Start_def tcp_Close_def Let_def tcp_flags split: if_splits)
  then have "tcp_accept None False tcp' = (tcp', True)" by (simp add: tcp_accept_def)
  then show ?thesis by (induction n) simp_all
qed

theorem old_accept_loop_spins_witness:
  "let tcp = newSubscribeService True ''127.0.0.1:9996'' () []
   in \<exists>tcp'. tcp_Reload (Inr local_config) True tcp = Ret (tcp', True) \<and>
        ((\<lambda>(t, b). if b then tcp_accept None False t else (t, b)) ^^ 1000) (tcp', True) = (tcp', True)"
proof -
  let ?tcp = "newSubscribeService True ''127.0.0.1:9996'' () []"
  have "\<exists>tcp'. tcp_Reload (Inr local_config) True ?tcp = Ret (tcp', True)"
    using tcp_flags(1) [of 0]
    by (auto simp: tcp_Reload_def tcp_Start_def tcp_Close_def Let_def tcp_flags newSubscribeService_def
        local_config_def)
  then show ?thesis using old_accept_loop_spins [of local_config True ?tcp _ True 1000]
    by (auto simp: local_config_ok)
qed

end
