(* ===== verification/Control.thy ===== *)
theory Control
  imports Frame_Reader App
begin

text \<open>
  \<^verbatim>\<open>src/library/control\<close>: the local control port. The server side (\<open>TcpClientNode\<close>) reads
  frames and runs the stop, reload and show-members callbacks it was given; the client side is
  what the command line uses. The callbacks act on a world \<open>'w\<close> that stands for the rest of the
  process; a callback that was never set is \<open>None\<close> and calling it is a nil dereference.
\<close>

subsection \<open>Commands and state\<close>

definition CTL_ERROR :: int64 where "CTL_ERROR = 0"
definition CTL_TICK :: int64 where "CTL_TICK = 1"
definition CTL_STOP :: int64 where "CTL_STOP = 2"
definition CTL_RELOAD :: int64 where "CTL_RELOAD = 3"
definition CTL_SHOW_MEMBERS :: int64 where "CTL_SHOW_MEMBERS = 4"

lemmas ctl_cmd_defs = CTL_ERROR_def CTL_TICK_def CTL_STOP_def CTL_RELOAD_def CTL_SHOW_MEMBERS_def

definition ctl_hasCmd :: "int64 \<Rightarrow> bool" where
  "ctl_hasCmd cmd \<longleftrightarrow>
     cmd = CTL_ERROR \<or> cmd = CTL_TICK \<or> cmd = CTL_STOP \<or> cmd = CTL_RELOAD \<or> cmd = CTL_SHOW_MEMBERS"

definition ctl_nodeOnline :: int where "ctl_nodeOnline = 1"

interpretation ctl_online: status_flag ctl_nodeOnline 0
  by unfold_locales (simp add: ctl_nodeOnline_def)

record 'w control_cb =
  cb_stop :: "('w \<Rightarrow> 'w go) option"
  cb_reload :: "(string \<Rightarrow> 'w \<Rightarrow> 'w go) option"
  cb_showmember :: "('w \<Rightarrow> string go) option"

record 'w ctl_node =
  cn_conn :: conn
  cn_recvBuf :: bytes
  cn_status :: int
  cn_cb :: "'w control_cb"
  cn_world :: 'w

definition ctl_packDataTickOk :: bytes where
  "ctl_packDataTickOk = Pack CTL_TICK (bytes_of ''ok'')"

subsection \<open>The server's node\<close>

definition ctl_nodeStop :: "('w \<Rightarrow> 'w go) option \<Rightarrow> 'w ctl_node \<Rightarrow> 'w ctl_node" where
  "ctl_nodeStop s n = n\<lparr>cn_cb := (cn_cb n)\<lparr>cb_stop := s\<rparr>\<rparr>"

definition ctl_nodeReload :: "(string \<Rightarrow> 'w \<Rightarrow> 'w go) option \<Rightarrow> 'w ctl_node \<Rightarrow> 'w ctl_node" where
  "ctl_nodeReload s n = n\<lparr>cn_cb := (cn_cb n)\<lparr>cb_reload := s\<rparr>\<rparr>"

definition ctl_nodeShowMembers :: "('w \<Rightarrow> string go) option \<Rightarrow> 'w ctl_node \<Rightarrow> 'w ctl_node" where
  "ctl_nodeShowMembers s n = n\<lparr>cn_cb := (cn_cb n)\<lparr>cb_showmember := s\<rparr>\<rparr>"

definition ctl_newNode ::
    "conn \<Rightarrow> 'w \<Rightarrow> ('w ctl_node \<Rightarrow> 'w ctl_node) list \<Rightarrow> 'w ctl_node" where
  "ctl_newNode c w opts =
     foldl (\<lambda>n f. f n)
       \<lparr>cn_conn = c, cn_recvBuf = [], cn_status = ctl_nodeOnline,
        cn_cb = \<lparr>cb_stop = None, cb_reload = None, cb_showmember = None\<rparr>, cn_world = w\<rparr> opts"

definition ctl_close :: "'w ctl_node \<Rightarrow> 'w ctl_node" where
  "ctl_close n =
     (if \<not> has_flag (cn_status n) ctl_nodeOnline then n
      else if has_flag (cn_status n) ctl_nodeOnline
      then n\<lparr>cn_status := cn_status n XOR ctl_nodeOnline, cn_conn := conn_close (cn_conn n)\<rparr>
      else n)"

definition ctl_send :: "'w ctl_node \<Rightarrow> bytes \<Rightarrow> 'w ctl_node \<times> (net_error + nat)" where
  "ctl_send n data =
     (if \<not> has_flag (cn_status n) ctl_nodeOnline then (n, Inl NodeOffline)
      else let (c, r) = conn_write (cn_conn n) data in (n\<lparr>cn_conn := c\<rparr>, r))"

definition ctl_unsupported :: "int64 \<Rightarrow> bytes" where
  "ctl_unsupported cmd =
     bytes_of (''tcp service does not support cmd: '' @ int_digits (sint cmd))"

text \<open>
  The switch of the loop: the node after the command, and whether the default branch was
  taken, after which the loop drops the buffer and returns.
\<close>

definition ctl_switch :: "'w ctl_node \<Rightarrow> int64 \<Rightarrow> bytes \<Rightarrow> ('w ctl_node \<times> bool) go" where
  "ctl_switch n cmd content =
     (if cmd = CTL_TICK then Ret (fst (ctl_send n ctl_packDataTickOk), False)
      else if cmd = CTL_STOP then
        (case cb_stop (cn_cb n) of
           None \<Rightarrow> Panic NilDereference
         | Some f \<Rightarrow> go_bind (f (cn_world n)) (\<lambda>w.
             Ret (fst (ctl_send (n\<lparr>cn_world := w\<rparr>) (Pack CTL_STOP (bytes_of ''ok''))), False)))
      else if cmd = CTL_RELOAD then
        (case cb_reload (cn_cb n) of
           None \<Rightarrow> Panic NilDereference
         | Some f \<Rightarrow> go_bind (f (string_of content) (cn_world n)) (\<lambda>w.
             Ret (fst (ctl_send (n\<lparr>cn_world := w\<rparr>) (Pack CTL_RELOAD (bytes_of ''ok''))), False)))
      else if cmd = CTL_SHOW_MEMBERS then
        (case cb_showmember (cn_cb n) of
           None \<Rightarrow> Panic NilDereference
         | Some f \<Rightarrow> go_bind (f (cn_world n)) (\<lambda>members.
             Ret (fst (ctl_send n (Pack CTL_SHOW_MEMBERS (bytes_of members))), False)))
      else Ret (fst (ctl_send n (Pack CTL_ERROR (ctl_unsupported cmd))), True))"

lemma ctl_send_recvBuf [simp]:
  "cn_recvBuf (fst (ctl_send n d)) = cn_recvBuf n"
  "cn_cb (fst (ctl_send n d)) = cn_cb n"
  "cn_status (fst (ctl_send n d)) = cn_status n"
  "cn_world (fst (ctl_send n d)) = cn_world n"
  by (simp_all add: ctl_send_def split: prod.split)

lemma ctl_switch_recvBuf: "ctl_switch n cmd c = Ret (n', d) \<Longrightarrow> cn_recvBuf n' = cn_recvBuf n"
  by (auto simp: ctl_switch_def split: if_splits option.splits)

function ctl_loop :: "'w ctl_node \<Rightarrow> 'w ctl_node go" where
  "ctl_loop n =
     (let size = length (cn_recvBuf n) in
      if size < 6 then Ret n
      else let clen = hdr_clen (cn_recvBuf n) in
      if int (length (cn_recvBuf n)) < clen + 4 then Ret n
      else let cmd = hdr_cmd (cn_recvBuf n) in
      if \<not> ctl_hasCmd cmd then Ret (n\<lparr>cn_recvBuf := []\<rparr>)
      else go_bind (go_slice (cn_recvBuf n) 6 (clen + 4)) (\<lambda>content.
        go_bind (ctl_switch n cmd content) (\<lambda>(n', unsupported).
          if unsupported then Ret (n'\<lparr>cn_recvBuf := []\<rparr>)
          else ctl_loop (n'\<lparr>cn_recvBuf := drop (nat (clen + 4)) (cn_recvBuf n')\<rparr>))))"
  by pat_completeness auto
termination
  by (relation "measure (\<lambda>n. length (cn_recvBuf n))")
    (auto simp: go_slice_Ret dest: ctl_switch_recvBuf)

declare ctl_loop.simps [simp del]

definition ctl_onMessage :: "'w ctl_node \<Rightarrow> bytes \<Rightarrow> 'w ctl_node go" where
  "ctl_onMessage n msg = ctl_loop (n\<lparr>cn_recvBuf := cn_recvBuf n @ msg\<rparr>)"

text \<open>The read loop: the reads the connection delivers, then the error that ends it.\<close>

definition ctl_readMessage :: "'w ctl_node \<Rightarrow> bytes list \<Rightarrow> 'w ctl_node go" where
  "ctl_readMessage n reads = go_bind (go_foldM ctl_onMessage n reads) (\<lambda>n'. Ret (ctl_close n'))"

subsection \<open>The service\<close>

record 'w ctl_service =
  cs_Address :: string
  cs_token :: string
  cs_listener :: "bool option" \<comment> \<open>the listener once \<open>Start\<close> opened it; \<open>True\<close> while it is open\<close>
  cs_cb :: "'w control_cb"

definition ctl_ShowMember :: "('w \<Rightarrow> string go) \<Rightarrow> 'w ctl_service \<Rightarrow> 'w ctl_service" where
  "ctl_ShowMember f tcp = tcp\<lparr>cs_cb := (cs_cb tcp)\<lparr>cb_showmember := Some f\<rparr>\<rparr>"

definition ctl_Reload :: "(string \<Rightarrow> 'w \<Rightarrow> 'w go) \<Rightarrow> 'w ctl_service \<Rightarrow> 'w ctl_service" where
  "ctl_Reload f tcp = tcp\<lparr>cs_cb := (cs_cb tcp)\<lparr>cb_reload := Some f\<rparr>\<rparr>"

definition ctl_Stop :: "('w \<Rightarrow> 'w go) \<Rightarrow> 'w ctl_service \<Rightarrow> 'w ctl_service" where
  "ctl_Stop f tcp = tcp\<lparr>cs_cb := (cs_cb tcp)\<lparr>cb_stop := Some f\<rparr>\<rparr>"

definition NewControl ::
    "nat \<Rightarrow> (nat \<Rightarrow> nat) \<Rightarrow> app_error + app_config \<Rightarrow> app_env \<Rightarrow> file_system
       \<Rightarrow> ('w ctl_service \<Rightarrow> 'w ctl_service) list \<Rightarrow> (file_system \<times> 'w ctl_service) go" where
  "NewControl now rnd cfg env fs opts =
     go_bind (deref cfg) (\<lambda>config.
     go_bind (GetKey now rnd (ev_CachePath env @ ''/token'') fs) (\<lambda>(fs, token).
       Ret (fs, foldl (\<lambda>tcp f. f tcp)
         \<lparr>cs_Address = ac_ControlListen config, cs_token = token, cs_listener = None,
          cs_cb = \<lparr>cb_stop = None, cb_reload = None, cb_showmember = None\<rparr>\<rparr> opts)))"

text \<open>
  The accept loop of \<open>Start\<close>. Each turn is what \<open>Accept\<close> returned (\<open>None\<close> for an error) and
  whether the context was cancelled by then; the nodes whose read loops it spawned are the
  result.
\<close>

fun ctl_accept_loop :: "'w ctl_service \<Rightarrow> 'w \<Rightarrow> (conn option \<times> bool) list \<Rightarrow> 'w ctl_node list" where
  "ctl_accept_loop tcp w [] = []"
| "ctl_accept_loop tcp w ((c, stopped) # turns) =
     (if stopped then []
      else case c of
        None \<Rightarrow> ctl_accept_loop tcp w turns
      | Some conn \<Rightarrow>
          ctl_newNode conn w
            [ctl_nodeStop (cb_stop (cs_cb tcp)), ctl_nodeReload (cb_reload (cs_cb tcp)),
             ctl_nodeShowMembers (cb_showmember (cs_cb tcp))]
          # ctl_accept_loop tcp w turns)"

text \<open>\<open>listens\<close>: whether \<open>net.Listen\<close> succeeds.\<close>

definition ctl_Start ::
    "bool \<Rightarrow> 'w ctl_service \<Rightarrow> 'w \<Rightarrow> (conn option \<times> bool) list
       \<Rightarrow> 'w ctl_service \<times> 'w ctl_node list" where
  "ctl_Start listens tcp w turns =
     (if \<not> listens then (tcp, [])
      else (tcp\<lparr>cs_listener := Some True\<rparr>, ctl_accept_loop tcp w turns))"

definition ctl_Close :: "'w ctl_service \<Rightarrow> 'w ctl_service" where
  "ctl_Close tcp =
     (case cs_listener tcp of None \<Rightarrow> tcp | Some _ \<Rightarrow> tcp\<lparr>cs_listener := Some False\<rparr>)"

subsection \<open>The command line's side\<close>

text \<open>
  \<open>dial\<close> is the connection to an address, \<open>None\<close> when it cannot be resolved or refuses.
\<close>

definition ctl_NewClient :: "(string \<Rightarrow> conn option) \<Rightarrow> app_error + app_config \<Rightarrow> conn go" where
  "ctl_NewClient dial cfg =
     go_bind (deref cfg) (\<lambda>config.
       case dial (ac_ControlListen config) of
         None \<Rightarrow> Panic (LogPanic ''start control with error'')
       | Some c \<Rightarrow> Ret c)"

text \<open>What a client writes, and what it prints after one read of \<open>n\<close> bytes at most.\<close>

definition ctl_client_print :: "nat \<Rightarrow> bytes \<Rightarrow> string" where
  "ctl_client_print n reply = string_of (go_copy (replicate n 0) 0 reply)"

definition ctl_client_Stop :: "conn \<Rightarrow> bytes \<Rightarrow> conn \<times> string" where
  "ctl_client_Stop c reply =
     (fst (conn_write c (Pack CTL_STOP (bytes_of ''''))), ctl_client_print 1024 reply)"

definition ctl_client_Reload :: "conn \<Rightarrow> string \<Rightarrow> conn" where
  "ctl_client_Reload c serviceName = fst (conn_write c (Pack CTL_RELOAD (bytes_of serviceName)))"

definition ctl_client_ShowMembers :: "conn \<Rightarrow> bytes \<Rightarrow> conn \<times> string" where
  "ctl_client_ShowMembers c reply =
     (fst (conn_write c (Pack CTL_SHOW_MEMBERS (bytes_of ''''))), ctl_client_print 40960 reply)"

definition ctl_client_Close :: "conn \<Rightarrow> conn" where
  "ctl_client_Close c = conn_close c"

subsection \<open>The node is a frame reader\<close>

definition ctl_accepts :: "int64 \<times> bytes \<Rightarrow> bool" where
  "ctl_accepts f \<longleftrightarrow>
     frame_fits f \<and> fst f \<in> {CTL_TICK, CTL_STOP, CTL_RELOAD, CTL_SHOW_MEMBERS}"

definition ctl_handle :: "'w ctl_node \<Rightarrow> int64 \<times> bytes \<Rightarrow> 'w ctl_node go" where
  "ctl_handle n f = go_bind (ctl_switch n (fst f) (snd f)) (\<lambda>(n', _). Ret n')"

lemma ctl_accepts_hasCmd: "ctl_accepts f \<Longrightarrow> ctl_hasCmd (fst f)"
  by (auto simp: ctl_accepts_def ctl_hasCmd_def)

lemma ctl_switch_accepted:
  "ctl_accepts f \<Longrightarrow> ctl_switch n (fst f) (snd f) = Ret (n', d) \<Longrightarrow> \<not> d"
  by (auto simp: ctl_accepts_def ctl_switch_def ctl_cmd_defs split: if_splits option.splits)

lemma ctl_send_set_recvBuf:
  "fst (ctl_send (n\<lparr>cn_recvBuf := b\<rparr>) d) = (fst (ctl_send n d))\<lparr>cn_recvBuf := b\<rparr>"
  "fst (ctl_send (n\<lparr>cn_recvBuf := b, cn_world := w\<rparr>) d) =
     (fst (ctl_send (n\<lparr>cn_world := w\<rparr>) d))\<lparr>cn_recvBuf := b\<rparr>"
  by (simp_all add: ctl_send_def split: prod.split)

lemma ctl_handle_set_recvBuf:
  "ctl_handle (n\<lparr>cn_recvBuf := b\<rparr>) f = go_bind (ctl_handle n f) (\<lambda>n'. Ret (n'\<lparr>cn_recvBuf := b\<rparr>))"
  by (simp add: ctl_handle_def ctl_switch_def ctl_send_set_recvBuf go_simps split: option.split)

lemma ctl_loop_waits:
  assumes "frame_fits f" and "strict_prefix (cn_recvBuf n) (enc_frame f)"
  shows "ctl_loop n = Ret n"
  using partial_header [OF assms] by (subst ctl_loop.simps) (auto simp: Let_def)

lemma ctl_loop_consumes:
  assumes "ctl_accepts f" and "cn_recvBuf n = enc_frame f @ rest"
  shows "ctl_loop n = go_bind (ctl_handle n f) (\<lambda>n'. ctl_loop (n'\<lparr>cn_recvBuf := rest\<rparr>))"
proof -
  note h = whole_header [OF _ assms(2)]
  have fits: "frame_fits f" using assms(1) by (simp add: ctl_accepts_def)
  have "ctl_loop n = go_bind (ctl_switch n (fst f) (snd f)) (\<lambda>(n', unsupported).
      if unsupported then Ret (n'\<lparr>cn_recvBuf := []\<rparr>)
      else ctl_loop (n'\<lparr>cn_recvBuf := drop (nat (hdr_clen (cn_recvBuf n) + 4)) (cn_recvBuf n')\<rparr>))"
    using h(1,4) [OF fits] h(3,5) [OF fits] ctl_accepts_hasCmd [OF assms(1)]
    by (subst ctl_loop.simps) (simp add: Let_def)
  also have "\<dots> = go_bind (ctl_switch n (fst f) (snd f)) (\<lambda>(n', _). ctl_loop (n'\<lparr>cn_recvBuf := rest\<rparr>))"
  proof (rule go_bind_cong_Ret)
    fix x
    assume x: "ctl_switch n (fst f) (snd f) = Ret x"
    obtain n' d where "x = (n', d)" by (cases x)
    with x ctl_switch_accepted [OF assms(1)] ctl_switch_recvBuf h(6) [OF fits]
    show "(case x of (n', unsupported) \<Rightarrow>
        if unsupported then Ret (n'\<lparr>cn_recvBuf := []\<rparr>)
        else ctl_loop (n'\<lparr>cn_recvBuf := drop (nat (hdr_clen (cn_recvBuf n) + 4)) (cn_recvBuf n')\<rparr>)) =
      (case x of (n', _) \<Rightarrow> ctl_loop (n'\<lparr>cn_recvBuf := rest\<rparr>))"
      by fastforce
  qed
  finally show ?thesis by (simp add: ctl_handle_def go_simps case_prod_beta')
qed

interpretation ctl_reader: frame_reader
  cn_recvBuf "\<lambda>b n. n\<lparr>cn_recvBuf := b\<rparr>" ctl_accepts ctl_handle ctl_loop ctl_onMessage
proof unfold_locales
  fix n :: "'w ctl_node"
  assume "cn_recvBuf n = []"
  then show "ctl_loop n = Ret n" by (subst ctl_loop.simps) (simp add: Let_def)
next
  fix n :: "'w ctl_node" and f
  assume "ctl_accepts f" and "strict_prefix (cn_recvBuf n) (enc_frame f)"
  then show "ctl_loop n = Ret n" by (intro ctl_loop_waits) (simp_all add: ctl_accepts_def)
qed (simp_all add: ctl_handle_set_recvBuf ctl_loop_consumes ctl_onMessage_def)

lemma control_reload_run:
  assumes "length name + 2 < 2 ^ 32" and "conn_up c" and "conn_out c = []"
    and "conn_out (ctl_client_Reload c name) = [sent]" and "concat chunks = sent"
    and "has_flag (cn_status n) ctl_nodeOnline" and "conn_up (cn_conn n)" and "cn_recvBuf n = []"
    and "cb_reload (cn_cb n) = Some f" and "f name (cn_world n) = Ret w"
  shows "go_foldM ctl_onMessage n chunks =
    Ret (n\<lparr>cn_world := w, cn_conn := (cn_conn n)\<lparr>conn_out :=
      conn_out (cn_conn n) @ [Pack CTL_RELOAD (bytes_of ''ok'')]\<rparr>\<rparr>)"
proof -
  let ?f = "(CTL_RELOAD, bytes_of name)"
  have sent: "sent = enc_frame ?f"
    using assms(2-4) by (simp add: ctl_client_Reload_def enc_frame_def)
  have "ctl_accepts ?f"
    using assms(1) by (simp add: ctl_accepts_def frame_fits_def ctl_cmd_defs)
  then have "go_foldM ctl_onMessage n chunks = go_foldM ctl_handle n [?f]"
    using assms(5,8) sent by (intro ctl_reader.reassembly_whole) simp_all
  also have "\<dots> = Ret (n\<lparr>cn_world := w, cn_conn := (cn_conn n)\<lparr>conn_out :=
      conn_out (cn_conn n) @ [Pack CTL_RELOAD (bytes_of ''ok'')]\<rparr>\<rparr>)"
    using assms(6,7,9,10)
    by (simp add: ctl_handle_def ctl_switch_def ctl_cmd_defs ctl_send_def)
  finally show ?thesis .
qed

subsection \<open>Properties\<close>

text \<open>
  The control port handles a stream of commands the same way however the connection cuts it
  into reads: every command is handled once, in order, and nothing is left in the buffer.
\<close>

theorem control_reassembly:
  assumes "\<forall>f \<in> set fs. ctl_accepts f" and "cn_recvBuf n = []"
    and "concat chunks = frame_stream fs"
  shows "go_foldM ctl_onMessage n chunks = go_foldM ctl_handle n fs"
  using assms by (rule ctl_reader.reassembly_whole)

definition demo_node :: "string list ctl_node" where
  "demo_node = ctl_newNode new_conn []
     [ctl_nodeStop (Some (\<lambda>w. Ret (w @ [''stop'']))),
      ctl_nodeReload (Some (\<lambda>name w. Ret (w @ [name]))),
      ctl_nodeShowMembers (Some (\<lambda>w. Ret ''none''))]"

theorem control_reassembly_witness:
  "go_foldM ctl_onMessage demo_node
     [take 3 (enc_frame (CTL_RELOAD, bytes_of ''http'')),
      drop 3 (enc_frame (CTL_RELOAD, bytes_of ''http'')) @ enc_frame (CTL_STOP, [])] =
   go_foldM ctl_handle demo_node [(CTL_RELOAD, bytes_of ''http''), (CTL_STOP, [])]"
  by (rule control_reassembly)
    (auto simp: ctl_accepts_def frame_fits_def ctl_cmd_defs demo_node_def ctl_newNode_def
      ctl_nodeStop_def ctl_nodeReload_def ctl_nodeShowMembers_def)

text \<open>
  The command line's reload reaches the callback. The bytes a client writes for a service
  name, read by the server in any pieces, run the reload callback once with that name, and the
  server answers with an \<open>ok\<close> frame and then is ready for the next command.
\<close>

theorem control_reload_end_to_end:
  assumes "length name + 2 < 2 ^ 32" and "conn_up c" and "conn_out c = []"
    and "conn_out (ctl_client_Reload c name) = [sent]" and "concat chunks = sent"
    and "has_flag (cn_status n) ctl_nodeOnline" and "conn_up (cn_conn n)" and "cn_recvBuf n = []"
    and "cb_reload (cn_cb n) = Some f" and "f name (cn_world n) = Ret w"
  shows "go_foldM ctl_onMessage n chunks =
    Ret (n\<lparr>cn_world := w, cn_conn := (cn_conn n)\<lparr>conn_out :=
      conn_out (cn_conn n) @ [Pack CTL_RELOAD (bytes_of ''ok'')]\<rparr>\<rparr>)"
  using assms by (rule control_reload_run)

theorem control_reload_end_to_end_witness:
  "\<exists>n. go_foldM ctl_onMessage demo_node (map (\<lambda>b. [b]) (Pack CTL_RELOAD (bytes_of ''redis''))) = Ret n \<and>
     cn_world n = [''redis''] \<and> conn_out (cn_conn n) = [Pack CTL_RELOAD (bytes_of ''ok'')]"
proof -
  have bytes: "concat (map (\<lambda>b. [b]) xs) = xs" for xs :: bytes by (induction xs) simp_all
  have "go_foldM ctl_onMessage demo_node (map (\<lambda>b. [b]) (Pack CTL_RELOAD (bytes_of ''redis''))) =
    Ret (demo_node\<lparr>cn_world := [''redis''], cn_conn := (cn_conn demo_node)\<lparr>conn_out :=
      conn_out (cn_conn demo_node) @ [Pack CTL_RELOAD (bytes_of ''ok'')]\<rparr>\<rparr>)"
    by (rule control_reload_end_to_end [where c = new_conn and name = "''redis''" and
          f = "\<lambda>name w. Ret (w @ [name])"], unfold bytes)
      (use ctl_online.set_has [of 0] in \<open>simp_all add: demo_node_def ctl_newNode_def ctl_nodeStop_def
        ctl_nodeReload_def ctl_nodeShowMembers_def ctl_client_Reload_def, simp_all add: new_conn_def\<close>)
  then show ?thesis
    by (simp add: demo_node_def ctl_newNode_def ctl_nodeStop_def ctl_nodeReload_def
        ctl_nodeShowMembers_def new_conn_def)
qed

end
