(* ===== verification/Program.thy ===== *)
theory Program
  imports Agent Binlog_Life Http_Service Kafka_Service Subscribe_Service Control
begin

text \<open>
  \<^verbatim>\<open>src/wing-binlog-go/main.go\<close> and \<^verbatim>\<open>src/library/app/linux.go\<close>: the command line, the construction and
  wiring of the components, and the dispatch of a reload.

  The process as the binlog handler sees it is a \<open>program\<close>: the four services and the network side
  of the agent. The agent's callbacks act on the binlog handler over that world. What is read from
  outside (configuration files, the orders of map ranges, whether a port can be listened on) is
  gathered in \<open>main_env\<close>.
\<close>

subsection \<open>The world of the handler\<close>

record 'c program =
  pg_http :: http_service
  pg_redis :: redis_service
  pg_kafka :: kafka_service
  pg_sub :: "'c sub_world tcp_service"
  pg_net :: agent_net

record main_env =
  me_rx :: regexp
  me_ord :: "string list"                     \<comment> \<open>order of a range over the http groups\<close>
  me_cpu :: nat
  me_http :: "app_error + http_config"
  me_redis :: "app_error + redis_config"
  me_kafka :: "app_error + kafka_config"
  me_brokers :: "string list \<Rightarrow> bool"         \<comment> \<open>whether a producer can be created\<close>
  me_sub :: "app_error + tcp_config"
  me_listens :: bool                          \<comment> \<open>whether \<open>net.Listen\<close> succeeds\<close>
  me_agent :: "app_error + agent_config"

definition http_if :: "main_env \<Rightarrow> 'c program service_if" where
  "http_if me =
     \<lparr>si_Name = http_Name,
      si_SendAll = (\<lambda>t d w. go_bind (http_SendAll (me_rx me) (me_ord me) t d (pg_http w)) (\<lambda>(s, b). Ret (w\<lparr>pg_http := s\<rparr>, b))),
      si_Start = (\<lambda>w. Ret (w\<lparr>pg_http := http_Start (me_cpu me) (pg_http w)\<rparr>)),
      si_Close = (\<lambda>w. go_bind (http_Close (me_ord me) (pg_http w)) (\<lambda>s. Ret (w\<lparr>pg_http := s\<rparr>))),
      si_Reload = (\<lambda>w. go_bind (http_Reload (me_http me) (me_ord me) (pg_http w)) (\<lambda>s. Ret (w\<lparr>pg_http := s\<rparr>)))\<rparr>"

definition redis_if :: "main_env \<Rightarrow> 'c program service_if" where
  "redis_if me =
     \<lparr>si_Name = redis_Name,
      si_SendAll = (\<lambda>t d w. go_bind (redis_SendAll (me_rx me) t d (pg_redis w)) (\<lambda>(s, b). Ret (w\<lparr>pg_redis := s\<rparr>, b))),
      si_Start = (\<lambda>w. go_bind (redis_Start (pg_redis w)) (\<lambda>s. Ret (w\<lparr>pg_redis := s\<rparr>))),
      si_Close = (\<lambda>w. go_bind (redis_Close (pg_redis w)) (\<lambda>s. Ret (w\<lparr>pg_redis := s\<rparr>))),
      si_Reload = (\<lambda>w. go_bind (redis_Reload (me_redis me) (pg_redis w)) (\<lambda>s. Ret (w\<lparr>pg_redis := s\<rparr>)))\<rparr>"

definition kafka_if :: "main_env \<Rightarrow> 'c program service_if" where
  "kafka_if me =
     \<lparr>si_Name = kafka_Name,
      si_SendAll = (\<lambda>t d w. go_bind (kafka_SendAll (me_rx me) t d (pg_kafka w)) (\<lambda>(s, b). Ret (w\<lparr>pg_kafka := s\<rparr>, b))),
      si_Start = (\<lambda>w. go_bind (kafka_Start (pg_kafka w)) (\<lambda>s. Ret (w\<lparr>pg_kafka := s\<rparr>))),
      si_Close = (\<lambda>w. go_bind (kafka_Close (pg_kafka w)) (\<lambda>s. Ret (w\<lparr>pg_kafka := s\<rparr>))),
      si_Reload = (\<lambda>w. go_bind (kafka_Reload (me_brokers me) (me_kafka me) (pg_kafka w)) (\<lambda>s. Ret (w\<lparr>pg_kafka := s\<rparr>)))\<rparr>"

definition sub_if :: "main_env \<Rightarrow> 'c program service_if" where
  "sub_if me =
     \<lparr>si_Name = tcp_Name,
      si_SendAll = (\<lambda>t d w. go_bind (tcp_SendAll t d (pg_sub w)) (\<lambda>(s, b). Ret (w\<lparr>pg_sub := s\<rparr>, b))),
      si_Start = (\<lambda>w. Ret (w\<lparr>pg_sub := fst (tcp_Start (me_listens me) (pg_sub w))\<rparr>)),
      si_Close = (\<lambda>w. Ret (w\<lparr>pg_sub := tcp_Close (pg_sub w)\<rparr>)),
      si_Reload = (\<lambda>w. go_bind (tcp_Reload (me_sub me) (me_listens me) (pg_sub w)) (\<lambda>(s, _). Ret (w\<lparr>pg_sub := s\<rparr>)))\<rparr>"

subsection \<open>Wiring\<close>

text \<open>The closures \<open>main\<close> gives to the handler: what it reports is broadcast to the followers.\<close>

definition sync_pos :: "bool \<Rightarrow> bytes \<Rightarrow> 'c program \<Rightarrow> 'c program go" where
  "sync_pos enable data w = Ret (w\<lparr>pg_net := ag_Sync enable (Pack AG_POS data) (pg_net w)\<rparr>)"

definition sync_event :: "bool \<Rightarrow> string \<Rightarrow> bytes \<Rightarrow> 'c program \<Rightarrow> 'c program go" where
  "sync_event enable table data w = Ret (w\<lparr>pg_net := ag_Sync enable (Pack AG_EVENT data) (pg_net w)\<rparr>)"

text \<open>\<open>subscribeService.SendAll\<close> and \<open>SendRaw\<close> as callbacks of the agent.\<close>

definition agent_event :: "string \<Rightarrow> bytes \<Rightarrow> 'c program binlog \<Rightarrow> ('c program binlog \<times> bool) go" where
  "agent_event table data h =
     go_bind (tcp_SendAll table data (pg_sub (bl_world h))) (\<lambda>(s, b).
       Ret (h\<lparr>bl_world := (bl_world h)\<lparr>pg_sub := s\<rparr>\<rparr>, b))"

definition agent_raw :: "bytes \<Rightarrow> 'c program binlog \<Rightarrow> ('c program binlog \<times> bool) go" where
  "agent_raw data h =
     go_bind (tcp_SendRaw data (pg_sub (bl_world h))) (\<lambda>(s, b).
       Ret (h\<lparr>bl_world := (bl_world h)\<lparr>pg_sub := s\<rparr>\<rparr>, b))"

text \<open>
  The part of \<open>main\<close> that builds the process. The options of the agent only register callbacks, so
  the handler they will act on, which does not exist yet, stands as its zero value. \<open>ord\<close> is the
  order of the range over the services at \<open>blog.Start\<close>.
\<close>

definition main_build ::
    "main_env \<Rightarrow> app_env \<Rightarrow> canal_env \<Rightarrow> app_error + mysql_config \<Rightarrow> 'c sub_world tcp_service go \<Rightarrow> string list
       \<Rightarrow> file_system \<Rightarrow> (file_system \<times> 'c program binlog agent \<times> 'c program binlog) go" where
  "main_build me env ce mysql newSub ord fs =
     go_bind (NewHttpService (me_http me)) (\<lambda>httpService.
     let redisService = NewRedis (me_redis me) in
     go_bind (NewProducer (me_brokers me) (me_kafka me)) (\<lambda>kafkaService.
     go_bind newSub (\<lambda>subscribeService.
     let w = \<lparr>pg_http = httpService, pg_redis = redisService, pg_kafka = kafkaService, pg_sub = subscribeService,
              pg_net = agent_net_init\<rparr> in
     go_bind (NewAgentServer (me_agent me) [ag_OnEvent agent_event, ag_OnRaw agent_raw] (binlog_init mysql w))
       (\<lambda>(agentServer, _).
     go_bind (NewBinlog env ce mysql w
                [PosChange (sync_pos (ag_enable agentServer)), OnEvent (sync_event (ag_enable agentServer))] fs)
       (\<lambda>(fs, blog).
     let blog = RegisterService (http_if me) blog;
         blog = RegisterService (redis_if me) blog;
         blog = RegisterService (kafka_if me) blog;
         blog = RegisterService (sub_if me) blog in
     go_bind (bl_Start ord blog) (\<lambda>blog.
     go_bind (ag_OnPos SaveBinlogPosition agentServer blog) (\<lambda>(agentServer, blog).
     go_bind (ag_OnLeader OnLeader agentServer blog) (\<lambda>(agentServer, blog).
       Ret (fs, agentServer,
            blog\<lparr>bl_world := (bl_world blog)\<lparr>pg_net := ag_Start agentServer (pg_net (bl_world blog))\<rparr>\<rparr>)))))))))"

definition main_reload :: "main_env \<Rightarrow> string \<Rightarrow> 'c program \<Rightarrow> 'c program go" where
  "main_reload me name w =
     (if name = ''all'' then
        go_bind (si_Reload (redis_if me) w) (\<lambda>w.
        go_bind (si_Reload (http_if me) w) (\<lambda>w.
        go_bind (si_Reload (kafka_if me) w) (\<lambda>w.
          si_Reload (sub_if me) w)))
      else if name = http_Name then si_Reload (http_if me) w
      else if name = redis_Name then si_Reload (redis_if me) w
      else if name = tcp_Name then si_Reload (sub_if me) w
      else Ret w)"

text \<open>
  The control port over the whole process: the context, the agent and the handler. \<open>members\<close> is what
  consul answers when the table of members is asked for.
\<close>

type_synonym 'c process = "app_context \<times> 'c program binlog agent \<times> 'c program binlog"

definition main_control ::
    "main_env \<Rightarrow> string option \<Rightarrow> service_member list option \<Rightarrow> nat \<Rightarrow> (nat \<Rightarrow> nat) \<Rightarrow> app_error + app_config \<Rightarrow> app_env \<Rightarrow> file_system
       \<Rightarrow> (file_system \<times> 'c process ctl_service) go" where
  "main_control me hostname members now rnd cfg env fs =
     NewControl now rnd cfg env fs
       [ctl_ShowMember (\<lambda>(ctx, a, h). Ret (ShowMembers hostname members a)),
        ctl_Reload (\<lambda>name (ctx, a, h). go_bind (main_reload me name (bl_world h)) (\<lambda>w. Ret (ctx, a, h\<lparr>bl_world := w\<rparr>))),
        ctl_Stop (\<lambda>(ctx, a, h). Ret (ctx_Stop ctx, a, h))]"

text \<open>The end of \<open>main\<close>: cancel, close the handler, then the deferred closes.\<close>

definition main_stop ::
    "app_context \<Rightarrow> string list \<Rightarrow> 'c program binlog agent \<Rightarrow> 'c program binlog \<Rightarrow> (app_context \<times> 'c program binlog) go" where
  "main_stop ctx ord agentServer blog =
     go_bind (ctx_Done ctx) (\<lambda>ctx.
     let ctx = ctx_Cancel ctx in
     go_bind (bl_Close ord blog) (\<lambda>blog.
       Ret (ctx, blog\<lparr>bl_world := (bl_world blog)\<lparr>pg_net := ag_Close agentServer (pg_net (bl_world blog))\<rparr>\<rparr>)))"

subsection \<open>The command line\<close>

record cmd_flags =
  cf_version :: bool
  cf_v :: bool
  cf_stop :: bool
  cf_reload :: string
  cf_help :: bool
  cf_members :: bool
  cf_daemon :: bool
  cf_d :: bool
  cf_configPath :: string

definition isCmd :: "cmd_flags \<Rightarrow> bool" where
  "isCmd f \<longleftrightarrow> cf_version f \<or> cf_stop f \<or> cf_reload f \<noteq> '''' \<or> cf_help f \<or> cf_members f \<or> cf_v f"

datatype cmd_result =
    PrintVersion
  | SentStop conn string
  | SentReload conn
  | PrintUsage conn
  | ShownMembers conn string
  | NoCommand conn

text \<open>The client is closed when the function returns.\<close>

definition runCmd :: "(string \<Rightarrow> conn option) \<Rightarrow> bytes \<Rightarrow> app_error + app_config \<Rightarrow> cmd_flags \<Rightarrow> cmd_result go" where
  "runCmd dial reply cfg f =
     (if cf_version f \<or> cf_v f then Ret PrintVersion
      else go_bind (ctl_NewClient dial cfg) (\<lambda>cli.
        if cf_stop f then (case ctl_client_Stop cli reply of (c, s) \<Rightarrow> Ret (SentStop (ctl_client_Close c) s))
        else if cf_reload f \<noteq> '''' then Ret (SentReload (ctl_client_Close (ctl_client_Reload cli (cf_reload f))))
        else if cf_help f then Ret (PrintUsage (ctl_client_Close cli))
        else if cf_members f then
          (case ctl_client_ShowMembers cli reply of (c, s) \<Rightarrow> Ret (ShownMembers (ctl_client_Close c) s))
        else Ret (NoCommand (ctl_client_Close cli))))"

text \<open>
  The beginning of \<open>main\<close>. \<open>Reborn\<close> is that of the daemon library, \<open>arg\<close> the name the process was
  started with. In the parent of a daemon the deferred \<open>Release\<close> is still to run (\<open>main_return\<close>): the
  child runs meanwhile.
\<close>

datatype main_start =
    OtherProcess file_system
  | Command file_system "cmd_result go"
  | DaemonParent app_env file_system daemon_context
  | DaemonFails file_system
  | Serve app_env file_system app_context

definition main_begin ::
    "(string \<Rightarrow> app_config option) \<Rightarrow> (string \<Rightarrow> mysql_config option) \<Rightarrow> nat \<Rightarrow> (string \<Rightarrow> conn option) \<Rightarrow> bytes
       \<Rightarrow> (daemon_context \<Rightarrow> reborn) \<Rightarrow> string \<Rightarrow> string \<Rightarrow> cmd_flags \<Rightarrow> app_env \<Rightarrow> file_system \<Rightarrow> main_start go" where
  "main_begin adec mdec pid dial reply Reborn arg CurrentPath f env fs =
     go_bind (app_Init adec pid (isCmd f) (cf_configPath f) env fs) (\<lambda>r.
       case r of
         ExitProcess fs \<Rightarrow> Ret (OtherProcess fs)
       | Initialised env fs _ _ \<Rightarrow>
           go_bind (NewContext mdec adec env fs) (\<lambda>(fs, appContext).
             if isCmd f then Ret (Command (app_Release env fs) (runCmd dial reply (cx_AppConfig appContext) f))
             else case DaemonProcess Reborn arg CurrentPath env (cf_daemon f \<or> cf_d f) of
                    DaemonFatal \<Rightarrow> Ret (DaemonFails fs)
                  | DaemonReturns True ctx \<Rightarrow> Ret (DaemonParent env fs (the ctx))
                  | DaemonReturns False _ \<Rightarrow> Ret (Serve env fs appContext)))"

definition main_return :: "app_env \<Rightarrow> file_system \<Rightarrow> file_system" where
  "main_return env fs = app_Release env fs"

subsection \<open>Wiring: lemmas\<close>

text \<open>The callbacks and services a process of an enabled agent runs with.\<close>

definition wired :: "main_env \<Rightarrow> 'c program binlog agent \<Rightarrow> 'c program binlog \<Rightarrow> bool" where
  "wired me a h \<longleftrightarrow> ag_enable a \<and> ag_onEvent a = [agent_event] \<and> ag_onPos a = [SaveBinlogPosition] \<and>
     ag_onLeader a = [OnLeader] \<and> bl_onPosChanges h = [sync_pos True] \<and> bl_onEvent h = [sync_event True] \<and>
     bl_services h = [http_Name \<mapsto> http_if me, redis_Name \<mapsto> redis_if me, kafka_Name \<mapsto> kafka_if me, tcp_Name \<mapsto> sub_if me]"

lemma handlerInit_keeps:
  "handlerInit env ce fs h = Ret (fs', h') \<Longrightarrow>
     bl_onPosChanges h' = bl_onPosChanges h \<and> bl_onEvent h' = bl_onEvent h \<and> bl_services h' = bl_services h \<and>
     bl_world h' = bl_world h \<and> bl_startChan h' = bl_startChan h \<and> bl_stopChan h' = bl_stopChan h"
  by (auto simp: handlerInit_def Let_def setHandler_def split: option.splits if_splits)

lemma NewBinlog_keeps:
  assumes "NewBinlog env ce cfg w [PosChange f, OnEvent g] fs = Ret (fs', h)"
  shows "bl_onPosChanges h = [f]" "bl_onEvent h = [g]" "bl_services h = (\<lambda>_. None)" "bl_world h = w" "bl_startChan h = 0"
  using handlerInit_keeps [OF assms [unfolded NewBinlog_def]]
  by (simp_all add: PosChange_def OnEvent_def binlog_init_def)

lemma each_service_keeps:
  "each_service f names h = Ret h' \<Longrightarrow> \<exists>w. h' = h\<lparr>bl_world := w\<rparr>"
  by (auto simp: each_service_def)

lemma NewAgentServer_enabled:
  assumes "NewAgentServer (Inr config) [ag_OnEvent f, ag_OnRaw g] v = Ret (a, v')" and "gc_Enable config"
  shows "ag_enable a" "ag_onEvent a = [f]" "ag_onPos a = []" "ag_onLeader a = []"
  using assms by (auto simp: NewAgentServer_def agent_opts_def ag_OnEvent_def ag_OnRaw_def agent_init_def Let_def)

lemma NewAgentServer_disabled:
  assumes "NewAgentServer (Inr config) [ag_OnEvent f, ag_OnRaw g] v = Ret (a, v')" and "\<not> gc_Enable config"
  shows "\<not> ag_enable a"
  using assms by (auto simp: NewAgentServer_def agent_opts_def ag_OnEvent_def ag_OnRaw_def agent_init_def)

lemma Sync_simps [simp]: "ag_Sync False d net = net"
  "an_broadcasts (ag_Sync True d net) = an_broadcasts net @ [(1, d)]"
  by (simp_all add: ag_Sync_def)

text \<open>No service touches the network side of the agent.\<close>

definition keeps_net :: "('c program \<Rightarrow> ('c program \<times> 'b) go) \<Rightarrow> bool" where
  "keeps_net f \<longleftrightarrow> (\<forall>w w' b. f w = Ret (w', b) \<longrightarrow> pg_net w' = pg_net w)"

lemma services_keep_net:
  "wired me a h \<Longrightarrow> bl_services h n = Some s \<Longrightarrow> keeps_net (si_SendAll s t d)"
  by (auto simp: wired_def keeps_net_def http_if_def redis_if_def kafka_if_def sub_if_def split: if_splits)

lemma notify_services_net:
  assumes "wired me a h" and "notify_services names t d h = Ret w"
  shows "pg_net w = pg_net (bl_world h)"
proof -
  have "pg_net w' = pg_net (bl_world h)" if "pg_net w0 = pg_net (bl_world h)"
    "(case bl_services h n of None \<Rightarrow> Ret w0 | Some s \<Rightarrow> go_bind (si_SendAll s t d w0) (\<lambda>(w', _). Ret w')) = Ret w'" for w0 w' n
    using that services_keep_net [OF assms(1), of n _ t d] by (auto simp: keeps_net_def split: option.splits)
  then show ?thesis
    using go_foldM_inv [of names "\<lambda>w. pg_net w = pg_net (bl_world h)", OF _ refl assms(2) [unfolded notify_services_def]] by blast
qed

text \<open>The steps of \<open>main_build\<close> from the agent on.\<close>

lemma main_build_steps:
  assumes "main_build me env ce mysql newSub ord fs = Ret (fs', a, h)"
  obtains w ab v hb wb where
    "NewAgentServer (me_agent me) [ag_OnEvent agent_event, ag_OnRaw agent_raw] (binlog_init mysql w) = Ret (ab, v)"
    "bl_onPosChanges hb = [sync_pos (ag_enable ab)]" "bl_onEvent hb = [sync_event (ag_enable ab)]" "bl_startChan hb = 0"
    "bl_services hb = [http_Name \<mapsto> http_if me, redis_Name \<mapsto> redis_if me, kafka_Name \<mapsto> kafka_if me, tcp_Name \<mapsto> sub_if me]"
    "go_bind (ag_OnPos SaveBinlogPosition ab (hb\<lparr>bl_world := wb\<rparr>)) (\<lambda>(a, b). go_bind (ag_OnLeader OnLeader a b) (\<lambda>(a, b).
       Ret (a, b\<lparr>bl_world := (bl_world b)\<lparr>pg_net := ag_Start a (pg_net (bl_world b))\<rparr>\<rparr>))) = Ret (a, h)"
proof -
  from assms obtain w ab v hb fs0 h1 where
    ag: "NewAgentServer (me_agent me) [ag_OnEvent agent_event, ag_OnRaw agent_raw] (binlog_init mysql w) = Ret (ab, v)" and
    nb: "NewBinlog env ce mysql w [PosChange (sync_pos (ag_enable ab)), OnEvent (sync_event (ag_enable ab))] fs = Ret (fs0, hb)" and
    st: "bl_Start ord (RegisterService (sub_if me) (RegisterService (kafka_if me)
          (RegisterService (redis_if me) (RegisterService (http_if me) hb)))) = Ret h1" and
    res: "go_bind (ag_OnPos SaveBinlogPosition ab h1) (\<lambda>(a, b). go_bind (ag_OnLeader OnLeader a b) (\<lambda>(a, b).
       Ret (a, b\<lparr>bl_world := (bl_world b)\<lparr>pg_net := ag_Start a (pg_net (bl_world b))\<rparr>\<rparr>))) = Ret (a, h)"
    by (fastforce simp: main_build_def Let_def)
  let ?h = "RegisterService (sub_if me) (RegisterService (kafka_if me)
          (RegisterService (redis_if me) (RegisterService (http_if me) hb)))"
  obtain wb where "h1 = ?h\<lparr>bl_world := wb\<rparr>"
    using each_service_keeps [OF st [unfolded bl_Start_def]] by blast
  with ag res NewBinlog_keeps [OF nb] show thesis
    by (intro that [where hb = ?h]) (auto simp: RegisterService_def http_if_def redis_if_def kafka_if_def sub_if_def)
qed

lemma main_build_wired:
  assumes "main_build me env ce mysql newSub ord fs = Ret (fs', a, h)" and "me_agent me = Inr config" and "gc_Enable config"
  shows "wired me a h \<and> bl_startChan h = 0"
proof (rule main_build_steps [OF assms(1)])
  fix w ab v hb wb
  assume h: "NewAgentServer (me_agent me) [ag_OnEvent agent_event, ag_OnRaw agent_raw] (binlog_init mysql w) = Ret (ab, v)"
    "bl_onPosChanges hb = [sync_pos (ag_enable ab)]" "bl_onEvent hb = [sync_event (ag_enable ab)]" "bl_startChan hb = 0"
    "bl_services hb = [http_Name \<mapsto> http_if me, redis_Name \<mapsto> redis_if me, kafka_Name \<mapsto> kafka_if me, tcp_Name \<mapsto> sub_if me]"
    "go_bind (ag_OnPos SaveBinlogPosition ab (hb\<lparr>bl_world := wb\<rparr>)) (\<lambda>(a, b). go_bind (ag_OnLeader OnLeader a b) (\<lambda>(a, b).
       Ret (a, b\<lparr>bl_world := (bl_world b)\<lparr>pg_net := ag_Start a (pg_net (bl_world b))\<rparr>\<rparr>))) = Ret (a, h)"
  from NewAgentServer_enabled [OF h(1) [unfolded assms(2)] assms(3)] h(2-) show ?thesis
    by (auto simp: wired_def ag_OnPos_def ag_OnLeader_def)
qed

lemma main_build_alone:
  assumes "main_build me env ce mysql newSub ord fs = Ret (fs', a, h)" and "me_agent me = Inr config" and "\<not> gc_Enable config"
  shows "bl_startChan h = 1 \<and> bl_onPosChanges h = [sync_pos False] \<and> bl_onEvent h = [sync_event False]"
proof (rule main_build_steps [OF assms(1)])
  fix w ab v hb wb
  assume h: "NewAgentServer (me_agent me) [ag_OnEvent agent_event, ag_OnRaw agent_raw] (binlog_init mysql w) = Ret (ab, v)"
    "bl_onPosChanges hb = [sync_pos (ag_enable ab)]" "bl_onEvent hb = [sync_event (ag_enable ab)]" "bl_startChan hb = 0"
    "go_bind (ag_OnPos SaveBinlogPosition ab (hb\<lparr>bl_world := wb\<rparr>)) (\<lambda>(a, b). go_bind (ag_OnLeader OnLeader a b) (\<lambda>(a, b).
       Ret (a, b\<lparr>bl_world := (bl_world b)\<lparr>pg_net := ag_Start a (pg_net (bl_world b))\<rparr>\<rparr>))) = Ret (a, h)"
  from NewAgentServer_disabled [OF h(1) [unfolded assms(2)] assms(3)] h(2-) show ?thesis
    by (auto simp: ag_OnPos_def ag_OnLeader_def OnLeader_def StartService_def signalQueue_def)
qed

subsection \<open>A concrete process\<close>

definition demo_me :: "bool \<Rightarrow> main_env" where
  "demo_me agent =
     \<lparr>me_rx = (\<lambda>_ _. Some True), me_ord = [], me_cpu = 2,
      me_http = Inr \<lparr>hc_Enable = False, hc_TimeTick = 1, hc_Groups = []\<rparr>,
      me_redis = Inr (demo_redis_config\<lparr>rc_Enable := False\<rparr>),
      me_kafka = Inr \<lparr>kc_Enable = False, kc_Brokers = [], kc_Filter = [], kc_Topic = ''''\<rparr>, me_brokers = (\<lambda>_. True),
      me_sub = Inr \<lparr>tc_Listen = '''', tc_Enable = False, tc_ConsulAddress = '''', tc_ConsulEnable = False\<rparr>, me_listens = True,
      me_agent = Inr \<lparr>gc_Enable = agent, gc_Type = ''consul'', gc_Lock = ''lock'', gc_AgentListen = ''127.0.0.1:9989'',
                     gc_ConsulAddress = ''127.0.0.1:8500''\<rparr>\<rparr>"

definition demo_subscribe :: "unit sub_world tcp_service" where
  "demo_subscribe = newSubscribeService True ''127.0.0.1:9996'' (no_nodes \<lparr>cw_service = None, cw_consul = ()\<rparr>)
     (sub_service_opts (\<lambda>_ _. Some True) Suc 0)"

definition demo_ce :: canal_env where
  "demo_ce = \<lparr>ce_configOk = True, ce_newOk = True, ce_master = Some (''mysql-bin.000059'', 1000)\<rparr>"

definition demo_build :: "bool \<Rightarrow> (file_system \<times> unit program binlog agent \<times> unit program binlog) go" where
  "demo_build agent = main_build (demo_me agent) demo_env demo_ce (Inr demo_config) (Ret demo_subscribe) [] (demo_fs [])"

lemma demo_NewBinlog_empty:
  "\<exists>h. NewBinlog demo_env demo_ce (Inr demo_config) w [PosChange f, OnEvent g] (demo_fs []) = Ret (demo_fs [], h) \<and>
     bl_status h = cacheHandlerIsOpened \<and> \<not> bl_cacheFails h"
  by (simp add: NewBinlog_def handlerInit_def demo_cache_open Let_def setHandler_def binlog_init_def PosChange_def
      OnEvent_def getBinlogPositionCache_def demo_ce_def)

lemma demo_listen: "split_on (CHR '':'') ''127.0.0.1:9989'' = [''127.0.0.1'', ''9989'']"
  by simp

lemma demo_agent_returns:
  "\<exists>a. NewAgentServer (me_agent (demo_me agent)) [ag_OnEvent agent_event, ag_OnRaw agent_raw] v = Ret (a, v)"
  by (simp add: demo_me_def NewAgentServer_def demo_listen agent_opts_def ag_OnEvent_def ag_OnRaw_def Let_def go_index_def)

lemma demo_build_returns: "\<exists>fs a h. demo_build agent = Ret (fs, a, h) \<and> \<not> has_flag (bl_status h) binlogIsExit \<and>
    has_flag (bl_status h) cacheHandlerIsOpened \<and> \<not> bl_cacheFails h"
proof -
  obtain hs rs ks where svc: "NewHttpService (me_http (demo_me agent)) = Ret hs" "NewRedis (me_redis (demo_me agent)) = rs"
    "NewProducer (me_brokers (demo_me agent)) (me_kafka (demo_me agent)) = Ret ks"
    by (simp add: demo_me_def NewHttpService_def NewProducer_def)
  let ?w = "\<lparr>pg_http = hs, pg_redis = rs, pg_kafka = ks, pg_sub = demo_subscribe, pg_net = agent_net_init\<rparr>"
  obtain a where a: "NewAgentServer (me_agent (demo_me agent)) [ag_OnEvent agent_event, ag_OnRaw agent_raw]
      (binlog_init (Inr demo_config) ?w) = Ret (a, binlog_init (Inr demo_config) ?w)"
    using demo_agent_returns by blast
  obtain h where h: "NewBinlog demo_env demo_ce (Inr demo_config) ?w [PosChange (sync_pos (ag_enable a)),
      OnEvent (sync_event (ag_enable a))] (demo_fs []) = Ret (demo_fs [], h)" "bl_status h = cacheHandlerIsOpened"
      "\<not> bl_cacheFails h"
    using demo_NewBinlog_empty [of ?w "sync_pos (ag_enable a)" "sync_event (ag_enable a)"] by auto
  have flags: "has_flag cacheHandlerIsOpened cacheHandlerIsOpened" "\<not> has_flag cacheHandlerIsOpened binlogIsExit"
    using bl_flags(2) [of 0] bl_exit_cache.pair_simps [of 0] by simp_all
  show ?thesis
    using h(2,3) NewBinlog_keeps [OF h(1)] flags
    by (simp add: demo_build_def main_build_def svc a h(1) Let_def bl_Start_def each_service_def RegisterService_def
        ag_OnPos_def ag_OnLeader_def OnLeader_def StartService_def signalQueue_def)
qed

lemma demo_wired: "demo_build True = Ret (fs, a, h) \<Longrightarrow> wired (demo_me True) a h"
  using main_build_wired [of "demo_me True"] by (fastforce simp: demo_build_def demo_me_def)

lemma no_nodes_wf: "sys_wf (no_nodes v)"
  by (simp add: sys_wf_def no_nodes_def newGroups_def slice_ok_def groups_view_def)

subsection \<open>Start properties\<close>



subsection \<open>Cluster properties\<close>


text \<open>
  C6: A position the leader's canal reports ends up on the follower. The handler of the leader broadcasts
  one message for it; the follower's agent, given that message, moves the follower's handler to the
  same file, position and event index, and its own cache file returns them.
\<close>

theorem position_reaches_follower:
  assumes leader: "wired me a h" "OnPosSynced (f, p) force h = Ret h'"
      "\<not> has_flag (bl_status h) binlogIsExit" "length f \<le> 494"
    and follower: "wired me2 a2 v" "\<not> has_flag (bl_status v) binlogIsExit" "has_flag (bl_status v) cacheHandlerIsOpened"
      "\<not> bl_cacheFails v"
  shows "\<exists>m v'. an_broadcasts (pg_net (bl_world h')) = an_broadcasts (pg_net (bl_world h)) @ [(1, m)] \<and>
    onClientMessage um m a2 v = Ret v' \<and> bl_lastBinFile v' = f \<and> bl_lastPos v' = p \<and>
    bl_EventIndex v' = bl_EventIndex h \<and> getBinlogPositionCache v' = Ret (f, ucast p, bl_EventIndex h)"
proof -
  let ?r = "packPos f (ucast p) (bl_EventIndex h)"
  have "an_broadcasts (pg_net (bl_world h')) = an_broadcasts (pg_net (bl_world h)) @ [(1, Pack AG_POS ?r)]"
    using leader by (auto simp: OnPosSynced_def saveBinlogPositionCache_def Let_def wired_def sync_pos_def bl_WriteAt_def
        split: if_splits)
  moreover have "frame_fits (AG_POS, ?r)"
    using leader(4) by (simp add: frame_fits_def AG_POS_def)
  then have msg: "onClientMessage um (Pack AG_POS ?r) a2 v = SaveBinlogPosition ?r v"
    using follower(1) by (simp add: onClientMessage_def Unpack_Pack [where rest = "[]", simplified] wired_def AG_POS_def AG_EVENT_def)
  have "unpackPos ?r = Ret (f, ucast p, bl_EventIndex h)"
    using unpack_packPos [of f "ucast p" "bl_EventIndex h" "[]"] leader(4) by simp
  then have save: "\<exists>v'. SaveBinlogPosition ?r v = Ret v'"
    using follower(1) by (simp add: SaveBinlogPosition_def saveBinlogPositionCache_def Let_def wired_def sync_pos_def bl_WriteAt_def)
  obtain v' where v': "SaveBinlogPosition ?r v = Ret v'" "bl_lastBinFile v' = f" "bl_lastPos v' = p"
      "bl_EventIndex v' = bl_EventIndex h" "getBinlogPositionCache v' = Ret (f, ucast p, bl_EventIndex h)"
    using SaveBinlogPosition_follows [OF leader(4) _ follower(2-4)] save by blast
  ultimately show ?thesis using msg by auto
qed


theorem position_reaches_follower_witness:
  "\<exists>fs a h fs2 a2 v h' m v'. demo_build True = Ret (fs, a, h) \<and> demo_build True = Ret (fs2, a2, v) \<and>
     OnPosSynced (''mysql-bin.000059'', 500) True h = Ret h' \<and>
     onClientMessage (\<lambda>_. None) m a2 v = Ret v' \<and> bl_lastBinFile v' = ''mysql-bin.000059'' \<and> bl_lastPos v' = 500"
proof -
  obtain fs a h where b: "demo_build True = Ret (fs, a, h)" "\<not> has_flag (bl_status h) binlogIsExit"
      "has_flag (bl_status h) cacheHandlerIsOpened" "\<not> bl_cacheFails h"
    using demo_build_returns by blast
  have w: "wired (demo_me True) a h" by (rule demo_wired [OF b(1)])
  then have "\<exists>h'. OnPosSynced (''mysql-bin.000059'', 500) True h = Ret h'"
    by (simp add: OnPosSynced_def saveBinlogPositionCache_def Let_def wired_def sync_pos_def bl_WriteAt_def)
  then obtain h' where h': "OnPosSynced (''mysql-bin.000059'', 500) True h = Ret h'" by blast
  from position_reaches_follower [OF w h' b(2) _ w b(2-4), of "\<lambda>_. None"] b(1) h' show ?thesis by fastforce
qed

text \<open>
  An event the leader announces reaches the subscribers of every follower, for any codec that keeps
  the names of the database and the table.
\<close>

lemma event_follows:
  assumes leader: "wired me a h" "notify json ord data h = Ret h'" "json (VMap data) = Some d"
      "as_string data ''database'' = Ret db" "as_string data ''table'' = Ret tb"
    and codec: "um d = Some raw" "as_string raw ''database'' = Ret db" "as_string raw ''table'' = Ret tb"
      "frame_fits (AG_EVENT, d)"
    and follower: "wired me2 a2 v" "t = pg_sub (bl_world v)" "has_flag (ts_status t) serviceEnable"
      "ts_sendAll t = [groups_sendAll rx]" "sys_wf (ts_world t)"
      "\<forall>i \<in> set (groups_view (ss_groups (ts_world t))). MatchFilters rx (sn_topics (ss_nodes (ts_world t) i)) (db @ ''.'' @ tb) \<longrightarrow>
         length (sn_sendQueue (ss_nodes (ts_world t) i)) < tcpMaxSendQueue"
  shows "\<exists>m v'. an_broadcasts (pg_net (bl_world h')) = an_broadcasts (pg_net (bl_world h)) @ [(1, m)] \<and>
    onClientMessage um m a2 v = Ret v' \<and>
    (\<forall>i. sn_sendQueue (ss_nodes (ts_world (pg_sub (bl_world v'))) i) = sn_sendQueue (ss_nodes (ts_world t) i) @
      (if i \<in> set (groups_view (ss_groups (ts_world t))) \<and> MatchFilters rx (sn_topics (ss_nodes (ts_world t) i)) (db @ ''.'' @ tb)
       then [Pack CMD_EVENT d] else []))"
proof -
  from leader obtain w where w: "notify_services (ord (VMap data)) (db @ ''.'' @ tb) d h = Ret w"
    "h' = h\<lparr>bl_world := w\<lparr>pg_net := ag_Sync True (Pack AG_EVENT d) (pg_net w)\<rparr>\<rparr>"
    by (auto simp: notify_def Let_def wired_def sync_event_def)
  have "an_broadcasts (pg_net (bl_world h')) = an_broadcasts (pg_net (bl_world h)) @ [(1, Pack AG_EVENT d)]"
    using notify_services_net [OF leader(1) w(1)] by (simp add: w(2))
  moreover have msg: "onClientMessage um (Pack AG_EVENT d) a2 v = go_bind (agent_event (db @ ''.'' @ tb) d v) (\<lambda>(v, _). Ret v)"
    using follower(1) codec
    by (simp add: onClientMessage_def Unpack_Pack [where rest = "[]", simplified] wired_def agent_onEvents_def)
  moreover from sendAll_delivers [OF follower(5,6), of "Pack CMD_EVENT d"] follower(2-4)
  have "\<exists>v'. go_bind (agent_event (db @ ''.'' @ tb) d v) (\<lambda>(v, _). Ret v) = Ret v' \<and>
    (\<forall>i. sn_sendQueue (ss_nodes (ts_world (pg_sub (bl_world v'))) i) = sn_sendQueue (ss_nodes (ts_world t) i) @
      (if i \<in> set (groups_view (ss_groups (ts_world t))) \<and> MatchFilters rx (sn_topics (ss_nodes (ts_world t) i)) (db @ ''.'' @ tb)
       then [Pack CMD_EVENT d] else []))"
    by (auto simp: agent_event_def tcp_SendAll_def)
  ultimately show ?thesis by (metis (no_types, lifting))
qed

text \<open>A follower with one subscriber of all tables.\<close>

definition demo_follower_sub where
  "demo_follower_sub = demo_subscribe\<lparr>ts_world := groups_onConnect Suc 0 new_conn (ts_world demo_subscribe)\<rparr>"

lemma demo_follower_facts:
  "has_flag (ts_status demo_follower_sub) serviceEnable"
  "ts_sendAll demo_follower_sub = [groups_sendAll (\<lambda>_ _. Some True)]"
  "sys_wf (ts_world demo_follower_sub)"
  "groups_view (ss_groups (ts_world demo_follower_sub)) = [0]"
  "sn_sendQueue (ss_nodes (ts_world demo_follower_sub) 0) = []"
  "sn_topics (ss_nodes (ts_world demo_follower_sub) 0) = []"
proof -
  show "has_flag (ts_status demo_follower_sub) serviceEnable"
    "ts_sendAll demo_follower_sub = [groups_sendAll (\<lambda>_ _. Some True)]"
    using tcp_flags(1) [of 0]
    by (simp_all add: demo_follower_sub_def demo_subscribe_def newSubscribeService_def sub_service_opts_def SetSendAll_def
        SetSendRaw_def SetOnConnect_def SetOnClose_def SetKeepalive_def SetReload_def)
  have world: "ts_world demo_subscribe = no_nodes \<lparr>cw_service = None, cw_consul = ()\<rparr>"
    by (simp add: demo_subscribe_def newSubscribeService_def sub_service_opts_def SetSendAll_def SetSendRaw_def
        SetOnConnect_def SetOnClose_def SetKeepalive_def SetReload_def)
  show "sys_wf (ts_world demo_follower_sub)"
    by (simp add: demo_follower_sub_def world sys_wf_onConnect no_nodes_wf)
  show "groups_view (ss_groups (ts_world demo_follower_sub)) = [0]"
    "sn_sendQueue (ss_nodes (ts_world demo_follower_sub) 0) = []"
    "sn_topics (ss_nodes (ts_world demo_follower_sub) 0) = []"
    by (simp_all add: demo_follower_sub_def world groups_onConnect_def Let_def no_nodes_def newGroups_def groups_append_def
        groups_view_def sub_newNode_def NodeClose_def)
qed

subsection \<open>The pid file\<close>

lemma ensure_dir_keeps:
  "fs_node fs q = Some (FFile d) \<Longrightarrow> fs_node (ensure_dir fs dir) q = Some (FFile d) \<and> resolve (ensure_dir fs dir) p = resolve fs p"
  by (simp add: ensure_dir_def mkdir_keeps_file)

lemma dir_setting_keeps:
  "dir_setting fs dir def = (fs', dir') \<Longrightarrow> fs_node fs q = Some (FFile d) \<Longrightarrow>
     fs_node fs' q = Some (FFile d) \<and> resolve fs' p = resolve fs p"
  unfolding dir_setting_def Let_def using ensure_dir_keeps by (metis prod.inject)

lemma getAppConfig_keeps:
  assumes "getAppConfig dec env fs = Ret (fs', r)" and "os_Stat fs p = Some (FFile d)"
  shows "os_Stat fs' p = Some (FFile d)"
proof -
  have q: "fs_node fs (resolve fs p) = Some (FFile d)" "p \<noteq> []"
    using assms(2) by (auto simp: os_Stat_def split: if_splits)
  have "fs_node fs' (resolve fs p) = Some (FFile d) \<and> resolve fs' p = resolve fs p"
  proof (cases "decode_file fs dec (config_file (ev_ConfigPath env) ''wing-binlog-go.toml'')")
    case (Inl e)
    with assms(1) q show ?thesis by (simp add: getAppConfig_def)
  next
    case (Inr c)
    obtain fs1 c1 fs2 c2 fs3 l where d: "dir_setting fs (ac_CachePath c) (ev_CachePath env) = (fs1, c1)"
      "dir_setting fs1 c1 (ev_CachePath env) = (fs2, c2)" "dir_setting fs2 (ac_LogPath c) (ev_LogPath env) = (fs3, l)"
      by (metis surj_pair)
    have k: "fs_node fs3 (resolve fs p) = Some (FFile d) \<and> resolve fs3 p = resolve fs p"
      using dir_setting_keeps [OF d(1) q(1)] dir_setting_keeps [OF d(2)] dir_setting_keeps [OF d(3)] by metis
    have sel: "ac_CachePath (if b then c\<lparr>ac_TimeZone := z\<rparr> else c) = ac_CachePath c"
      "ac_LogPath (if b then c\<lparr>ac_TimeZone := z\<rparr> else c) = ac_LogPath c" for b z by simp_all
    have "fs' = fs3 \<or> (\<exists>dir. fs' = fst (path_Mkdir fs3 dir))"
      using assms(1) Inr d by (auto simp: getAppConfig_def Let_def sel split: if_splits)
    with k show ?thesis by (auto simp: mkdir_keeps_file)
  qed
  with q(2) show ?thesis by (simp add: os_Stat_def)
qed

lemma remove_gone:
  assumes "\<not> fs_deny (fst (os_Remove fs p)) (resolve (fst (os_Remove fs p)) p)" and "os_Stat (fst (os_Remove fs p)) p \<noteq> Some FDir"
  shows "\<not> file_Exists (fst (os_Remove fs p)) p"
proof (cases "os_Stat fs p")
  case None
  then show ?thesis by (simp add: os_Remove_def Let_def file_Exists_def)
next
  case (Some n)
  then have "resolve fs p \<noteq> []" if "n \<noteq> FDir" using that by (auto simp: os_Stat_def fs_node_def split: if_splits)
  with Some assms show ?thesis
    by (cases n) (auto simp: os_Remove_def Let_def file_Exists_def os_Stat_def fs_node_def split: if_splits)
qed

text \<open>A service is not started while the pid file is there.\<close>

lemma main_refused:
  assumes "\<not> isCmd f" and "getAppConfig adec (configPathParse fs (cf_configPath f) env) fs = Ret (fs1, Inr c)"
    and "os_Stat fs (ac_PidFile c) = Some (FFile d)"
  shows "main_begin adec mdec pid dial reply Reborn arg CurrentPath f env fs = Ret (OtherProcess fs1) \<and>
    (\<forall>p x. os_Stat fs p = Some (FFile x) \<longrightarrow> os_Stat fs1 p = Some (FFile x))"
proof -
  have "os_Stat fs1 (ac_PidFile c) = Some (FFile d)" by (rule getAppConfig_keeps [OF assms(2,3)])
  then show ?thesis
    using assms getAppConfig_keeps [OF assms(2)] by (simp add: main_begin_def app_Init_def Let_def file_Exists_def)
qed

subsection \<open>Command line properties\<close>

text \<open>
  One instance at a time: while the pid file exists, starting the service (with any flags that
  are not a command) prints a message and ends, touching neither the pid file nor any other file.
\<close>

theorem single_instance:
  assumes "\<not> isCmd f" and "getAppConfig adec (configPathParse fs (cf_configPath f) env) fs = Ret (fs1, Inr c)"
    and "os_Stat fs (ac_PidFile c) = Some (FFile d)"
  shows "main_begin adec mdec pid dial reply Reborn arg CurrentPath f env fs = Ret (OtherProcess fs1) \<and>
    (\<forall>p x. os_Stat fs p = Some (FFile x) \<longrightarrow> os_Stat fs1 p = Some (FFile x))"
  by (rule main_refused [OF assms])

text \<open>
  C34: Any command (\<open>-version\<close> as well as \<open>-stop\<close>) removes the pid file of the running service: the file
  is written for the command's own process and deleted at its end. After it a second service starts
  beside the first.
\<close>

theorem command_frees_pid:
  assumes "getAppConfig adec (configPathParse fs (cf_configPath f) env) fs = Ret (fs1, Inr c)"
    and "main_begin adec mdec pid dial reply Reborn arg CurrentPath f env fs = Ret (Command fs' res)"
    and "\<not> fs_deny fs' (resolve fs' (ac_PidFile c))" and "os_Stat fs' (ac_PidFile c) \<noteq> Some FDir"
  shows "\<not> file_Exists fs' (ac_PidFile c)"
proof -
  let ?e = "(configPathParse fs (cf_configPath f) env)\<lparr>ev_Pid := ac_PidFile c, ev_CachePath := ac_CachePath c,
    ev_LogPath := ac_LogPath c\<rparr>"
  from assms(1,2) have "\<exists>fs2. fs' = app_Release ?e fs2"
    by (auto simp: main_begin_def app_Init_def Let_def split: if_splits init_result.splits daemon_result.splits bool.splits)
  then obtain fs2 where "fs' = fst (os_Remove fs2 (ac_PidFile c))" by (auto simp: app_Release_def file_Delete_def)
  with assms(3,4) show ?thesis using remove_gone by blast
qed

definition demo_app_config :: app_config where
  "demo_app_config = \<lparr>ac_LogLevel = 5, ac_PprofListen = '''', ac_ControlListen = ''127.0.0.1:9990'', ac_TimeZone = ''Local'',
     ac_CachePath = '''', ac_LogPath = '''', ac_PidFile = ''''\<rparr>"

definition demo_run_fs :: "bytes option \<Rightarrow> file_system" where
  "demo_run_fs pid = \<lparr>fs_tree = [[''e''] \<mapsto> FDir, [''e'', ''wing-binlog-go.toml''] \<mapsto> FFile [], [''c''] \<mapsto> FDir, [''l''] \<mapsto> FDir]
      ([''p''] := map_option FFile pid), fs_cwd = [], fs_deny = (\<lambda>_. False)\<rparr>"

definition demo_flags :: "bool \<Rightarrow> cmd_flags" where
  "demo_flags version = \<lparr>cf_version = version, cf_v = False, cf_stop = False, cf_reload = '''', cf_help = False,
     cf_members = False, cf_daemon = False, cf_d = False, cf_configPath = ''''\<rparr>"

definition demo_loaded :: app_config where
  "demo_loaded = demo_app_config\<lparr>ac_CachePath := ''/c'', ac_LogPath := ''/l'', ac_PidFile := ''/p''\<rparr>"

lemma demo_run_stat:
  "os_Stat (demo_run_fs pid) ''/c'' = Some FDir" "os_Stat (demo_run_fs pid) ''/l'' = Some FDir"
  "os_Stat (demo_run_fs pid) ''/e/wing-binlog-go.toml'' = Some (FFile [])"
  by (simp_all add: os_Stat_def fs_node_def resolve_def demo_run_fs_def)

lemma demo_dirs:
  "dir_setting (demo_run_fs pid) '''' ''/c'' = (demo_run_fs pid, ''/c'')"
  "dir_setting (demo_run_fs pid) ''/c'' ''/c'' = (demo_run_fs pid, ''/c'')"
  "dir_setting (demo_run_fs pid) '''' ''/l'' = (demo_run_fs pid, ''/l'')"
  by (simp_all add: dir_setting_def Let_def trim_spaces_def ensure_dir_def pathParse_def path_Exists_def demo_run_stat to_slash_def)

lemma demo_getAppConfig:
  "getAppConfig (\<lambda>_. Some demo_app_config) demo_env (demo_run_fs pid) = Ret (demo_run_fs pid, Inr demo_loaded)"
proof -
  have "decode_file (demo_run_fs pid) (\<lambda>_. Some demo_app_config) (config_file (ev_ConfigPath demo_env) ''wing-binlog-go.toml'') =
      Inr demo_app_config"
    by (simp add: decode_file_def config_file_def demo_env_def file_Exists_def demo_run_stat)
  then show ?thesis
    by (simp add: getAppConfig_def demo_env_def demo_app_config_def demo_loaded_def demo_dirs Let_def)
qed

lemma demo_configPath: "configPathParse fs '''' env = env"
  by (simp add: configPathParse_def pathParse_def)

lemma demo_pid_stat: "os_Stat (demo_run_fs pid) ''/p'' = map_option FFile pid" "resolve (demo_run_fs pid) ''/p'' = [''p'']"
  by (simp_all add: os_Stat_def fs_node_def resolve_def demo_run_fs_def)

lemma demo_pid_write: "ioutil_WriteFile (demo_run_fs pid) ''/p'' data = demo_run_fs (Some data)"
  by (cases pid) (simp_all add: ioutil_WriteFile_def os_OpenWrite_def os_Append_def Let_def fs_node_def resolve_def demo_run_fs_def)

lemma demo_loaded_paths: "ac_PidFile demo_loaded = ''/p''" "ac_CachePath demo_loaded = ''/c''" "ac_LogPath demo_loaded = ''/l''"
  "demo_env\<lparr>ev_Pid := ''/p'', ev_CachePath := ''/c'', ev_LogPath := ''/l''\<rparr> = demo_env"
  by (simp_all add: demo_loaded_def demo_env_def)

theorem single_instance_witness:
  "main_begin (\<lambda>_. Some demo_app_config) (\<lambda>_. None) 18 (\<lambda>_. None) [] (\<lambda>_. RebornError) '''' '''' (demo_flags False) demo_env
     (demo_run_fs (Some (bytes_of ''17''))) = Ret (OtherProcess (demo_run_fs (Some (bytes_of ''17''))))"
  using single_instance [of "demo_flags False" "\<lambda>_. Some demo_app_config" "demo_run_fs (Some (bytes_of ''17''))" demo_env
      "demo_run_fs (Some (bytes_of ''17''))"]
  by (simp add: demo_flags_def isCmd_def demo_configPath demo_getAppConfig demo_loaded_paths demo_pid_stat)

lemma demo_version_run:
  "main_begin (\<lambda>_. Some demo_app_config) (\<lambda>_. None) 18 (\<lambda>_. None) [] (\<lambda>_. RebornError) '''' '''' (demo_flags True) demo_env
     (demo_run_fs (Some (bytes_of ''17''))) = Ret (Command (demo_run_fs None) (Ret PrintVersion))"
proof -
  have "app_Release demo_env (demo_run_fs (Some x)) = demo_run_fs None" for x
    by (simp add: app_Release_def file_Delete_def os_Remove_def demo_env_def demo_pid_stat Let_def) (simp add: demo_run_fs_def)
  then show ?thesis
    by (simp add: main_begin_def app_Init_def demo_flags_def isCmd_def demo_configPath demo_getAppConfig demo_loaded_paths
        demo_pid_write NewContext_def runCmd_def Let_def)
qed

theorem command_frees_pid_witness:
  "main_begin (\<lambda>_. Some demo_app_config) (\<lambda>_. None) 18 (\<lambda>_. None) [] (\<lambda>_. RebornError) '''' '''' (demo_flags True) demo_env
     (demo_run_fs (Some (bytes_of ''17''))) = Ret (Command (demo_run_fs None) (Ret PrintVersion)) \<and>
   \<not> file_Exists (demo_run_fs None) ''/p''"
  using command_frees_pid [of "\<lambda>_. Some demo_app_config" "demo_run_fs (Some (bytes_of ''17''))" "demo_flags True" demo_env,
      OF _ demo_version_run] demo_version_run
  by (simp add: demo_flags_def demo_configPath demo_getAppConfig demo_loaded_paths demo_pid_stat) (simp add: demo_run_fs_def)

text \<open>
  The names of a reload: \<open>kafka\<close> is only reloaded by \<open>all\<close>, and \<open>tcp\<close>, which the usage text names, is not
  the name of the subscribe service.
\<close>

lemma reload_names:
  "main_reload me ''kafka'' w = Ret w" "main_reload me ''tcp'' w = Ret w"
  "main_reload me ''subscribe'' w = si_Reload (sub_if me) w" "main_reload me ''redis'' w = si_Reload (redis_if me) w"
  "main_reload me ''http'' w = si_Reload (http_if me) w"
  by (simp_all add: main_reload_def http_Name_def redis_Name_def tcp_Name_def)

end
