(* ===== verification/Json_Text.thy ===== *)
theory Json_Text
  imports Utf8 Net
begin

text \<open>
  Strings in JSON texts as Go's \<open>encoding/json\<close> writes and reads them. A text is the list of the codes
  of its bytes. The encoder escapes control characters, quotes, backslashes, the characters that HTML
  gives a meaning, two line separators, and replaces bytes that are no UTF-8; the decoder undoes the
  escapes and replaces what is no UTF-8 too.
\<close>

definition hex_digit :: "nat \<Rightarrow> nat" where
  "hex_digit n = (if n < 10 then 48 + n else 87 + n)"

definition hex_value :: "nat \<Rightarrow> nat option" where
  "hex_value c =
     (if 48 \<le> c \<and> c \<le> 57 then Some (c - 48)
      else if 97 \<le> c \<and> c \<le> 102 then Some (c - 87)
      else if 65 \<le> c \<and> c \<le> 70 then Some (c - 55)
      else None)"

lemma hex_value_digit [simp]: "n < 16 \<Longrightarrow> hex_value (hex_digit n) = Some n"
  by (auto simp: hex_value_def hex_digit_def)

text \<open>The bytes below 128 that are written as they are.\<close>

definition html_safe :: "nat \<Rightarrow> bool" where
  "html_safe b \<longleftrightarrow> 32 \<le> b \<and> b < 128 \<and> b \<noteq> 34 \<and> b \<noteq> 92 \<and> b \<noteq> 38 \<and> b \<noteq> 60 \<and> b \<noteq> 62"

definition esc_u :: "nat \<Rightarrow> nat list" where
  "esc_u r = [92, 117, hex_digit (r div 4096 mod 16), hex_digit (r div 256 mod 16),
     hex_digit (r div 16 mod 16), hex_digit (r mod 16)]"

definition esc_part :: "rune \<times> nat list \<Rightarrow> nat list" where
  "esc_part p =
     (case p of (r, raw) \<Rightarrow>
        if r < 128 then
          (if html_safe r then raw
           else if r = 34 \<or> r = 92 then [92, r]
           else if r = 10 then [92, 110]
           else if r = 13 then [92, 114]
           else if r = 9 then [92, 116]
           else esc_u r)
        else if r = RuneError \<and> length raw = 1 then esc_u RuneError
        else if r = 0x2028 \<or> r = 0x2029 then esc_u r
        else raw)"

definition json_quote :: "nat list \<Rightarrow> nat list" where
  "json_quote bs = 34 # concat (map esc_part (decode_parts bs)) @ [34]"

text \<open>
  The decoder from behind the opening quote to behind the closing one: the bytes of the string
  and what follows it. A surrogate pair is put together, a lone surrogate replaced.
\<close>

definition hex4 :: "nat list \<Rightarrow> (nat \<times> nat list) option" where
  "hex4 cs =
     (case cs of
        a # b # c # d # rest \<Rightarrow>
          (case (hex_value a, hex_value b, hex_value c, hex_value d) of
             (Some a, Some b, Some c, Some d) \<Rightarrow> Some (((a * 16 + b) * 16 + c) * 16 + d, rest)
           | _ \<Rightarrow> None)
      | _ \<Rightarrow> None)"

lemma hex4_length: "hex4 cs = Some (r, rest) \<Longrightarrow> length rest < length cs"
  by (auto simp: hex4_def split: list.splits option.splits)

definition simple_escape :: "nat \<Rightarrow> nat option" where
  "simple_escape c =
     (if c = 34 \<or> c = 92 \<or> c = 47 then Some c
      else if c = 98 then Some 8
      else if c = 102 then Some 12
      else if c = 110 then Some 10
      else if c = 114 then Some 13
      else if c = 116 then Some 9
      else None)"

definition surrogate :: "nat \<Rightarrow> bool" where
  "surrogate r \<longleftrightarrow> 0xD800 \<le> r \<and> r < 0xE000"

text \<open>\<open>utf16.DecodeRune\<close> on the code \<open>r\<close> and the escape that may follow it.\<close>

definition low_half :: "nat \<Rightarrow> nat list \<Rightarrow> (nat \<times> nat list) option" where
  "low_half r cs =
     (case cs of
        a # b # ds \<Rightarrow>
          (case hex4 ds of
             Some (s, rest) \<Rightarrow>
               if a = 92 \<and> b = 117 \<and> r < 0xDC00 \<and> 0xDC00 \<le> s \<and> s < 0xE000
               then Some ((r - 0xD800) * 1024 + (s - 0xDC00) + 0x10000, rest) else None
           | None \<Rightarrow> None)
      | _ \<Rightarrow> None)"

lemma low_half_length: "low_half r cs = Some (s, rest) \<Longrightarrow> length rest < length cs"
  by (auto simp: low_half_def split: list.splits option.splits prod.splits if_splits
      dest!: hex4_length)

definition emit :: "nat list \<Rightarrow> (nat list \<times> nat list) option \<Rightarrow> (nat list \<times> nat list) option" where
  "emit out r = map_option (\<lambda>(o1, rest). (out @ o1, rest)) r"

lemma emit_Some [simp]: "emit out (Some (a, b)) = Some (out @ a, b)" "emit out None = None"
  by (simp_all add: emit_def)

function json_unquote :: "nat list \<Rightarrow> (nat list \<times> nat list) option" where
  "json_unquote [] = None"
| "json_unquote (b # bs) =
     (if b = 34 then Some ([], bs)
      else if b = 92 then
        (case bs of
           [] \<Rightarrow> None
         | c # cs \<Rightarrow>
             (case simple_escape c of
                Some e \<Rightarrow> emit [e] (json_unquote cs)
              | None \<Rightarrow>
                  if c \<noteq> 117 then None
                  else case hex4 cs of
                         None \<Rightarrow> None
                       | Some (r, ds) \<Rightarrow>
                           if \<not> surrogate r then emit (encode_rune r) (json_unquote ds)
                           else case low_half r ds of
                                  Some (s, rest) \<Rightarrow> emit (encode_rune s) (json_unquote rest)
                                | None \<Rightarrow> emit (encode_rune RuneError) (json_unquote ds)))
      else if b < 32 then None
      else case decode_rune b bs of (r, n) \<Rightarrow> emit (encode_rune r) (json_unquote (drop n bs)))"
  by pat_completeness auto
termination
  by (relation "measure length") (auto dest!: hex4_length low_half_length)

declare json_unquote.simps [simp del]

subsection \<open>What is written is read back\<close>

text \<open>The string with everything that is no UTF-8 replaced.\<close>

definition clean :: "nat list \<Rightarrow> nat list" where
  "clean bs = concat (map encode_rune (decode_runes bs))"

lemma unquote_end: "json_unquote (34 # rest) = Some ([], rest)"
  by (simp add: json_unquote.simps)

lemma unquote_safe: "html_safe b \<or> 38 = b \<or> 60 = b \<or> 62 = b \<Longrightarrow>
    json_unquote (b # rest) = emit [b] (json_unquote rest)"
  by (auto simp: json_unquote.simps html_safe_def decode_rune_ascii encode_rune_ascii)

lemma unquote_simple: "simple_escape c = Some e \<Longrightarrow> json_unquote (92 # c # rest) = emit [e] (json_unquote rest)"
  by (simp add: json_unquote.simps)

lemma hex4_esc:
  assumes "r < 65536"
  shows "hex4 (hex_digit (r div 4096 mod 16) # hex_digit (r div 256 mod 16) # hex_digit (r div 16 mod 16) #
     hex_digit (r mod 16) # rest) = Some (r, rest)"
proof -
  have "((r div 4096 mod 16 * 16 + r div 256 mod 16) * 16 + r div 16 mod 16) * 16 + r mod 16 = r"
  proof -
    have "r div 4096 < 16" using assms by (simp add: less_mult_imp_div_less)
    moreover have "r div 256 = r div 16 div 16" "r div 4096 = r div 256 div 16" by (simp_all add: div_mult2_eq [symmetric])
    moreover have "x div 16 * 16 + x mod 16 = x" for x :: nat by simp
    ultimately show ?thesis by (metis mod_less)
  qed
  moreover have "hex_value (hex_digit (x mod 16)) = Some (x mod 16)" for x by simp
  ultimately show ?thesis by (simp only: hex4_def list.case option.case prod.case)
qed

lemma unquote_esc_u:
  assumes "r < 65536" "\<not> surrogate r"
  shows "json_unquote (esc_u r @ rest) = emit (encode_rune r) (json_unquote rest)"
  using hex4_esc [OF assms(1), of rest] assms(2)
  by (simp add: esc_u_def json_unquote.simps(2) [of 92] simple_escape_def)

text \<open>A sequence that decodes to a rune does so whatever follows it.\<close>

lemma decode_rune_stable:
  "decode_rune b bs = (r, n) \<Longrightarrow> 0 < n \<Longrightarrow> decode_rune b (take n bs @ rest) = (r, n)"
  by (auto simp: decode_rune.simps split: if_splits list.splits)

lemma decode_rune_wide:
  "decode_rune b bs = (r, n) \<Longrightarrow> 128 \<le> b \<Longrightarrow> 128 \<le> r \<and> (n = 0 \<longrightarrow> r = RuneError)"
  by (auto simp: decode_rune.simps is_cont_def RuneError_def split: if_splits list.splits)

lemma unquote_raw:
  assumes "decode_rune b bs = (r, n)" "128 \<le> b" "0 < n"
  shows "json_unquote (b # take n bs @ rest) = emit (encode_rune r) (json_unquote rest)"
proof -
  have "n \<le> length bs" by (rule decode_rune_valid(2) [OF assms(1)])
  then show ?thesis
    using assms(2) decode_rune_stable [OF assms(1,3), of rest] by (simp add: json_unquote.simps(2) [of b])
qed

lemma unquote_part:
  assumes "decode_rune b bs = (r, n)"
  shows "json_unquote (esc_part (r, b # take n bs) @ rest) = emit (encode_rune r) (json_unquote rest)"
proof (cases "b < 128")
  case True
  then have r: "r = b" "n = 0" using assms by (simp_all add: decode_rune_ascii)
  have "\<not> surrogate b" using True by (simp add: surrogate_def)
  then show ?thesis
    using True unquote_safe [of b rest] unquote_esc_u [of b rest] unquote_simple [of b b rest]
      unquote_simple [of 110 10 rest] unquote_simple [of 114 13 rest] unquote_simple [of 116 9 rest]
    by (auto simp: esc_part_def r encode_rune_ascii simple_escape_def)
next
  case False
  then have wide: "128 \<le> r" "n = 0 \<Longrightarrow> r = RuneError" using decode_rune_wide [OF assms] by auto
  have "\<not> surrogate RuneError" "\<not> surrogate 0x2028" "\<not> surrogate 0x2029" "RuneError < 65536"
    by (simp_all add: surrogate_def RuneError_def)
  then show ?thesis
    using False wide unquote_esc_u [of r rest] unquote_raw [OF assms, of rest] decode_rune_valid(2) [OF assms]
    by (cases "n = 0") (auto simp: esc_part_def)
qed

lemma unquote_parts:
  "json_unquote (concat (map esc_part (decode_parts bs)) @ 34 # rest) = Some (clean bs, rest)"
proof (induction bs rule: decode_parts.induct)
  case 1
  then show ?case by (simp add: unquote_end clean_def decode_runes_def)
next
  case (2 b bs)
  obtain r n where rn: "decode_rune b bs = (r, n)" by fastforce
  from 2 [OF rn [symmetric]] show ?case
    by (simp add: rn unquote_part [OF rn] clean_def decode_runes_def)
qed

text \<open>The clean form of a string: unchanged when it is UTF-8, and only then.\<close>

definition valid_utf8 :: "nat list \<Rightarrow> bool" where
  "valid_utf8 bs \<longleftrightarrow> clean bs = bs"

lemma clean_clean: "clean (clean bs) = clean bs"
  by (simp add: clean_def decode_runes_encode decode_runes_valid)

lemma clean_encoded: "list_all valid_rune rs \<Longrightarrow> valid_utf8 (concat (map encode_rune rs))"
  by (simp add: valid_utf8_def clean_def decode_runes_encode)

lemma clean_ascii: "list_all (\<lambda>b. b < 128) bs \<Longrightarrow> clean bs = bs"
  by (simp add: clean_def decode_runes_def decode_parts_ascii comp_def encode_ascii)

lemma encode_rune_wide: "128 \<le> r \<Longrightarrow> \<not> list_all (\<lambda>b. b < 128) (encode_rune r)"
  by (simp add: encode_rune_def)

lemma clean_ascii_only: "list_all (\<lambda>b. b < 128) (clean bs) \<Longrightarrow> clean bs = bs"
proof (induction bs rule: decode_parts.induct)
  case 1
  then show ?case by (simp add: clean_def decode_runes_def)
next
  case (2 b bs)
  obtain r n where rn: "decode_rune b bs = (r, n)" by fastforce
  have clean: "clean (b # bs) = encode_rune r @ clean (drop n bs)"
    by (simp add: clean_def decode_runes_def rn)
  with 2(2) have "r < 128" using encode_rune_wide [of r] by fastforce
  then have b: "b < 128" using decode_rune_wide [OF rn] by fastforce
  then have "r = b" "n = 0" using rn by (simp_all add: decode_rune_ascii)
  with 2(1) [OF rn [symmetric]] 2(2) b clean show ?case by (simp add: encode_rune_ascii)
qed

end
