(* ===== verification/Json.thy ===== *)
theory Json
  imports Json_Text Wstring Binlog_Field "HOL-Library.List_Lexorder"
begin

text \<open>
  \<open>json.Marshal\<close> of the maps the handler builds and \<open>json.Unmarshal\<close> into a \<open>map[string]interface{}\<close>, as
  Go's \<open>encoding/json\<close> does them: keys are sorted, byte slices are written in base64, numbers are
  read as \<open>float64\<close>. The conversions between floating-point numbers and text, \<open>strconv.ParseFloat\<close> and
  the formatter, are arguments.
\<close>

subsection \<open>Base64\<close>

definition b64_char :: "nat \<Rightarrow> nat" where
  "b64_char i =
     (if i < 26 then 65 + i else if i < 52 then 71 + i else if i < 62 then i - 4 else if i = 62 then 43 else 47)"

fun b64 :: "nat list \<Rightarrow> nat list" where
  "b64 [] = []"
| "b64 [a] = [b64_char (a div 4), b64_char (a mod 4 * 16), 61, 61]"
| "b64 [a, b] = [b64_char (a div 4), b64_char (a mod 4 * 16 + b div 16), b64_char (b mod 16 * 4), 61]"
| "b64 (a # b # c # rest) =
     [b64_char (a div 4), b64_char (a mod 4 * 16 + b div 16), b64_char (b mod 16 * 4 + c div 64),
      b64_char (c mod 64)] @ b64 rest"

lemma b64_char_safe: "i < 64 \<Longrightarrow> html_safe (b64_char i)"
  by (auto simp: b64_char_def html_safe_def)

lemma b64_bounds:
  fixes a x :: nat
  shows "a < 256 \<Longrightarrow> a div 4 < 64" "x < 256 \<Longrightarrow> a mod 4 * 16 + x div 16 < 64" "x < 256 \<Longrightarrow> a mod 16 * 4 + x div 64 < 64"
    "a mod 4 * 16 < 64" "a mod 16 * 4 < 64"
proof -
  have m: "a mod 4 \<le> 3" "a mod 16 \<le> 15" by (simp_all add: less_Suc_eq_le [symmetric])
  then show "a mod 4 * 16 < 64" "a mod 16 * 4 < 64" by linarith+
  show "a < 256 \<Longrightarrow> a div 4 < 64" by (simp add: less_mult_imp_div_less)
  show "x < 256 \<Longrightarrow> a mod 4 * 16 + x div 16 < 64"
    using m(1) less_mult_imp_div_less [of x 16 16] by linarith
  show "x < 256 \<Longrightarrow> a mod 16 * 4 + x div 64 < 64"
    using m(2) less_mult_imp_div_less [of x 4 64] by linarith
qed

lemma b64_safe: "list_all (\<lambda>n. n < 256) bs \<Longrightarrow> list_all html_safe (b64 bs)"
  by (induction bs rule: b64.induct) (simp_all add: b64_char_safe b64_bounds, simp_all add: html_safe_def)

subsection \<open>Encoding\<close>

text \<open>
  The text of a \<open>float64\<close> and a \<open>float32\<close>, none for the values JSON does not have; of a value of
  another type, if it can be written; and the \<open>float64\<close> a number is read as, none out of its range.
\<close>

record json_env =
  je_float64 :: "64 word \<Rightarrow> nat list option"
  je_float32 :: "32 word \<Rightarrow> nat list option"
  je_other :: "string \<Rightarrow> nat list option"
  je_parse :: "nat list \<Rightarrow> 64 word option"

fun json_members :: "(string \<times> nat list) list \<Rightarrow> nat list" where
  "json_members [] = []"
| "json_members [(k, t)] = json_quote (codes k) @ 58 # t"
| "json_members ((k, t) # e # es) = json_quote (codes k) @ 58 # t @ 44 # json_members (e # es)"

definition key_sort :: "(string \<times> 'a) list \<Rightarrow> (string \<times> 'a) list" where
  "key_sort m = sort_key (\<lambda>e. codes (fst e)) m"

lemma set_key_sort [simp]: "set (key_sort m) = set m"
  by (simp add: key_sort_def)

definition int_text :: "int \<Rightarrow> nat list" where
  "int_text i = codes (int_digits i)"

lemma size_entry: "e \<in> set m \<Longrightarrow> size (snd e) < size (VMap m)"
proof (induction m)
  case (Cons a m)
  then show ?case by (cases a) (auto simp: less_Suc_eq)
qed simp

function json_enc :: "json_env \<Rightarrow> go_value \<Rightarrow> nat list option" where
  "json_enc je VNil = Some (codes ''null'')"
| "json_enc je (VString s) = Some (json_quote (codes s))"
| "json_enc je (VBytes b) = Some (34 # b64 (map unat b) @ [34])"
| "json_enc je (VInt i) = Some (int_text (sint i))"
| "json_enc je (VInt8 i) = Some (int_text (sint i))"
| "json_enc je (VInt16 i) = Some (int_text (sint i))"
| "json_enc je (VInt32 i) = Some (int_text (sint i))"
| "json_enc je (VInt64 i) = Some (int_text (sint i))"
| "json_enc je (VUint i) = Some (int_text (uint i))"
| "json_enc je (VUint8 i) = Some (int_text (uint i))"
| "json_enc je (VUint16 i) = Some (int_text (uint i))"
| "json_enc je (VUint32 i) = Some (int_text (uint i))"
| "json_enc je (VUint64 i) = Some (int_text (uint i))"
| "json_enc je (VFloat64 f) = je_float64 je f"
| "json_enc je (VFloat32 f) = je_float32 je f"
| "json_enc je (VOther ty) = je_other je ty"
| "json_enc je (VMap m) =
     map_option (\<lambda>es. 123 # json_members es @ [125])
       (those (map (\<lambda>e. map_option (\<lambda>t. (fst e, t)) (json_enc je (snd e))) (key_sort m)))"
  by pat_completeness auto
termination
  by (relation "measure (\<lambda>(je, v). size v)") (auto dest: size_entry)

definition json_Marshal :: "json_env \<Rightarrow> go_value \<Rightarrow> bytes option" where
  "json_Marshal je v = map_option (map of_nat) (json_enc je v)"

subsection \<open>Decoding\<close>

datatype json =
    JNull
  | JBool bool
  | JNumber "64 word"
  | JString string
  | JArray "json list"
  | JObject "(string \<times> json) list"

definition is_ws :: "nat \<Rightarrow> bool" where
  "is_ws c \<longleftrightarrow> c = 32 \<or> c = 9 \<or> c = 10 \<or> c = 13"

definition skip_ws :: "nat list \<Rightarrow> nat list" where
  "skip_ws s = dropWhile is_ws s"

definition num_code :: "nat \<Rightarrow> bool" where
  "num_code c \<longleftrightarrow> digit_code c \<or> c = 43 \<or> c = 45 \<or> c = 46 \<or> c = 69 \<or> c = 101"

definition valid_exp :: "nat list \<Rightarrow> bool" where
  "valid_exp s =
     (case s of
        [] \<Rightarrow> True
      | c # r \<Rightarrow>
          (c = 101 \<or> c = 69) \<and>
          (let r = (if r \<noteq> [] \<and> (hd r = 43 \<or> hd r = 45) then tl r else r) in r \<noteq> [] \<and> list_all digit_code r))"

definition valid_frac :: "nat list \<Rightarrow> bool" where
  "valid_frac s =
     (case s of
        [] \<Rightarrow> True
      | c # r \<Rightarrow>
          if c = 46 then (case r of [] \<Rightarrow> False | d # r \<Rightarrow> digit_code d \<and> valid_exp (dropWhile digit_code r))
          else valid_exp s)"

definition valid_number :: "nat list \<Rightarrow> bool" where
  "valid_number s =
     (case (if s \<noteq> [] \<and> hd s = 45 then tl s else s) of
        [] \<Rightarrow> False
      | c # r \<Rightarrow> if c = 48 then valid_frac r else digit_code c \<and> valid_frac (dropWhile digit_code r))"

text \<open>
  Every call of the parser is given one less to go; the length of the text is enough of it.
\<close>

fun parse_value :: "json_env \<Rightarrow> nat \<Rightarrow> nat list \<Rightarrow> (json \<times> nat list) option"
  and parse_members :: "json_env \<Rightarrow> nat \<Rightarrow> (string \<times> json) list \<Rightarrow> nat list \<Rightarrow> (json \<times> nat list) option"
  and parse_items :: "json_env \<Rightarrow> nat \<Rightarrow> json list \<Rightarrow> nat list \<Rightarrow> (json \<times> nat list) option" where
  "parse_value je 0 s = None"
| "parse_value je (Suc n) s =
     (case skip_ws s of
        [] \<Rightarrow> None
      | c # r \<Rightarrow>
          if c = 123 then
            (case skip_ws r of
               [] \<Rightarrow> None
             | d # r' \<Rightarrow> if d = 125 then Some (JObject [], r') else parse_members je n [] r)
          else if c = 91 then
            (case skip_ws r of
               [] \<Rightarrow> None
             | d # r' \<Rightarrow> if d = 93 then Some (JArray [], r') else parse_items je n [] r)
          else if c = 34 then map_option (\<lambda>(bs, r'). (JString (chars bs), r')) (json_unquote r)
          else if c = 45 \<or> digit_code c then
            (let lit = takeWhile num_code (c # r)
             in if valid_number lit
                then map_option (\<lambda>f. (JNumber f, dropWhile num_code (c # r))) (je_parse je lit) else None)
          else if take 4 (c # r) = codes ''null'' then Some (JNull, drop 4 (c # r))
          else if take 4 (c # r) = codes ''true'' then Some (JBool True, drop 4 (c # r))
          else if take 5 (c # r) = codes ''false'' then Some (JBool False, drop 5 (c # r))
          else None)"
| "parse_members je 0 acc s = None"
| "parse_members je (Suc n) acc s =
     (case skip_ws s of
        [] \<Rightarrow> None
      | c # r \<Rightarrow>
          if c \<noteq> 34 then None
          else case json_unquote r of
                 None \<Rightarrow> None
               | Some (k, r1) \<Rightarrow>
                   (case skip_ws r1 of
                      [] \<Rightarrow> None
                    | d # r2 \<Rightarrow>
                        if d \<noteq> 58 then None
                        else case parse_value je n r2 of
                               None \<Rightarrow> None
                             | Some (v, r3) \<Rightarrow>
                                 (let acc = AList.update (chars k) v acc
                                  in case skip_ws r3 of
                                       [] \<Rightarrow> None
                                     | e # r4 \<Rightarrow>
                                         if e = 44 then parse_members je n acc r4
                                         else if e = 125 then Some (JObject acc, r4)
                                         else None)))"
| "parse_items je 0 acc s = None"
| "parse_items je (Suc n) acc s =
     (case parse_value je n s of
        None \<Rightarrow> None
      | Some (v, r) \<Rightarrow>
          (case skip_ws r of
             [] \<Rightarrow> None
           | e # r' \<Rightarrow>
               if e = 44 then parse_items je n (acc @ [v]) r'
               else if e = 93 then Some (JArray (acc @ [v]), r')
               else None))"

declare parse_value.simps [simp del] parse_members.simps [simp del] parse_items.simps [simp del]

text \<open>Into a map: another value than an object or null is an error.\<close>

definition json_Unmarshal :: "json_env \<Rightarrow> bytes \<Rightarrow> (string \<times> json) list option" where
  "json_Unmarshal je data =
     (let s = map unat data
      in case parse_value je (Suc (length s)) s of
           None \<Rightarrow> None
         | Some (v, rest) \<Rightarrow>
             if skip_ws rest \<noteq> [] then None
             else case v of JObject m \<Rightarrow> Some m | JNull \<Rightarrow> Some [] | _ \<Rightarrow> None)"

subsection \<open>What a decoder sees of a value\<close>

function json_view :: "json_env \<Rightarrow> go_value \<Rightarrow> json" where
  "json_view je VNil = JNull"
| "json_view je (VString s) = JString (chars (clean (codes s)))"
| "json_view je (VBytes b) = JString (chars (b64 (map unat b)))"
| "json_view je (VInt i) = JNumber (the (je_parse je (int_text (sint i))))"
| "json_view je (VInt8 i) = JNumber (the (je_parse je (int_text (sint i))))"
| "json_view je (VInt16 i) = JNumber (the (je_parse je (int_text (sint i))))"
| "json_view je (VInt32 i) = JNumber (the (je_parse je (int_text (sint i))))"
| "json_view je (VInt64 i) = JNumber (the (je_parse je (int_text (sint i))))"
| "json_view je (VUint i) = JNumber (the (je_parse je (int_text (uint i))))"
| "json_view je (VUint8 i) = JNumber (the (je_parse je (int_text (uint i))))"
| "json_view je (VUint16 i) = JNumber (the (je_parse je (int_text (uint i))))"
| "json_view je (VUint32 i) = JNumber (the (je_parse je (int_text (uint i))))"
| "json_view je (VUint64 i) = JNumber (the (je_parse je (int_text (uint i))))"
| "json_view je (VFloat64 f) = JNumber (the (je_parse je (the (je_float64 je f))))"
| "json_view je (VFloat32 f) = JNumber (the (je_parse je (the (je_float32 je f))))"
| "json_view je (VOther ty) = JNull"
| "json_view je (VMap m) =
     JObject (foldl (\<lambda>acc e. AList.update (fst e) (snd e) acc) []
       (map (\<lambda>e. (chars (clean (codes (fst e))), json_view je (snd e))) (key_sort m)))"
  by pat_completeness auto
termination
  by (relation "measure (\<lambda>(je, v). size v)") (auto dest: size_entry)

text \<open>
  What is asked of the conversions, and of a value: the floating-point numbers in it have a text, which
  is a JSON number; integers and these texts are in the range of \<open>float64\<close>; there is nothing of another
  type in it.
\<close>

definition number_ok :: "json_env \<Rightarrow> nat list option \<Rightarrow> bool" where
  "number_ok je t = (case t of None \<Rightarrow> False | Some s \<Rightarrow> list_all num_code s \<and> valid_number s \<and> je_parse je s \<noteq> None)"

definition int_ok :: "json_env \<Rightarrow> int \<Rightarrow> bool" where
  "int_ok je i \<longleftrightarrow> je_parse je (int_text i) \<noteq> None"

function json_plain :: "json_env \<Rightarrow> go_value \<Rightarrow> bool" where
  "json_plain je VNil = True"
| "json_plain je (VString s) = True"
| "json_plain je (VBytes b) = True"
| "json_plain je (VInt i) = int_ok je (sint i)"
| "json_plain je (VInt8 i) = int_ok je (sint i)"
| "json_plain je (VInt16 i) = int_ok je (sint i)"
| "json_plain je (VInt32 i) = int_ok je (sint i)"
| "json_plain je (VInt64 i) = int_ok je (sint i)"
| "json_plain je (VUint i) = int_ok je (uint i)"
| "json_plain je (VUint8 i) = int_ok je (uint i)"
| "json_plain je (VUint16 i) = int_ok je (uint i)"
| "json_plain je (VUint32 i) = int_ok je (uint i)"
| "json_plain je (VUint64 i) = int_ok je (uint i)"
| "json_plain je (VFloat64 f) = number_ok je (je_float64 je f)"
| "json_plain je (VFloat32 f) = number_ok je (je_float32 je f)"
| "json_plain je (VOther ty) = False"
| "json_plain je (VMap m) = list_all (\<lambda>e. json_plain je (snd e)) m"
  by pat_completeness auto
termination
  by (relation "measure (\<lambda>(je, v). size v)") (auto dest: size_entry)

subsection \<open>Numbers\<close>

lemma valid_frac_Nil [simp]: "valid_frac []"
  by (simp add: valid_frac_def)

lemma dropWhile_digits: "list_all digit_code s \<Longrightarrow> dropWhile digit_code s = []"
  by (simp add: list_all_iff)

text \<open>No leading zero, except in zero itself.\<close>

lemma nat_digits_head: "n \<noteq> 0 \<Longrightarrow> hd (codes (nat_digits n)) \<noteq> 48"
proof (induction n rule: nat_digits.induct)
  case (1 n)
  show ?case
  proof (cases "n < 10")
    case True
    with 1 show ?thesis by (simp add: nat_digits.simps [of n])
  next
    case False
    then have "codes (nat_digits (n div 10)) \<noteq> []" by (simp add: codes_def)
    with 1 False show ?thesis by (simp add: nat_digits.simps [of n])
  qed
qed

lemma valid_nat_text: "valid_frac (dropWhile digit_code (tl (codes (nat_digits n))))"
  "hd (codes (nat_digits n)) = 48 \<Longrightarrow> tl (codes (nat_digits n)) = []"
  "digit_code (hd (codes (nat_digits n)))"
proof -
  obtain c r where e: "codes (nat_digits n) = c # r"
    by (metis codes_Cons list.exhaust nat_digits_not_Nil)
  with codes_nat_digits [of n] show "valid_frac (dropWhile digit_code (tl (codes (nat_digits n))))"
    "digit_code (hd (codes (nat_digits n)))"
    by (simp_all add: dropWhile_digits)
  show "tl (codes (nat_digits n)) = []" if "hd (codes (nat_digits n)) = 48"
    using nat_digits_head [of n] that by (cases "n = 0") (simp_all add: nat_digits.simps [of 0])
qed

lemma valid_int_text: "valid_number (int_text i)"
proof -
  have nat: "\<exists>c r. codes (nat_digits n) = c # r \<and> c \<noteq> 45 \<and> digit_code c \<and> (c = 48 \<longrightarrow> r = []) \<and> valid_frac (dropWhile digit_code r)" for n
    using valid_nat_text [of n] by (cases "codes (nat_digits n)") (auto simp: codes_def digit_code_def)
  show ?thesis
    using nat [of "nat i"] nat [of "nat (- i)"]
    by (auto simp: valid_number_def int_text_def int_digits_def)
qed

lemma int_text_codes: "list_all num_code (int_text i)"
proof -
  have "list_all num_code (codes (nat_digits n))" for n
    using codes_nat_digits [of n] by (auto simp: list_all_iff num_code_def)
  then show ?thesis by (simp add: int_text_def int_digits_def num_code_def)
qed

lemma int_text_ok: "int_ok je i \<Longrightarrow> number_ok je (Some (int_text i))"
  by (simp add: int_ok_def number_ok_def int_text_codes valid_int_text)

text \<open>What may follow a number.\<close>

definition delimited :: "nat list \<Rightarrow> bool" where
  "delimited rest \<longleftrightarrow> rest = [] \<or> \<not> num_code (hd rest)"

lemma span_number:
  assumes "list_all num_code s" "delimited rest"
  shows "takeWhile num_code (s @ rest) = s" "dropWhile num_code (s @ rest) = rest"
proof -
  have "takeWhile num_code rest = []" "dropWhile num_code rest = rest"
    using assms(2) by (cases rest; simp add: delimited_def)+
  with assms(1) show "takeWhile num_code (s @ rest) = s" "dropWhile num_code (s @ rest) = rest"
    by (simp_all add: list_all_iff)
qed

lemma parse_number:
  assumes "number_ok je (Some s)" "delimited rest"
  shows "parse_value je (Suc n) (s @ rest) = Some (JNumber (the (je_parse je s)), rest)"
proof -
  have s: "list_all num_code s" "valid_number s" "je_parse je s \<noteq> None"
    using assms(1) by (simp_all add: number_ok_def)
  then obtain c r where e: "s = c # r" "c = 45 \<or> digit_code c"
    by (cases s) (auto simp: valid_number_def digit_code_def split: if_splits)
  then have "\<not> is_ws c" "c \<noteq> 123" "c \<noteq> 91" "c \<noteq> 34" by (auto simp: is_ws_def digit_code_def)
  with e s span_number [OF s(1) assms(2)] show ?thesis
    by (auto simp: parse_value.simps skip_ws_def Let_def)
qed

subsection \<open>Reading what was written\<close>

lemma quote_append: "json_quote bs @ rest = 34 # concat (map esc_part (decode_parts bs)) @ 34 # rest"
  by (simp add: json_quote_def)

lemma parse_string: "parse_value je (Suc n) (json_quote bs @ rest) = Some (JString (chars (clean bs)), rest)"
  by (simp add: parse_value.simps skip_ws_def is_ws_def quote_append unquote_parts)

lemma unquote_plain: "list_all html_safe s \<Longrightarrow> json_unquote (s @ 34 # rest) = Some (s, rest)"
  by (induction s) (simp_all add: unquote_end unquote_safe)

lemma bytes_bound: "list_all (\<lambda>n. n < 256) (map unat (b :: bytes))"
proof -
  have "unat x < 256" for x :: byte using unsigned_less [of x] by simp
  then show ?thesis by (simp add: list_all_iff)
qed

lemma parse_bytes:
  "parse_value je (Suc n) ((34 # b64 (map unat (b :: bytes)) @ [34]) @ rest) =
     Some (JString (chars (b64 (map unat b))), rest)"
  using unquote_plain [OF b64_safe [OF bytes_bound, of b], of rest]
  by (simp add: parse_value.simps skip_ws_def is_ws_def)

lemma parse_null: "parse_value je (Suc n) (codes ''null'' @ rest) = Some (JNull, rest)"
  by (simp add: parse_value.simps skip_ws_def is_ws_def digit_code_def codes_def)

text \<open>The reading of one value, as the members of an object need it.\<close>

definition reads_back :: "json_env \<Rightarrow> go_value \<Rightarrow> bool" where
  "reads_back je v \<longleftrightarrow> (\<forall>t n rest. json_enc je v = Some t \<longrightarrow> length t < n \<longrightarrow> delimited rest \<longrightarrow>
     parse_value je n (t @ rest) = Some (json_view je v, rest))"

lemma reads_backI:
  "(\<And>t n rest. json_enc je v = Some t \<Longrightarrow> length t < Suc n \<Longrightarrow> delimited rest \<Longrightarrow>
      parse_value je (Suc n) (t @ rest) = Some (json_view je v, rest)) \<Longrightarrow> reads_back je v"
  unfolding reads_back_def
proof (intro allI impI)
  fix t n rest
  assume *: "\<And>t n rest. json_enc je v = Some t \<Longrightarrow> length t < Suc n \<Longrightarrow> delimited rest \<Longrightarrow>
      parse_value je (Suc n) (t @ rest) = Some (json_view je v, rest)"
    and t: "json_enc je v = Some t" "length t < n" "delimited rest"
  from t(2) obtain m where "n = Suc m" by (cases n) auto
  with * [of t m rest] t show "parse_value je n (t @ rest) = Some (json_view je v, rest)" by simp
qed

lemma reads_back_number:
  "number_ok je (json_enc je v) \<Longrightarrow> json_view je v = JNumber (the (je_parse je (the (json_enc je v)))) \<Longrightarrow> reads_back je v"
  by (rule reads_backI) (simp add: parse_number)

abbreviation member_of :: "json_env \<Rightarrow> string \<times> go_value \<Rightarrow> (string \<times> nat list) option" where
  "member_of je e \<equiv> map_option (\<lambda>t. (fst e, t)) (json_enc je (snd e))"

abbreviation view_of :: "json_env \<Rightarrow> string \<times> go_value \<Rightarrow> string \<times> json" where
  "view_of je e \<equiv> (chars (clean (codes (fst e))), json_view je (snd e))"

lemma delimited_comma [simp]: "delimited (44 # s)" "delimited (125 # s)"
  by (simp_all add: delimited_def num_code_def digit_code_def)

lemma parse_member:
  assumes "reads_back je v" "json_enc je v = Some t" "length t < n" "d = 44 \<or> d = 125"
  shows "parse_members je (Suc n) acc (json_quote (codes k) @ 58 # t @ d # rest) =
    (let acc = AList.update (chars (clean (codes k))) (json_view je v) acc
     in if d = 44 then parse_members je n acc rest else Some (JObject acc, rest))"
proof -
  have "delimited (d # rest)" using assms(4) by auto
  then have v: "parse_value je n (t @ d # rest) = Some (json_view je v, d # rest)"
    using assms(1-3) unfolding reads_back_def by blast
  show ?thesis
    using assms(4) unfolding quote_append
    by (auto simp: parse_members.simps(2) skip_ws_def is_ws_def unquote_parts v Let_def)
qed

lemma parse_members_enc:
  "es \<noteq> [] \<Longrightarrow> \<forall>e \<in> set es. reads_back je (snd e) \<Longrightarrow> those (map (member_of je) es) = Some ts \<Longrightarrow>
     length (json_members ts) < n \<Longrightarrow>
     parse_members je n acc (json_members ts @ 125 # rest) =
       Some (JObject (foldl (\<lambda>acc e. AList.update (fst e) (snd e) acc) acc (map (view_of je) es)), rest)"
proof (induction es arbitrary: ts n acc)
  case Nil
  then show ?case by simp
next
  case (Cons e es)
  obtain k v where e: "e = (k, v)" by fastforce
  from Cons.prems(3) obtain t us where t: "json_enc je v = Some t" "those (map (member_of je) es) = Some us"
    and ts: "ts = (k, t) # us"
    by (auto simp: e split: option.splits)
  obtain m where n: "n = Suc m" using Cons.prems(4) by (cases n) auto
  have rb: "reads_back je v" using Cons.prems(2) by (simp add: e)
  show ?case
  proof (cases es)
    case Nil
    then have us: "us = []" using t(2) by simp
    have "length t < m" using Cons.prems(4) by (simp add: ts us n json_quote_def)
    from parse_member [OF rb t(1) this, of 125 acc k rest] show ?thesis
      by (simp add: ts us n e Nil)
  next
    case (Cons e' es')
    then obtain k' t' us' where us: "us = (k', t') # us'" using t(2) by (auto split: option.splits)
    have m: "length t < m" "length (json_members us) < m"
      using Cons.prems(4) by (simp_all add: ts us n json_quote_def)
    have "parse_members je n acc (json_members ts @ 125 # rest) =
        parse_members je m (AList.update (chars (clean (codes k))) (json_view je v) acc) (json_members us @ 125 # rest)"
      using parse_member [OF rb t(1) m(1), of 44 acc k "json_members us @ 125 # rest"]
      by (simp add: ts us n)
    with Cons.IH [OF _ _ t(2) m(2)] Cons.prems(2) Cons show ?thesis by (simp add: e)
  qed
qed

lemma members_not_brace: "ts \<noteq> [] \<Longrightarrow> \<exists>r. json_members ts = 34 # r"
  by (cases ts rule: json_members.cases) (auto simp: json_quote_def)

lemma those_empty: "those xs = Some [] \<Longrightarrow> xs = []"
  by (cases xs) (auto split: option.splits)

lemma reads_back_object:
  assumes "\<forall>e \<in> set m. reads_back je (snd e)"
  shows "reads_back je (VMap m)"
proof (rule reads_backI)
  fix t n rest
  assume t: "json_enc je (VMap m) = Some t" and len: "length t < Suc n" and d: "delimited rest"
  then obtain ts where ts: "those (map (member_of je) (key_sort m)) = Some ts"
    and tt: "t = 123 # json_members ts @ [125]" by auto
  show "parse_value je (Suc n) (t @ rest) = Some (json_view je (VMap m), rest)"
  proof (cases "key_sort m")
    case Nil
    then have "ts = []" using ts by simp
    then show ?thesis by (simp add: tt Nil parse_value.simps skip_ws_def is_ws_def)
  next
    case (Cons e es)
    then have "ts \<noteq> []" using ts those_empty by fastforce
    then obtain r where r: "json_members ts = 34 # r" using members_not_brace by blast
    have "parse_members je n [] (json_members ts @ 125 # rest) =
        Some (JObject (foldl (\<lambda>acc e. AList.update (fst e) (snd e) acc) [] (map (view_of je) (key_sort m))), rest)"
    proof (rule parse_members_enc [OF _ _ ts])
      show "key_sort m \<noteq> []" using Cons by simp
      show "\<forall>e \<in> set (key_sort m). reads_back je (snd e)" using assms by simp
      show "length (json_members ts) < n" using len by (simp add: tt)
    qed
    then show ?thesis by (simp add: tt r parse_value.simps skip_ws_def is_ws_def)
  qed
qed

lemma plain_reads_back: "json_plain je v \<Longrightarrow> reads_back je v"
proof (induction je v rule: json_plain.induct)
  case (17 je m)
  then show ?case by (intro reads_back_object) (auto simp: list_all_iff)
next
  case (1 je)
  show ?case by (rule reads_backI) (use parse_null in \<open>auto simp del: codes_Cons\<close>)
next
  case (2 je s)
  show ?case by (rule reads_backI) (auto simp: parse_string)
next
  case (3 je b)
  show ?case by (rule reads_backI) (use parse_bytes in auto)
next
  case (14 je f)
  then show ?case by (intro reads_back_number) simp_all
next
  case (15 je f)
  then show ?case by (intro reads_back_number) simp_all
qed (auto intro!: reads_back_number simp: int_text_ok)

lemma json_quote_bytes: "list_all (\<lambda>n. n < 256) bs \<Longrightarrow> list_all (\<lambda>n. n < 256) (json_quote bs)"
proof -
  assume "list_all (\<lambda>n. n < 256) bs"
  then have "list_all (\<lambda>n. n < 256) (concat (map snd (decode_parts bs)))" by (simp only: decode_parts_raw)
  then have raw: "list_all (\<lambda>p. list_all (\<lambda>n. n < 256) (snd p)) (decode_parts bs)"
    by (simp add: list_all_iff)
  have hex: "hex_digit (x mod 16) < 256" for x
    using mod_less_divisor [of 16 x] by (auto simp: hex_digit_def)
  have "list_all (\<lambda>n. n < 256) (esc_u r)" for r by (simp add: esc_u_def hex)
  then have "list_all (\<lambda>n. n < 256) (snd p) \<Longrightarrow> list_all (\<lambda>n. n < 256) (esc_part p)" for p
    by (cases p) (auto simp: esc_part_def)
  with raw show ?thesis by (auto simp: json_quote_def list_all_iff)
qed

lemma num_code_byte: "num_code c \<Longrightarrow> c < 256"
  by (auto simp: num_code_def digit_code_def)

lemma number_bytes: "number_ok je (Some t) \<Longrightarrow> list_all (\<lambda>n. n < 256) t"
  by (auto simp: number_ok_def list_all_iff dest: num_code_byte)

lemma html_safe_byte: "html_safe c \<Longrightarrow> c < 256"
  by (simp add: html_safe_def)

lemma json_members_bytes:
  "list_all (\<lambda>e. list_all (\<lambda>n. n < 256) (snd e)) ts \<Longrightarrow> list_all (\<lambda>n. n < 256) (json_members ts)"
  by (induction ts rule: json_members.induct) (simp_all add: json_quote_bytes codes_bytes)

lemma those_map_Some:
  "\<forall>x \<in> set xs. \<exists>y. f x = Some y \<and> P y \<Longrightarrow> \<exists>ys. those (map f xs) = Some ys \<and> list_all P ys"
  by (induction xs) auto

text \<open>A plain value has a text, and it consists of bytes.\<close>

lemma json_enc_plain: "json_plain je v \<Longrightarrow> \<exists>t. json_enc je v = Some t \<and> list_all (\<lambda>n. n < 256) t"
proof (induction je v rule: json_plain.induct)
  case (17 je m)
  have "\<forall>e \<in> set (key_sort m). \<exists>y. member_of je e = Some y \<and> list_all (\<lambda>n. n < 256) (snd y)"
  proof
    fix e
    assume "e \<in> set (key_sort m)"
    then have "e \<in> set m" "json_plain je (snd e)" using 17(2) by (simp_all add: list_all_iff)
    from 17(1) [OF this] show "\<exists>y. member_of je e = Some y \<and> list_all (\<lambda>n. n < 256) (snd y)" by auto
  qed
  from those_map_Some [OF this] show ?case by (auto simp: json_members_bytes)
next
  case (2 je s)
  show ?case by (simp add: json_quote_bytes codes_bytes)
next
  case (3 je b)
  have "list_all html_safe (b64 (map unat b))" by (rule b64_safe [OF bytes_bound])
  then have "list_all (\<lambda>n. n < 256) (b64 (map unat b))" by (rule list.pred_mono_strong) (rule html_safe_byte)
  then show ?case by simp
next
  case (14 je f)
  then show ?case by (cases "je_float64 je f") (auto simp: number_bytes number_ok_def [of _ None])
next
  case (15 je f)
  then show ?case by (cases "je_float32 je f") (auto simp: number_bytes number_ok_def [of _ None])
qed (simp_all add: int_text_def codes_bytes)

text \<open>The entries of the decoded map.\<close>

definition json_map :: "json_env \<Rightarrow> (string \<times> go_value) list \<Rightarrow> (string \<times> json) list" where
  "json_map je m = foldl (\<lambda>acc e. AList.update (fst e) (snd e) acc) [] (map (view_of je) (key_sort m))"

lemma json_view_map [simp]: "json_view je (VMap m) = JObject (json_map je m)"
  by (simp add: json_map_def)

declare json_view.simps(17) [simp del]

lemma json_Unmarshal_Marshal:
  assumes "json_plain je (VMap m)"
  shows "\<exists>d. json_Marshal je (VMap m) = Some d \<and> json_Unmarshal je d = Some (json_map je m)"
proof -
  obtain t where t: "json_enc je (VMap m) = Some t" "list_all (\<lambda>n. n < 256) t"
    using json_enc_plain [OF assms] by blast
  have id: "map unat (map of_nat t :: bytes) = t"
    using t(2) by (auto simp: list_all_iff unat_of_nat intro!: map_idI)
  have "parse_value je (Suc (length t)) (t @ []) = Some (json_view je (VMap m), [])"
    using plain_reads_back [OF assms] t(1) unfolding reads_back_def by (simp add: delimited_def)
  then have "json_Unmarshal je (map of_nat t) = Some (json_map je m)"
    unfolding json_Unmarshal_def id Let_def by (simp add: skip_ws_def)
  moreover have "json_Marshal je (VMap m) = Some (map of_nat t)"
    using t(1) by (simp only: json_Marshal_def option.map)
  ultimately show ?thesis by blast
qed


subsection \<open>Looking up the decoded map\<close>

lemma map_of_foldl_update:
  "map_of (foldl (\<lambda>acc e. AList.update (fst e) (snd e) acc) acc xs) k =
     (case map_of (rev xs) k of None \<Rightarrow> map_of acc k | Some v \<Rightarrow> Some v)"
  by (induction xs rule: rev_induct) (simp_all add: update_conv')

definition ascii :: "string \<Rightarrow> bool" where
  "ascii s \<longleftrightarrow> list_all (\<lambda>b. b < 128) (codes s)"

lemma clean_key: "ascii k \<Longrightarrow> chars (clean (codes k')) = k \<longleftrightarrow> k' = k"
proof
  assume k: "ascii k" and e: "chars (clean (codes k')) = k"
  have "list_all (\<lambda>n. n < 256) (clean (codes k'))" by (simp add: clean_def concat_encode_bytes)
  then have "clean (codes k') = codes k" using e codes_chars by metis
  then show "k' = k" using k clean_ascii_only [of "codes k'"] by (metis ascii_def chars_codes)
next
  assume "ascii k" "k' = k"
  then show "chars (clean (codes k')) = k" by (simp add: clean_ascii ascii_def)
qed

lemma map_of_views:
  assumes "ascii k"
  shows "distinct (map fst es) \<Longrightarrow> map_of (rev (map (view_of je) es)) k = map_option (json_view je) (map_of es k)"
proof (induction es)
  case (Cons e es)
  have "map_of es k = None" if "fst e = k" using Cons.prems that by (auto simp: map_of_eq_None_iff)
  with Cons clean_key [OF assms, of "fst e"] show ?case
    by (cases e) (auto simp: map_add_def split: option.splits)
qed simp

lemma map_of_key_sort: "distinct (map fst m) \<Longrightarrow> map_of (key_sort m) = map_of m"
proof -
  assume d: "distinct (map fst m)"
  have "distinct m" using d by (metis distinct_map)
  moreover have "inj_on fst (set m)" using d by (simp add: distinct_map)
  ultimately have "distinct (map fst (key_sort m))" by (simp add: distinct_map key_sort_def)
  with d show ?thesis by (intro map_of_eqI) (auto simp: map_of_eq_Some_iff image_iff)
qed

lemma json_map_lookup:
  assumes "distinct (map fst m)" "ascii k"
  shows "map_of (json_map je m) k = map_option (json_view je) (map_of m k)"
proof -
  have "distinct (map fst (key_sort m))"
    using assms(1) by (simp add: distinct_map key_sort_def)
  then show ?thesis
    by (simp add: json_map_def map_of_foldl_update map_of_views [OF assms(2)] map_of_key_sort [OF assms(1)]
        split: option.split)
qed

text \<open>The decoded values as Go's \<open>interface{}\<close>.\<close>

fun json_go :: "json \<Rightarrow> go_value" where
  "json_go JNull = VNil"
| "json_go (JBool b) = VOther ''bool''"
| "json_go (JNumber f) = VFloat64 f"
| "json_go (JString s) = VString s"
| "json_go (JArray vs) = VOther ''[]interface {}''"
| "json_go (JObject m) = VMap (map (\<lambda>e. (fst e, json_go (snd e))) m)"

definition go_Unmarshal :: "json_env \<Rightarrow> bytes \<Rightarrow> (string \<times> go_value) list option" where
  "go_Unmarshal je d = map_option (map (\<lambda>e. (fst e, json_go (snd e)))) (json_Unmarshal je d)"

lemma map_of_map_snd: "map_of (map (\<lambda>e. (fst e, f (snd e))) m) k = map_option f (map_of m k)"
  by (induction m) auto

subsection \<open>Integers as floating-point numbers\<close>

text \<open>
  The \<open>float64\<close> nearest to an integer, ties to even, as its bits: what \<open>strconv.ParseFloat\<close> gives for
  the text of the integer.
\<close>

fun top_bit :: "nat \<Rightarrow> nat" where
  "top_bit n = (if n < 2 then 0 else Suc (top_bit (n div 2)))"

declare top_bit.simps [simp del]

definition half_even :: "nat \<Rightarrow> nat \<Rightarrow> nat" where
  "half_even a k =
     (let q = a div 2 ^ k; r = a mod 2 ^ k; h = 2 ^ k
      in if 2 * r < h \<or> 2 * r = h \<and> even q then q else q + 1)"

definition float_mag :: "nat \<Rightarrow> nat" where
  "float_mag a =
     (let e = top_bit a; m = (if e \<le> 52 then a * 2 ^ (52 - e) else half_even a (e - 52))
      in (e + 1022) * 2 ^ 52 + m)"

definition float_of_int :: "int \<Rightarrow> 64 word" where
  "float_of_int i =
     (if i = 0 then 0
      else if i < 0 then of_nat (2 ^ 63 + float_mag (nat (- i))) else of_nat (float_mag (nat i)))"

lemma top_bit_bounds: "0 < a \<Longrightarrow> 2 ^ top_bit a \<le> a \<and> a < 2 ^ Suc (top_bit a)"
proof (induction a rule: top_bit.induct)
  case (1 a)
  show ?case
  proof (cases "a < 2")
    case True
    with 1 show ?thesis by (simp add: top_bit.simps [of a])
  next
    case False
    with 1 have "2 ^ top_bit (a div 2) \<le> a div 2 \<and> a div 2 < 2 ^ Suc (top_bit (a div 2))" by simp
    with False show ?thesis by (auto simp: top_bit.simps [of a])
  qed
qed

lemma top_bit_eq: "2 ^ k \<le> a \<Longrightarrow> a < 2 ^ Suc k \<Longrightarrow> top_bit a = k"
proof -
  assume a: "2 ^ k \<le> a" "a < 2 ^ Suc k"
  then have "0 < a" by (metis gr0I not_le zero_less_numeral zero_less_power)
  note b = top_bit_bounds [OF this]
  have "(2 :: nat) ^ top_bit a < 2 ^ Suc k" "(2 :: nat) ^ k < 2 ^ Suc (top_bit a)" using a b by linarith+
  then have "top_bit a < Suc k" "k < Suc (top_bit a)" by (metis power_strict_increasing_iff one_less_numeral_iff semiring_norm(76))+
  then show ?thesis by simp
qed

lemma float_mag_big: "float_mag 9007199254740992 = float_mag 9007199254740993"
proof -
  have "top_bit 9007199254740992 = 53" "top_bit 9007199254740993 = 53" by (rule top_bit_eq; simp)+
  then show ?thesis by (simp add: float_mag_def half_even_def)
qed

text \<open>Up to \<open>2 ^ 53\<close> the magnitude is exact.\<close>

lemma float_mag_exact:
  assumes "0 < a" "a \<le> 2 ^ 53"
  shows "\<exists>e m. float_mag a = (e + 1022) * 2 ^ 52 + m \<and> e \<le> 53 \<and> 2 ^ 52 \<le> m \<and> m < 2 ^ 53 \<and> a * 2 ^ 53 = m * 2 ^ Suc e"
proof -
  note b = top_bit_bounds [OF assms(1)]
  show ?thesis
  proof (cases "top_bit a \<le> 52")
    case True
    let ?m = "a * 2 ^ (52 - top_bit a)"
    have p: "(2 :: nat) ^ top_bit a * 2 ^ (52 - top_bit a) = 2 ^ 52" using True by (metis le_add_diff_inverse power_add)
    have "2 ^ 52 \<le> ?m" using b p by (metis mult_le_mono1)
    moreover have "?m < 2 ^ 53"
    proof -
      have "?m < 2 ^ Suc (top_bit a) * 2 ^ (52 - top_bit a)" using b by (metis mult_less_mono1 zero_less_numeral zero_less_power)
      also have "\<dots> = 2 * (2 ^ top_bit a * 2 ^ (52 - top_bit a))" by simp
      finally show ?thesis using p by simp
    qed
    moreover have "a * 2 ^ 53 = ?m * 2 ^ Suc (top_bit a)" using p by (simp add: mult.assoc mult.commute mult.left_commute)
    ultimately show ?thesis using True by (intro exI [of _ "top_bit a"] exI [of _ ?m]) (simp add: float_mag_def Let_def)
  next
    case False
    then have "(2 :: nat) ^ 53 \<le> 2 ^ top_bit a" by (intro power_increasing) auto
    with assms b have a: "a = 2 ^ 53" by linarith
    have t: "top_bit a = 53" by (rule top_bit_eq) (simp_all add: a)
    have "half_even (2 ^ 53) 1 = 2 ^ 52" by (simp add: half_even_def Let_def)
    then have "float_mag a = (53 + 1022) * 2 ^ 52 + 2 ^ 52" unfolding float_mag_def Let_def t unfolding a by simp
    then show ?thesis by (intro exI [of _ 53] exI [of _ "2 ^ 52"]) (simp add: a)
  qed
qed


lemma float_mag_inj:
  assumes "0 < a" "a \<le> 2 ^ 53" "0 < b" "b \<le> 2 ^ 53" "float_mag a = float_mag b"
  shows "a = b"
proof -
  obtain e m where a: "float_mag a = (e + 1022) * 2 ^ 52 + m" "2 ^ 52 \<le> m" "m < 2 ^ 53" "a * 2 ^ 53 = m * 2 ^ Suc e"
    using float_mag_exact [OF assms(1,2)] by blast
  obtain f n where b: "float_mag b = (f + 1022) * 2 ^ 52 + n" "2 ^ 52 \<le> n" "n < 2 ^ 53" "b * 2 ^ 53 = n * 2 ^ Suc f"
    using float_mag_exact [OF assms(3,4)] by blast
  have "e = f" using assms(5) a(1-3) b(1-3) by simp
  moreover from this have "m = n" using assms(5) a(1) b(1) by simp
  ultimately have "a * 2 ^ 53 = b * 2 ^ 53" using a(4) b(4) by simp
  then show ?thesis by simp
qed

lemma float_mag_small: "0 < a \<Longrightarrow> a \<le> 2 ^ 53 \<Longrightarrow> 0 < float_mag a \<and> float_mag a < 2 ^ 63"
  using float_mag_exact [of a] by fastforce

lemma float_of_int_inj: "inj_on float_of_int {- (2 ^ 53)..2 ^ 53}"
proof -
  define code where "code i = (if i = 0 then 0 else if i < 0 then 2 ^ 63 + float_mag (nat (- i)) else float_mag (nat i))" for i :: int
  have float: "float_of_int i = of_nat (code i)" for i by (simp add: float_of_int_def code_def)
  have mag: "0 < float_mag (nat \<bar>i\<bar>) \<and> float_mag (nat \<bar>i\<bar>) < 2 ^ 63" if "i \<in> {- (2 ^ 53)..2 ^ 53}" "i \<noteq> 0" for i
    using that by (intro float_mag_small) auto
  have code: "code i < 2 ^ 64" if "i \<in> {- (2 ^ 53)..2 ^ 53}" for i
    using mag [OF that] by (auto simp: code_def)
  show ?thesis
  proof (rule inj_onI)
    fix i j :: int
    assume i: "i \<in> {- (2 ^ 53)..2 ^ 53}" and j: "j \<in> {- (2 ^ 53)..2 ^ 53}" and "float_of_int i = float_of_int j"
    then have "(of_nat (code i) :: 64 word) = of_nat (code j)" by (simp add: float)
    then have "unat (of_nat (code i) :: 64 word) = unat (of_nat (code j) :: 64 word)" by simp
    then have eq: "code i = code j"
      using code [OF i] code [OF j] by (simp add: unat_of_nat take_bit_nat_eq_self)
    have "float_mag (nat \<bar>i\<bar>) = float_mag (nat \<bar>j\<bar>) \<Longrightarrow> i \<noteq> 0 \<Longrightarrow> j \<noteq> 0 \<Longrightarrow> \<bar>i\<bar> = \<bar>j\<bar>"
      using float_mag_inj [of "nat \<bar>i\<bar>" "nat \<bar>j\<bar>"] i j by (auto simp: nat_le_iff abs_le_iff eq_nat_nat_iff)
    then show "i = j"
      using eq mag [OF i] mag [OF j] by (auto simp: code_def split: if_splits)
  qed
qed

text \<open>
  What is relied on of \<open>strconv.ParseFloat\<close>: the text of a 64-bit integer is read as the nearest
  \<open>float64\<close>. Integers up to \<open>2 ^ 53\<close> in magnitude are told apart by a decoder; the next two are not.
\<close>

definition ints_nearest :: "json_env \<Rightarrow> bool" where
  "ints_nearest je \<longleftrightarrow> (\<forall>i. - (2 ^ 63) \<le> i \<longrightarrow> i < 2 ^ 64 \<longrightarrow> je_parse je (int_text i) = Some (float_of_int i))"

lemma json_integers:
  assumes "ints_nearest je"
  shows "(\<bar>sint v\<bar> \<le> 2 ^ 53 \<longrightarrow> \<bar>sint w\<bar> \<le> 2 ^ 53 \<longrightarrow>
      (json_view je (VInt64 v) = json_view je (VInt64 w) \<longleftrightarrow> v = w)) \<and>
    json_view je (VInt64 9007199254740992) = json_view je (VInt64 9007199254740993)"
proof -
  have parse: "json_view je (VInt64 x) = JNumber (float_of_int (sint x))" for x
    using assms sint_bounds [of x] by (simp add: ints_nearest_def)
  have "float_of_int (sint v) = float_of_int (sint w) \<longleftrightarrow> v = w" if "\<bar>sint v\<bar> \<le> 2 ^ 53" "\<bar>sint w\<bar> \<le> 2 ^ 53"
  proof -
    have "sint v = sint w \<longleftrightarrow> v = w" by (metis of_int_sint scast_id)
    then show ?thesis using inj_onD [OF float_of_int_inj, of "sint v" "sint w"] that by (auto simp: abs_le_iff)
  qed
  moreover have "float_of_int (sint (9007199254740992 :: int64)) = float_of_int (sint (9007199254740993 :: int64))"
    by (simp add: float_of_int_def float_mag_big)
  ultimately show ?thesis unfolding parse json.inject by blast
qed

subsection \<open>Examples\<close>

text \<open>A parser that reads integers as Go does and nothing else.\<close>

definition int_parse :: "nat list \<Rightarrow> 64 word option" where
  "int_parse s =
     (let ds = (if s \<noteq> [] \<and> hd s = 45 then tl s else s); n = int (nat_of_digits 0 (chars ds))
      in if ds \<noteq> [] \<and> list_all digit_code ds then Some (float_of_int (if hd s = 45 then - n else n)) else None)"

definition int_env :: json_env where
  "int_env = \<lparr>je_float64 = (\<lambda>_. None), je_float32 = (\<lambda>_. None), je_other = (\<lambda>_. None), je_parse = int_parse\<rparr>"

lemma int_parse_text: "int_parse (int_text i) = Some (float_of_int i)"
proof -
  have "codes (nat_digits n) \<noteq> []" "hd (codes (nat_digits n)) \<noteq> 45" for n
    using valid_nat_text(3) [of n] by (auto simp: codes_def digit_code_def)
  then show ?thesis
    by (simp add: int_parse_def int_text_def int_digits_def codes_nat_digits nat_of_digits_inverse Let_def)
qed

definition demo_row :: "(string \<times> go_value) list" where
  "demo_row = [(''table'', VString ''t''), (''database'', VString ''db''), (''time'', VInt64 12),
     (''event'', VMap [(''data'', VMap [(''id'', VInt64 1), (''name'', VString ''a\"<''), (''raw'', VBytes [1, 2]), (''x'', VNil)])])]"

lemma demo_row_plain: "json_plain int_env (VMap demo_row)"
  by (simp add: demo_row_def int_ok_def int_env_def int_parse_text)


end
