(* ===== verification/Wire.thy ===== *)
theory Wire
  imports Program Json
begin

text \<open>
  Events on the wire, with the JSON codec of \<open>Json\<close> in place: from the handler of the leader
  (\<open>json.Marshal\<close> in \<open>binlog/handler.go\<close>) through the agent of a follower (\<open>json.Unmarshal\<close> in
  \<open>agent/server.go\<close>) to its subscribers, and to the callbacks of a client (\<open>client/tcp.go\<close>).
\<close>

subsection \<open>Names\<close>

definition utf8_string :: "string \<Rightarrow> bool" where
  "utf8_string s \<longleftrightarrow> valid_utf8 (codes s)"

lemma utf8_string_ascii: "ascii s \<Longrightarrow> utf8_string s"
  by (simp add: utf8_string_def valid_utf8_def ascii_def clean_ascii)

lemma as_string_decoded:
  assumes "json_Unmarshal je d = Some (json_map je data)" "distinct (map fst data)" "ascii k"
    and "as_string data k = Ret s"
  shows "\<exists>raw. go_Unmarshal je d = Some raw \<and> as_string raw k = Ret (chars (clean (codes s)))"
proof -
  have s: "map_of data k = Some (VString s)"
    using assms(4) by (auto simp: as_string_def split: option.splits go_value.splits)
  have "map_of (map (\<lambda>e. (fst e, json_go (snd e))) (json_map je data)) k = Some (VString (chars (clean (codes s))))"
    by (simp only: map_of_map_snd json_map_lookup [OF assms(2,3)] s option.map json_view.simps json_go.simps)
  then show ?thesis by (simp add: go_Unmarshal_def assms(1) as_string_def)
qed

text \<open>A codec that keeps names: the agent reads the database and table the handler wrote.\<close>

lemma names_survive:
  assumes "json_plain je (VMap data)" "json_Marshal je (VMap data) = Some d" "distinct (map fst data)"
    and "as_string data ''database'' = Ret db" "as_string data ''table'' = Ret tb" "utf8_string db" "utf8_string tb"
  shows "\<exists>raw. go_Unmarshal je d = Some raw \<and> as_string raw ''database'' = Ret db \<and> as_string raw ''table'' = Ret tb"
proof -
  have u: "json_Unmarshal je d = Some (json_map je data)"
    using json_Unmarshal_Marshal [OF assms(1)] assms(2) by auto
  have "ascii ''database''" "ascii ''table''" by (simp_all add: ascii_def)
  moreover have "chars (clean (codes s)) = s" if "utf8_string s" for s
    using that by (simp add: utf8_string_def valid_utf8_def)
  ultimately show ?thesis
    using as_string_decoded [OF u assms(3) _ assms(4)] as_string_decoded [OF u assms(3) _ assms(5)] assms(6,7) by auto
qed

text \<open>
  C7: An event the leader announces reaches the subscribers of every follower. The handler encodes
  the row, broadcasts one message for it; the agent of a follower, given that message, decodes it
  and queues the event at exactly its subscribers whose topics match the table, once each, framed as
  an event with the leader's bytes. The names of the database and the table have to be UTF-8.\<close>

theorem event_reaches_followers:
  assumes leader: "wired me a h" "notify (json_Marshal je) ord data h = Ret h'" "json_plain je (VMap data)"
      "distinct (map fst data)" "as_string data ''database'' = Ret db" "as_string data ''table'' = Ret tb"
      "utf8_string db" "utf8_string tb"
    and fits: "json_Marshal je (VMap data) = Some d" "frame_fits (AG_EVENT, d)"
    and follower: "wired me2 a2 v" "t = pg_sub (bl_world v)" "has_flag (ts_status t) serviceEnable"
      "ts_sendAll t = [groups_sendAll rx]" "sys_wf (ts_world t)"
      "\<forall>i \<in> set (groups_view (ss_groups (ts_world t))). MatchFilters rx (sn_topics (ss_nodes (ts_world t) i)) (db @ ''.'' @ tb) \<longrightarrow>
         length (sn_sendQueue (ss_nodes (ts_world t) i)) < tcpMaxSendQueue"
  shows "\<exists>m v'. an_broadcasts (pg_net (bl_world h')) = an_broadcasts (pg_net (bl_world h)) @ [(1, m)] \<and>
    onClientMessage (go_Unmarshal je) m a2 v = Ret v' \<and>
    (\<forall>i. sn_sendQueue (ss_nodes (ts_world (pg_sub (bl_world v'))) i) = sn_sendQueue (ss_nodes (ts_world t) i) @
      (if i \<in> set (groups_view (ss_groups (ts_world t))) \<and> MatchFilters rx (sn_topics (ss_nodes (ts_world t) i)) (db @ ''.'' @ tb)
       then [Pack CMD_EVENT d] else []))"
proof -
  obtain raw where raw: "go_Unmarshal je d = Some raw" "as_string raw ''database'' = Ret db" "as_string raw ''table'' = Ret tb"
    using names_survive [OF leader(3) fits(1) leader(4-8)] by blast
  show ?thesis
    by (rule event_follows [where um = "go_Unmarshal je", OF leader(1,2) fits(1) leader(5,6) raw fits(2) follower])
qed

definition demo_event :: "(string \<times> go_value) list" where
  "demo_event = [(''database'', VString ''db''), (''table'', VString ''t'')]"

lemma demo_event_text:
  "json_enc int_env (VMap demo_event) = Some (codes ''{\"database\":\"db\",\"table\":\"t\"}'')"
  by code_simp

lemma demo_event_marshal:
  "json_Marshal int_env (VMap demo_event) = Some (bytes_of ''{\"database\":\"db\",\"table\":\"t\"}'')"
  unfolding json_Marshal_def demo_event_text by (simp add: bytes_of_def)

theorem event_reaches_followers_witness:
  "\<exists>fs a h h' m v'. demo_build True = Ret (fs, a, h) \<and>
     notify (json_Marshal int_env) (\<lambda>_. []) demo_event h = Ret h' \<and>
     onClientMessage (go_Unmarshal int_env) m a (h\<lparr>bl_world := (bl_world h)\<lparr>pg_sub := demo_follower_sub\<rparr>\<rparr>) = Ret v' \<and>
     sn_sendQueue (ss_nodes (ts_world (pg_sub (bl_world v'))) 0) =
       [Pack CMD_EVENT (bytes_of ''{\"database\":\"db\",\"table\":\"t\"}'')]"
proof -
  let ?d = "bytes_of ''{\"database\":\"db\",\"table\":\"t\"}''"
  obtain fs a h where b: "demo_build True = Ret (fs, a, h)" using demo_build_returns by blast
  let ?v = "h\<lparr>bl_world := (bl_world h)\<lparr>pg_sub := demo_follower_sub\<rparr>\<rparr>"
  have w: "wired (demo_me True) a h" by (rule demo_wired [OF b])
  then have v: "wired (demo_me True) a ?v" by (simp add: wired_def)
  note d = demo_event_marshal
  have names: "as_string demo_event ''database'' = Ret ''db''" "as_string demo_event ''table'' = Ret ''t''"
    by (simp_all add: demo_event_def as_string_def)
  from w have "\<exists>h'. notify (json_Marshal int_env) (\<lambda>_. []) demo_event h = Ret h'"
    by (simp add: notify_def d names notify_services_def wired_def sync_event_def)
  then obtain h' where h': "notify (json_Marshal int_env) (\<lambda>_. []) demo_event h = Ret h'" by blast
  have plain: "json_plain int_env (VMap demo_event)" "distinct (map fst demo_event)" by (simp_all add: demo_event_def)
  have utf: "utf8_string ''db''" "utf8_string ''t''" by (simp_all add: utf8_string_ascii ascii_def)
  have fits: "frame_fits (AG_EVENT, ?d)" by (simp add: frame_fits_def AG_EVENT_def)
  obtain m v' where "onClientMessage (go_Unmarshal int_env) m a ?v = Ret v'"
    "sn_sendQueue (ss_nodes (ts_world (pg_sub (bl_world v'))) 0) = [Pack CMD_EVENT ?d]"
    using event_reaches_followers [OF w h' plain names utf d fits v refl, of "\<lambda>_ _. Some True"] demo_follower_facts
    by (auto simp: MatchFilters_def tcpMaxSendQueue_def)
  with b h' show ?thesis by blast
qed

subsection \<open>Every row can be encoded\<close>

text \<open>
  What is relied on of \<open>strconv.ParseFloat\<close>: every 64-bit integer is in the range of \<open>float64\<close>.
\<close>

definition ints_parse :: "json_env \<Rightarrow> bool" where
  "ints_parse je \<longleftrightarrow> (\<forall>i. - (2 ^ 63) \<le> i \<longrightarrow> i < 2 ^ 64 \<longrightarrow> je_parse je (int_text i) \<noteq> None)"

lemma ints_parse_words:
  assumes "ints_parse je"
  shows "int_ok je (sint (w :: int64))" "int_ok je (uint (w :: int64))"
proof -
  have "uint w < 2 ^ 64" using unsigned_less [of w, where 'a = int] by simp
  moreover have "- (2 ^ 63) \<le> uint w" by (rule order_trans [OF _ uint_ge_0]) simp
  ultimately show "int_ok je (uint w)" using assms by (simp add: ints_parse_def int_ok_def)
  show "int_ok je (sint w)" using assms sint_bounds [of w] by (simp add: ints_parse_def int_ok_def)
qed

text \<open>The value of a column is of a type the encoder has.\<close>

lemma fieldDecode_plain:
  assumes "ints_parse je" "json_plain je v" "fieldDecode v col = Ret v'"
  shows "json_plain je v'"
  using assms(2,3)
  by (cases v) (auto simp: fieldDecode_def Let_def ints_parse_words [OF assms(1)] simp del: json_plain.simps(17) split: if_splits)

lemma map_set_plain:
  "json_plain je (VMap m) \<Longrightarrow> json_plain je v \<Longrightarrow> json_plain je (VMap (map_set k v m))"
  by (induction m) (auto simp: map_set_def)

lemma decode_row_plain:
  assumes "ints_parse je" "list_all (json_plain je) row"
  shows "json_plain je (VMap m) \<Longrightarrow> decode_row k cols row m = Ret m' \<Longrightarrow> json_plain je (VMap m')"
proof (induction cols arbitrary: k m)
  case (Cons col cols)
  from Cons.prems(2) obtain v where v: "(if k < length row then fieldDecode (row ! k) col else Ret VNil) = Ret v"
    and r: "decode_row (Suc k) cols row (map_set (tc_ColName col) v m) = Ret m'" by auto
  have "json_plain je v"
    using v fieldDecode_plain [OF assms(1), of "row ! k" col v] assms(2) by (auto simp: list_all_length split: if_splits)
  from Cons.IH [OF map_set_plain [OF Cons.prems(1) this] r] show ?case .
qed simp

definition cells_plain :: "json_env \<Rightarrow> rows_event \<Rightarrow> bool" where
  "cells_plain je e \<longleftrightarrow> list_all (list_all (json_plain je)) (re_Rows e)"

lemma events_data_plain:
  assumes "ints_parse je" "cells_plain je e" "events_data e = Ret ds" "d \<in> set ds"
  shows "json_plain je (VMap d)"
proof -
  have nil: "json_plain je (VMap [])" by simp
  have one: "decode_row 0 cols row [] = Ret m \<Longrightarrow> list_all (json_plain je) row \<Longrightarrow> json_plain je (VMap m)" for cols row m
    using decode_row_plain [OF assms(1) _ nil] by blast
  have rows: "rows_data cols rows = Ret ds \<Longrightarrow> list_all (list_all (json_plain je)) rows \<Longrightarrow> d \<in> set ds \<Longrightarrow> json_plain je (VMap d)"
    for cols rows and ds
    by (induction rows arbitrary: ds) (auto dest: one simp del: json_plain.simps(17))
  have pairs: "pairs_data cols rows = Ret ds \<Longrightarrow> list_all (list_all (json_plain je)) rows \<Longrightarrow> d \<in> set ds \<Longrightarrow> json_plain je (VMap d)"
    for cols rows and ds
  proof (induction cols rows arbitrary: ds rule: pairs_data.induct)
    case (3 cols old new rows)
    from "3.prems"(1) obtain p q es where dec: "decode_row 0 cols old [] = Ret p" "decode_row 0 cols new [] = Ret q"
      and es: "pairs_data cols rows = Ret es" "ds = [(''old_data'', VMap p), (''new_data'', VMap q)] # es" by auto
    have "json_plain je (VMap p)" "json_plain je (VMap q)" using dec "3.prems"(2) one by auto
    then have "json_plain je (VMap [(''old_data'', VMap p), (''new_data'', VMap q)])"
      by (simp add: json_plain.simps(17) [of je "[(''old_data'', VMap p), (''new_data'', VMap q)]"] del: json_plain.simps(17))
    with "3.IH" [OF dec es(1)] "3.prems"(2,3) es show ?case by auto
  qed auto
  show ?thesis using assms rows pairs by (auto simp: events_data_def cells_plain_def split: if_splits)
qed


definition demo_rows_event :: rows_event where
  "demo_rows_event =
     \<lparr>re_Schema = ''db'', re_Table = ''t'',
      re_Columns = [\<lparr>tc_ColName = ''id'', tc_RawType = ''bigint unsigned'', tc_IsUnsigned = True, tc_EnumValues = [], tc_SetValues = []\<rparr>],
      re_Action = ''insert'', re_Rows = [[VInt64 (- 1)]]\<rparr>"

lemma int_env_parses: "ints_parse int_env"
  by (simp add: ints_parse_def int_env_def int_parse_text)

lemma demo_rows_data: "events_data demo_rows_event = Ret [[(''id'', VUint64 (- 1))]]"
  by (simp add: events_data_def demo_rows_event_def fieldDecode_def map_set_def)


subsection \<open>Large integers\<close>

lemma json_map_single: "json_map je [(k, v)] = [(chars (clean (codes k)), json_view je v)]"
  by (simp add: json_map_def key_sort_def)

lemma row_event_view:
  "json_map je (row_event now e i d) = json_map je (row_event now e i d') \<longleftrightarrow> json_map je d = json_map je d'"
proof
  assume eq: "json_map je (row_event now e i d) = json_map je (row_event now e i d')"
  have "map_of (json_map je (row_event now e i x)) ''event'' = Some (JObject (json_map je [(''data'', VMap x)]))" for x
    by (subst json_map_lookup) (simp_all add: row_event_def row_base_def ascii_def)
  from this [of d] this [of d'] eq have "json_map je [(''data'', VMap d)] = json_map je [(''data'', VMap d')]" by simp
  then show "json_map je d = json_map je d'" by (simp add: json_map_single)
next
  assume "json_map je d = json_map je d'"
  then have "view_of je (k, VMap [(''data'', VMap d)]) = view_of je (k, VMap [(''data'', VMap d')])" for k
    by (simp add: json_map_single)
  then show "json_map je (row_event now e i d) = json_map je (row_event now e i d')"
    by (simp add: json_map_def row_event_def row_base_def key_sort_def)
qed

text \<open>What a client of the event makes of it: the handler encodes, the client decodes.\<close>

definition received :: "json_env \<Rightarrow> (string \<times> go_value) list \<Rightarrow> (string \<times> json) list option" where
  "received je ev = (case json_Marshal je (VMap ev) of None \<Rightarrow> None | Some b \<Rightarrow> json_Unmarshal je b)"

lemma received_plain: "json_plain je (VMap ev) \<Longrightarrow> received je ev = Some (json_map je ev)"
  using json_Unmarshal_Marshal [of je ev] by (auto simp: received_def)

lemma ints_nearest_parse: "ints_nearest je \<Longrightarrow> ints_parse je"
  by (simp add: ints_nearest_def ints_parse_def)

lemma received_bigint:
  "ints_nearest je \<Longrightarrow> received je (row_event now e i [(c, VInt64 v)]) = Some (json_map je (row_event now e i [(c, VInt64 v)]))"
  by (rule received_plain) (simp add: row_event_def row_base_def ints_parse_words [OF ints_nearest_parse])



end
