(* ===== verification/Fan_Out.thy ===== *)
theory Fan_Out
  imports Program
begin

text \<open>
  One event through the whole process: the handler of a process built by \<open>main\<close> announces it to the
  four services, in whatever order Go ranges over their map, and broadcasts it to the cluster. Each
  service acts on its own part of the world only.
\<close>

text \<open>What the services of a world take of the next event.\<close>

definition all_ready :: "main_env \<Rightarrow> string \<Rightarrow> nat \<Rightarrow> string \<Rightarrow> 'c program \<Rightarrow> bool" where
  "all_ready me k i table w \<longleftrightarrow>
     http_room (me_ord me) k i (pg_http w) 1 \<and> redis_ready (pg_redis w) \<and> kafka_ready (pg_kafka w) \<and>
     has_flag (ts_status (pg_sub w)) serviceEnable \<and> ts_sendAll (pg_sub w) = [groups_sendAll (me_rx me)] \<and>
     sys_wf (ts_world (pg_sub w)) \<and>
     (\<forall>j \<in> set (groups_view (ss_groups (ts_world (pg_sub w)))).
        MatchFilters (me_rx me) (sn_topics (ss_nodes (ts_world (pg_sub w)) j)) table \<longrightarrow>
        length (sn_sendQueue (ss_nodes (ts_world (pg_sub w)) j)) < tcpMaxSendQueue)"

text \<open>
  The world after the services with names in \<open>S\<close> were called: theirs have taken the event if their
  filter passes it, the others are as they were.
\<close>

definition fanned ::
    "main_env \<Rightarrow> string \<Rightarrow> nat \<Rightarrow> string \<Rightarrow> bytes \<Rightarrow> 'c program \<Rightarrow> string set \<Rightarrow> 'c program \<Rightarrow> bool" where
  "fanned me k i table d w S w' \<longleftrightarrow>
     (if http_Name \<in> S
      then http_queue k i (pg_http w') = http_queue k i (pg_http w) @ (if http_passes (me_rx me) k (pg_http w) table then [d] else [])
      else pg_http w' = pg_http w) \<and>
     (if redis_Name \<in> S
      then rd_pushes (pg_redis w') = rd_pushes (pg_redis w) @
        (if redis_passes (me_rx me) (pg_redis w) table then [redis_msg (pg_redis w) table d] else [])
      else pg_redis w' = pg_redis w) \<and>
     (if kafka_Name \<in> S
      then ka_out (pg_kafka w') = ka_out (pg_kafka w) @
        (if MatchFilters (me_rx me) (ka_filter (pg_kafka w)) table then [kafka_msg (pg_kafka w) table d] else [])
      else pg_kafka w' = pg_kafka w) \<and>
     (if tcp_Name \<in> S
      then \<forall>j. sn_sendQueue (ss_nodes (ts_world (pg_sub w')) j) = sn_sendQueue (ss_nodes (ts_world (pg_sub w)) j) @
        (if j \<in> set (groups_view (ss_groups (ts_world (pg_sub w)))) \<and>
            MatchFilters (me_rx me) (sn_topics (ss_nodes (ts_world (pg_sub w)) j)) table
         then [Pack CMD_EVENT d] else [])
      else pg_sub w' = pg_sub w)"

lemmas service_names = http_Name_def redis_Name_def kafka_Name_def tcp_Name_def

lemma fanned_none: "fanned me k i table d w {} w"
  by (simp add: fanned_def)

lemma fan_http:
  assumes "all_ready me k i table w" "fanned me k i table d w S w'" "http_Name \<notin> S"
  shows "\<exists>w'' b. si_SendAll (http_if me) table d w' = Ret (w'', b) \<and> fanned me k i table d w (insert http_Name S) w''"
proof -
  have same: "pg_http w' = pg_http w" using assms(2,3) by (simp add: fanned_def)
  from assms(1) http_sink.sends [of "me_ord me" k i "pg_http w" 0 "me_rx me" table d]
  obtain s b where "http_SendAll (me_rx me) (me_ord me) table d (pg_http w) = Ret (s, b)"
    "http_queue k i s = http_queue k i (pg_http w) @ (if http_passes (me_rx me) k (pg_http w) table then [d] else [])"
    by (auto simp: all_ready_def)
  with assms(2) same show ?thesis by (simp add: http_if_def fanned_def service_names)
qed

lemma fan_redis:
  assumes "all_ready me k i table w" "fanned me k i table d w S w'" "redis_Name \<notin> S"
  shows "\<exists>w'' b. si_SendAll (redis_if me) table d w' = Ret (w'', b) \<and> fanned me k i table d w (insert redis_Name S) w''"
proof -
  have same: "pg_redis w' = pg_redis w" using assms(2,3) by (simp add: fanned_def)
  from assms(1) redis_sink.sends [of "pg_redis w" "me_rx me" table d]
  obtain s b where "redis_SendAll (me_rx me) table d (pg_redis w) = Ret (s, b)"
    "rd_pushes s = rd_pushes (pg_redis w) @ (if redis_passes (me_rx me) (pg_redis w) table then [redis_msg (pg_redis w) table d] else [])"
    by (auto simp: all_ready_def)
  with assms(2) same show ?thesis by (simp add: redis_if_def fanned_def service_names)
qed

lemma fan_kafka:
  assumes "all_ready me k i table w" "fanned me k i table d w S w'" "kafka_Name \<notin> S"
  shows "\<exists>w'' b. si_SendAll (kafka_if me) table d w' = Ret (w'', b) \<and> fanned me k i table d w (insert kafka_Name S) w''"
proof -
  have same: "pg_kafka w' = pg_kafka w" using assms(2,3) by (simp add: fanned_def)
  from assms(1) kafka_sink.sends [of "pg_kafka w" "me_rx me" table d]
  obtain s b where "kafka_SendAll (me_rx me) table d (pg_kafka w) = Ret (s, b)"
    "ka_out s = ka_out (pg_kafka w) @ (if MatchFilters (me_rx me) (ka_filter (pg_kafka w)) table then [kafka_msg (pg_kafka w) table d] else [])"
    by (auto simp: all_ready_def)
  with assms(2) same show ?thesis by (simp add: kafka_if_def fanned_def service_names)
qed

lemma fan_sub:
  assumes "all_ready me k i table w" "fanned me k i table d w S w'" "tcp_Name \<notin> S"
  shows "\<exists>w'' b. si_SendAll (sub_if me) table d w' = Ret (w'', b) \<and> fanned me k i table d w (insert tcp_Name S) w''"
proof -
  have same: "pg_sub w' = pg_sub w" using assms(2,3) by (simp add: fanned_def)
  from assms(1) sendAll_delivers [of "ts_world (pg_sub w)" "me_rx me" table "Pack CMD_EVENT d"]
  obtain s where "groups_sendAll (me_rx me) table (Pack CMD_EVENT d) (ts_world (pg_sub w)) = Ret s"
    "\<forall>j. sn_sendQueue (ss_nodes s j) = sn_sendQueue (ss_nodes (ts_world (pg_sub w)) j) @
      (if j \<in> set (groups_view (ss_groups (ts_world (pg_sub w)))) \<and>
          MatchFilters (me_rx me) (sn_topics (ss_nodes (ts_world (pg_sub w)) j)) table then [Pack CMD_EVENT d] else [])"
    by (auto simp: all_ready_def)
  with assms(1,2) same show ?thesis by (auto simp: sub_if_def tcp_SendAll_def all_ready_def fanned_def service_names)
qed

lemma fan_step:
  assumes "wired me a h" "all_ready me k i table w" "fanned me k i table d w S w'" "n \<notin> S"
    and "n \<in> {http_Name, redis_Name, kafka_Name, tcp_Name}"
  shows "\<exists>s w'' b. bl_services h n = Some s \<and> si_SendAll s table d w' = Ret (w'', b) \<and> fanned me k i table d w (insert n S) w''"
proof -
  have services: "bl_services h = [http_Name \<mapsto> http_if me, redis_Name \<mapsto> redis_if me, kafka_Name \<mapsto> kafka_if me, tcp_Name \<mapsto> sub_if me]"
    using assms(1) by (simp add: wired_def)
  from assms(5) consider "n = http_Name" | "n = redis_Name" | "n = kafka_Name" | "n = tcp_Name" by blast
  then show ?thesis
  proof cases
    case 1
    then show ?thesis using fan_http [OF assms(2,3)] assms(4) by (simp add: services service_names)
  next
    case 2
    then show ?thesis using fan_redis [OF assms(2,3)] assms(4) by (simp add: services service_names)
  next
    case 3
    then show ?thesis using fan_kafka [OF assms(2,3)] assms(4) by (simp add: services service_names)
  next
    case 4
    then show ?thesis using fan_sub [OF assms(2,3)] assms(4) by (simp add: services service_names)
  qed
qed

lemma fan_run:
  assumes "wired me a h" "all_ready me k i table w"
  shows "fanned me k i table d w S w' \<Longrightarrow> distinct names \<Longrightarrow> set names \<inter> S = {} \<Longrightarrow>
    set names \<subseteq> {http_Name, redis_Name, kafka_Name, tcp_Name} \<Longrightarrow>
    \<exists>w''. go_foldM (\<lambda>w name. case bl_services h name of None \<Rightarrow> Ret w
         | Some s \<Rightarrow> go_bind (si_SendAll s table d w) (\<lambda>(w', _). Ret w')) w' names = Ret w'' \<and>
      fanned me k i table d w (S \<union> set names) w''"
proof (induction names arbitrary: S w')
  case Nil
  then show ?case by simp
next
  case (Cons n names)
  from fan_step [OF assms Cons.prems(1), of n] Cons.prems(3,4)
  obtain s w1 b where w1: "bl_services h n = Some s" "si_SendAll s table d w' = Ret (w1, b)"
    "fanned me k i table d w (insert n S) w1" by auto
  from Cons.IH [OF w1(3)] Cons.prems(2-4) show ?case by (simp add: w1)
qed

text \<open>
  C1: One event through the whole process. When the four services that \<open>main\<close> registers are ready,
  \<open>notify\<close> returns, in whatever order Go ranges over the map of services, and after it every http
  node of a group, redis, kafka and every subscriber hold the event once more exactly if their own
  filter or topics pass the table; and one message for it was broadcast to the cluster.\<close>

theorem event_fans_out:
  assumes "wired me a h" and "all_ready me k i (db @ ''.'' @ tb) (bl_world h)"
    and "json (VMap data) = Some d" and "as_string data ''database'' = Ret db" and "as_string data ''table'' = Ret tb"
    and "distinct (ord (VMap data))" and "set (ord (VMap data)) = {http_Name, redis_Name, kafka_Name, tcp_Name}"
  shows "\<exists>h'. notify json ord data h = Ret h' \<and>
    fanned me k i (db @ ''.'' @ tb) d (bl_world h) {http_Name, redis_Name, kafka_Name, tcp_Name} (bl_world h') \<and>
    an_broadcasts (pg_net (bl_world h')) = an_broadcasts (pg_net (bl_world h)) @ [(1, Pack AG_EVENT d)]"
proof -
  let ?t = "db @ ''.'' @ tb"
  have "\<exists>w. notify_services (ord (VMap data)) ?t d h = Ret w \<and>
    fanned me k i ?t d (bl_world h) {http_Name, redis_Name, kafka_Name, tcp_Name} w"
    using fan_run [OF assms(1,2) fanned_none assms(6), of d] unfolding assms(7) notify_services_def Int_empty_right Un_empty_left
    by blast
  then obtain w where w: "notify_services (ord (VMap data)) ?t d h = Ret w"
    "fanned me k i ?t d (bl_world h) {http_Name, redis_Name, kafka_Name, tcp_Name} w" by blast
  have n: "notify json ord data h = Ret (h\<lparr>bl_world := w\<lparr>pg_net := ag_Sync True (Pack AG_EVENT d) (pg_net w)\<rparr>\<rparr>)"
    using assms(1,3-5) w(1) by (simp add: notify_def wired_def sync_event_def)
  have "pg_net w = pg_net (bl_world h)" by (rule notify_services_net [OF assms(1) w(1)])
  with n w(2) show ?thesis by (simp add: fanned_def ag_Sync_def)
qed

subsection \<open>Example\<close>

definition demo_fan_me :: main_env where
  "demo_fan_me = (demo_me True)\<lparr>me_rx := (\<lambda>_ _. Some True), me_ord := [''g1'']\<rparr>"

lemma demo_fan_http: "http_room [''g1''] ''g1'' 1 demo_http 1"
  by (auto simp: http_room_def demo_http_def demo_http_groups group_room_def newHttpNode_def httpMaxSendQueue_def)

theorem event_fans_out_witness:
  "\<exists>(h :: unit program binlog) h'. notify (\<lambda>_. Some [1, 2]) (\<lambda>_. [kafka_Name, http_Name, tcp_Name, redis_Name])
       [(''database'', VString ''db''), (''table'', VString ''t'')] h = Ret h' \<and>
     http_queue ''g1'' 1 (pg_http (bl_world h')) = [[1, 2]] \<and>
     sn_sendQueue (ss_nodes (ts_world (pg_sub (bl_world h'))) 0) = [Pack CMD_EVENT [1, 2]]"
proof -
  let ?me = demo_fan_me and ?data = "[(''database'', VString ''db''), (''table'', VString ''t'')]"
  let ?names = "[kafka_Name, http_Name, tcp_Name, redis_Name]"
  obtain fs a h0 where b: "demo_build True = Ret (fs, a, h0 :: unit program binlog)" using demo_build_returns by blast
  obtain kf where kf: "kafka_ready kf" using demo_kafka by blast
  let ?w = "(bl_world h0)\<lparr>pg_http := demo_http, pg_redis := NewRedis (Inr demo_redis_config), pg_kafka := kf, pg_sub := demo_follower_sub\<rparr>"
  let ?h = "h0\<lparr>bl_world := ?w, bl_services := [http_Name \<mapsto> http_if ?me, redis_Name \<mapsto> redis_if ?me, kafka_Name \<mapsto> kafka_if ?me,
      tcp_Name \<mapsto> sub_if ?me]\<rparr>"
  have w: "wired ?me a ?h" using demo_wired [OF b] by (simp add: wired_def)
  have ready: "all_ready ?me ''g1'' 1 (''db'' @ ''.'' @ ''t'') (bl_world ?h)"
    using demo_fan_http demo_redis_ready kf demo_follower_facts
    by (simp add: all_ready_def demo_fan_me_def tcpMaxSendQueue_def)
  have names: "as_string ?data ''database'' = Ret ''db''" "as_string ?data ''table'' = Ret ''t''"
    by (simp_all add: as_string_def)
  obtain h' where "notify (\<lambda>_. Some [1, 2]) (\<lambda>_. ?names) ?data ?h = Ret h'"
    "fanned ?me ''g1'' 1 (''db'' @ ''.'' @ ''t'') [1, 2] (bl_world ?h) {http_Name, redis_Name, kafka_Name, tcp_Name} (bl_world h')"
    using event_fans_out [OF w ready _ names, of "\<lambda>_. Some [1, 2]" "[1, 2]" "\<lambda>_. ?names"] by (auto simp: service_names)
  then show ?thesis
    using demo_follower_facts
    by (intro exI [of _ ?h] exI [of _ h'])
      (simp add: fanned_def demo_fan_me_def http_passes_def http_queue_def http_group_of_def demo_http_def demo_http_groups
        newHttpNode_def MatchFilters_def)
qed

end
