(* ===== verification/Daemon.thy ===== *)
theory Daemon
  imports Program
begin

text \<open>
  The start as a daemon (\<open>app.DaemonProcess\<close> and \<open>main\<close>). The parent has run \<open>Init\<close>, which wrote the pid
  file, and started the child; what is left of it is the deferred \<open>Release\<close>, which deletes that file.
  The child runs \<open>main\<close> from the beginning, with the arguments of \<open>DaemonProcess\<close>, on the same file
  system. The two run side by side.
\<close>

datatype parent_pc = ParentReturning | ParentGone

datatype child_pc = ChildStarting | ChildExited | ChildServing | ChildFailed

record daemon_start =
  ds_parent :: parent_pc
  ds_child :: child_pc
  ds_fs :: file_system

text \<open>The flags the child parses from its arguments.\<close>

definition child_flags :: "string \<Rightarrow> cmd_flags" where
  "child_flags configPath =
     \<lparr>cf_version = False, cf_v = False, cf_stop = False, cf_reload = '''', cf_help = False, cf_members = False,
      cf_daemon = True, cf_d = False, cf_configPath = configPath\<rparr>"

inductive daemon_step :: "(file_system \<Rightarrow> main_start go) \<Rightarrow> app_env \<Rightarrow> daemon_start \<Rightarrow> daemon_start \<Rightarrow> bool"
  for child :: "file_system \<Rightarrow> main_start go" and env :: app_env where
  Release: "ds_parent s = ParentReturning \<Longrightarrow>
     daemon_step child env s (s\<lparr>ds_parent := ParentGone, ds_fs := main_return env (ds_fs s)\<rparr>)"
| Refused: "ds_child s = ChildStarting \<Longrightarrow> child (ds_fs s) = Ret (OtherProcess fs') \<Longrightarrow>
     daemon_step child env s (s\<lparr>ds_child := ChildExited, ds_fs := fs'\<rparr>)"
| Serves: "ds_child s = ChildStarting \<Longrightarrow> child (ds_fs s) = Ret (Serve e fs' ctx) \<Longrightarrow>
     daemon_step child env s (s\<lparr>ds_child := ChildServing, ds_fs := fs'\<rparr>)"
| Fails: "ds_child s = ChildStarting \<Longrightarrow> child (ds_fs s) = Ret (DaemonFails fs') \<Longrightarrow>
     daemon_step child env s (s\<lparr>ds_child := ChildFailed, ds_fs := fs'\<rparr>)"

inductive_cases daemon_stepE: "daemon_step child env s s'"

definition spawned :: "file_system \<Rightarrow> daemon_start" where
  "spawned fs = \<lparr>ds_parent = ParentReturning, ds_child = ChildStarting, ds_fs = fs\<rparr>"

text \<open>A run ends with the parent gone and the child past its start.\<close>

definition settled :: "daemon_start \<Rightarrow> bool" where
  "settled s \<longleftrightarrow> ds_parent s = ParentGone \<and> ds_child s \<noteq> ChildStarting"

text \<open>Both orders of the two remaining steps, and nothing else, are possible.\<close>

lemma daemon_outcomes:
  assumes "(daemon_step child env)\<^sup>*\<^sup>* s s'" and "s = spawned fs" and "settled s'"
  shows "(\<exists>m. daemon_step child env s m \<and> ds_parent m = ParentGone \<and> daemon_step child env m s') \<or>
         (\<exists>m. daemon_step child env s m \<and> ds_parent m = ParentReturning \<and> ds_child m \<noteq> ChildStarting \<and> daemon_step child env m s')"
proof -
  define P where "P u \<longleftrightarrow> u = s \<or>
      daemon_step child env s u \<and> (ds_parent u = ParentGone) \<noteq> (ds_child u \<noteq> ChildStarting) \<or>
      settled u \<and> (\<exists>m. daemon_step child env s m \<and> daemon_step child env m u \<and>
         (ds_parent m = ParentGone) \<noteq> (ds_child m \<noteq> ChildStarting))" for u
  have start: "ds_parent s = ParentReturning" "ds_child s = ChildStarting" using assms(2) by (simp_all add: spawned_def)
  have pres: "P v" if "P u" and step: "daemon_step child env u v" for u v
  proof -
    from step have eff: "ds_parent u = ParentReturning \<and> ds_parent v = ParentGone \<and> ds_child v = ds_child u \<or>
        ds_child u = ChildStarting \<and> ds_child v \<noteq> ChildStarting \<and> ds_parent v = ds_parent u"
      by (cases rule: daemon_step.cases) auto
    show ?thesis
    proof (cases "u = s")
      case True
      with eff start step show ?thesis by (auto simp: P_def)
    next
      case False
      with \<open>P u\<close> eff have mid: "daemon_step child env s u" "(ds_parent u = ParentGone) \<noteq> (ds_child u \<noteq> ChildStarting)"
        by (auto simp: P_def settled_def)
      with eff have "settled v" by (cases "ds_parent u") (auto simp: settled_def)
      with mid step show ?thesis by (auto simp: P_def)
    qed
  qed
  have "P s'" using assms(1) by (induction rule: rtranclp_induct) (auto simp: P_def [of s] intro: pres)
  with assms(3) start show ?thesis
    by (auto simp: P_def settled_def) (metis parent_pc.exhaust)+
qed

text \<open>
  C36: A start with \<open>-d\<close> can end with no process at all: the pid file the parent's own \<open>Init\<close> wrote is
  deleted only when the parent returns, and a child that reads it before takes it for another
  instance and exits. Whether the daemon comes up is a race between the two processes.\<close>

theorem daemon_start_race:
  assumes "main_begin adec mdec pid dial reply Reborn arg CurrentPath f env fs = Ret (DaemonParent e fs1 ctx)"
    and "os_Stat fs1 (ev_Pid e) = Some (FFile d)"
    and "getAppConfig adec (configPathParse fs1 (ev_ConfigPath e) env) fs1 = Ret (fs2, Inr c)" and "ac_PidFile c = ev_Pid e"
  shows "\<exists>s. (daemon_step (main_begin adec mdec pid' dial reply (\<lambda>_. RebornChild) arg CurrentPath
            (child_flags (ev_ConfigPath e)) env) e)\<^sup>*\<^sup>* (spawned fs1) s \<and>
     settled s \<and> ds_child s = ChildExited"
proof -
  let ?child = "main_begin adec mdec pid' dial reply (\<lambda>_. RebornChild) arg CurrentPath (child_flags (ev_ConfigPath e)) env"
  have "\<not> isCmd (child_flags (ev_ConfigPath e))" by (simp add: isCmd_def child_flags_def)
  moreover have "cf_configPath (child_flags (ev_ConfigPath e)) = ev_ConfigPath e" by (simp add: child_flags_def)
  ultimately have refused: "?child fs1 = Ret (OtherProcess fs2)"
    using main_refused [of "child_flags (ev_ConfigPath e)"] assms(2-4) by metis
  let ?m = "(spawned fs1)\<lparr>ds_child := ChildExited, ds_fs := fs2\<rparr>"
  have m: "daemon_step ?child e (spawned fs1) ?m"
    by (rule daemon_step.Refused) (simp_all add: spawned_def refused)
  have r: "daemon_step ?child e ?m (?m\<lparr>ds_parent := ParentGone, ds_fs := main_return e (ds_fs ?m)\<rparr>)"
    by (rule daemon_step.Release) (simp add: spawned_def)
  from converse_rtranclp_into_rtranclp [where r = "daemon_step ?child e", OF m r_into_rtranclp [where r = "daemon_step ?child e", OF r]]
  show ?thesis by (intro exI conjI) (assumption, simp_all add: settled_def)
qed

text \<open>
  When \<open>Reborn\<close> fails, \<open>log.Fatal\<close> ends the process before the deferred \<open>Release\<close>: the pid file stays and
  every later start is refused.
\<close>

theorem daemon_failure_leaves_pid:
  assumes "main_begin adec mdec pid dial reply Reborn arg CurrentPath f env fs = Ret (DaemonFails fs1)"
    and "getAppConfig adec (configPathParse fs1 (cf_configPath g) env) fs1 = Ret (fs2, Inr c)"
    and "os_Stat fs1 (ac_PidFile c) = Some (FFile d)" and "\<not> isCmd g"
  shows "main_begin adec mdec pid' dial reply Reborn' arg CurrentPath g env fs1 = Ret (OtherProcess fs2) \<and>
    file_Exists fs2 (ac_PidFile c)"
  using main_refused [OF assms(4,2,3)] assms(3) by (simp add: file_Exists_def)

subsection \<open>Example\<close>

definition demo_daemon_flags :: cmd_flags where
  "demo_daemon_flags = child_flags ''''"

lemma demo_pid: "ev_Pid demo_env = ''/p''"
  by (simp add: demo_env_def)

lemma demo_e: "configPathParse (demo_run_fs pid) ''/e'' demo_env = demo_env"
proof -
  have "os_Stat (demo_run_fs pid) ''/e'' = Some FDir"
    by (simp add: os_Stat_def fs_node_def resolve_def demo_run_fs_def)
  then show ?thesis
    by (simp add: configPathParse_def pathParse_def path_Exists_def to_slash_def demo_env_def)
qed

lemma demo_parent:
  "\<exists>ctx. main_begin (\<lambda>_. Some demo_app_config) (\<lambda>_. None) 17 (\<lambda>_. None) [] (\<lambda>_. RebornParent) ''x'' '''' demo_daemon_flags demo_env
     (demo_run_fs None) = Ret (DaemonParent demo_env (demo_run_fs (Some (bytes_of (nat_digits 17)))) ctx)"
  by (simp add: main_begin_def app_Init_def demo_daemon_flags_def child_flags_def isCmd_def demo_configPath demo_getAppConfig
      demo_loaded_paths demo_pid_stat file_Exists_def demo_pid_write demo_pid NewContext_def DaemonProcess_def Let_def)

theorem daemon_start_race_witness:
  "\<exists>s. (daemon_step (main_begin (\<lambda>_. Some demo_app_config) (\<lambda>_. None) 18 (\<lambda>_. None) [] (\<lambda>_. RebornChild) ''x'' ''''
        (child_flags ''/e'') demo_env) demo_env)\<^sup>*\<^sup>* (spawned (demo_run_fs (Some (bytes_of (nat_digits 17))))) s \<and>
     settled s \<and> ds_child s = ChildExited"
proof -
  have env: "ev_Pid demo_env = ''/p''" "ev_ConfigPath demo_env = ''/e''" by (simp_all add: demo_env_def)
  from demo_parent obtain ctx where p: "main_begin (\<lambda>_. Some demo_app_config) (\<lambda>_. None) 17 (\<lambda>_. None) [] (\<lambda>_. RebornParent)
      ''x'' '''' demo_daemon_flags demo_env (demo_run_fs None)
      = Ret (DaemonParent demo_env (demo_run_fs (Some (bytes_of (nat_digits 17)))) ctx)" by blast
  from daemon_start_race [OF p, where pid' = 18] show ?thesis
    by (simp add: env demo_pid_stat demo_e demo_getAppConfig demo_loaded_paths)
qed

text \<open>In the other order the child serves.\<close>

lemma demo_daemon_serves:
  "\<exists>s. (daemon_step (main_begin (\<lambda>_. Some demo_app_config) (\<lambda>_. None) 18 (\<lambda>_. None) [] (\<lambda>_. RebornChild) ''x'' ''''
        (child_flags ''/e'') demo_env) demo_env)\<^sup>*\<^sup>* (spawned (demo_run_fs (Some pid))) s \<and> settled s \<and> ds_child s = ChildServing"
proof -
  let ?child = "main_begin (\<lambda>_. Some demo_app_config) (\<lambda>_. None) 18 (\<lambda>_. None) [] (\<lambda>_. RebornChild) ''x'' '''' (child_flags ''/e'') demo_env"
  have gone: "main_return demo_env (demo_run_fs (Some pid)) = demo_run_fs None"
    by (simp add: main_return_def app_Release_def file_Delete_def os_Remove_def demo_env_def demo_pid_stat Let_def)
      (simp add: demo_run_fs_def)
  let ?m = "(spawned (demo_run_fs (Some pid)))\<lparr>ds_parent := ParentGone, ds_fs := demo_run_fs None\<rparr>"
  have m: "daemon_step ?child demo_env (spawned (demo_run_fs (Some pid))) ?m"
    using daemon_step.Release [of "spawned (demo_run_fs (Some pid))" ?child demo_env] by (simp add: spawned_def gone)
  have "\<exists>fs ctx. ?child (ds_fs ?m) = Ret (Serve demo_env fs ctx)"
    by (simp add: main_begin_def app_Init_def child_flags_def isCmd_def demo_e demo_configPath demo_getAppConfig
      demo_loaded_paths demo_pid_stat file_Exists_def demo_pid_write demo_pid NewContext_def DaemonProcess_def Let_def spawned_def)
  then obtain fs ctx where "?child (ds_fs ?m) = Ret (Serve demo_env fs ctx)" by blast
  then have r: "daemon_step ?child demo_env ?m (?m\<lparr>ds_child := ChildServing, ds_fs := fs\<rparr>)"
    by (intro daemon_step.Serves) (simp_all add: spawned_def)
  from converse_rtranclp_into_rtranclp [where r = "daemon_step ?child demo_env", OF m r_into_rtranclp [where r = "daemon_step ?child demo_env", OF r]]
  show ?thesis by (intro exI conjI) (assumption, simp_all add: settled_def)
qed

end
