(* ===== verification/Helpers.thy ===== *)
theory Helpers
  imports Net
begin

text \<open>
  The small helpers of \<open>library/time\<close>, \<open>library/platform\<close> and \<open>library/ip\<close>. The clock is an
  argument: a reading of \<open>time.Now()\<close> broken down in the local zone. Layouts are interpreted by
  \<open>time.Format\<close> and \<open>time.ParseInLocation\<close>, which are arguments where a layout is one.
\<close>

subsection \<open>Time\<close>

record clock =
  ck_year :: nat
  ck_month :: nat
  ck_day :: nat
  ck_hour :: nat
  ck_min :: nat
  ck_sec :: nat
  ck_unix :: int

text \<open>\<open>fmt\<close>'s verb \<open>02d\<close> and its like: zeros in front up to the width.\<close>

definition pad :: "nat \<Rightarrow> nat \<Rightarrow> string" where
  "pad w n = (let d = nat_digits n in replicate (w - length d) (CHR ''0'') @ d)"

definition GetDayTime :: "clock \<Rightarrow> string" where
  "GetDayTime t =
     pad 4 (ck_year t) @ ''-'' @ pad 2 (ck_month t) @ ''-'' @ pad 2 (ck_day t) @ '' '' @
     pad 2 (ck_hour t) @ '':'' @ pad 2 (ck_min t) @ '':'' @ pad 2 (ck_sec t)"

definition GetYear :: "clock \<Rightarrow> nat" where
  "GetYear t = ck_year t"

definition GetYearMonth :: "clock \<Rightarrow> string" where
  "GetYearMonth t = nat_digits (ck_year t) @ ''-'' @ pad 2 (ck_month t)"

definition GetDayTime2 :: "clock \<Rightarrow> string" where
  "GetDayTime2 t =
     nat_digits (ck_year t) @ ''-'' @ pad 2 (ck_month t) @ ''-'' @ pad 2 (ck_day t)"

definition GetDay :: "(string \<Rightarrow> clock \<Rightarrow> string) \<Rightarrow> string \<Rightarrow> clock \<Rightarrow> string" where
  "GetDay format layout t = format layout t"

definition GetTimeStamp :: "clock \<Rightarrow> int" where
  "GetTimeStamp t = ck_unix t"

text \<open>\<open>parse\<close> is \<open>time.ParseInLocation\<close> with the layout of \<open>StrToTS\<close> in the local zone.\<close>

definition StrToTS :: "(string \<Rightarrow> clock option) \<Rightarrow> string \<Rightarrow> int" where
  "StrToTS parse t = (case parse t of None \<Rightarrow> 0 | Some s \<Rightarrow> ck_unix s)"

text \<open>
  A day is named by one text: two clock readings with the same text are of the same day.
\<close>

lemma length_nat_digits_2: "n < 100 \<Longrightarrow> length (nat_digits n) \<le> 2"
  by (auto simp: nat_digits.simps)

lemma nat_of_digits_zeros: "nat_of_digits 0 (replicate k (CHR ''0'') @ ds) = nat_of_digits 0 ds"
  by (induction k) simp_all

lemma nat_of_digits_pad: "nat_of_digits 0 (pad w n) = n"
  by (simp add: pad_def Let_def nat_of_digits_zeros nat_of_digits_inverse)

lemma pad_inject: "pad w m = pad w n \<longleftrightarrow> m = n"
  by (metis nat_of_digits_pad)

lemma pad_digits: "c \<in> set (pad w n) \<Longrightarrow> is_digit c"
  using nat_digits_is_digit [of n] by (auto simp: pad_def Let_def list_all_iff is_digit_def)

lemma length_pad_2: "n < 100 \<Longrightarrow> length (pad 2 n) = 2"
  using length_nat_digits_2 [of n] by (simp add: pad_def Let_def)

lemma day_text_inject:
  assumes "ck_month t < 100" "ck_month u < 100" "ck_day t < 100" "ck_day u < 100"
  shows "GetDayTime2 t = GetDayTime2 u \<longleftrightarrow>
     ck_year t = ck_year u \<and> ck_month t = ck_month u \<and> ck_day t = ck_day u"
  using assms
  by (auto simp: GetDayTime2_def length_pad_2 nat_digits_inject pad_inject append_eq_append_conv
      dest!: arg_cong [of _ _ rev] simp flip: rev_append)

subsection \<open>Platform\<close>

definition IS_WINDOWS :: string where "IS_WINDOWS = ''windows''"
definition IS_LINUX :: string where "IS_LINUX = ''linux''"
definition IS_MAC :: string where "IS_MAC = ''darwin''"
definition IS_UNIX :: string where "IS_UNIX = ''freebsd''"
definition IS_FREEBSD :: string where "IS_FREEBSD = ''freebsd''"
definition IS_ANDROID :: string where "IS_ANDROID = ''android''"
definition IS_DRAGONFLY :: string where "IS_DRAGONFLY = ''dragonfly''"
definition IS_NACL :: string where "IS_NACL = ''ncal''"
definition IS_NETBSD :: string where "IS_NETBSD = ''netbsd''"
definition IS_OPENBSD :: string where "IS_OPENBSD = ''openbsd''"
definition IS_PLAN9 :: string where "IS_PLAN9 = ''plan9''"
definition IS_SOLARIS :: string where "IS_SOLARIS = ''solaris''"

text \<open>\<open>goos\<close> is \<open>runtime.GOOS\<close>, a constant of the build.\<close>

definition platform_System :: "string \<Rightarrow> string \<Rightarrow> bool" where
  "platform_System goos par \<longleftrightarrow> par = goos"

text \<open>On Native Client \<open>runtime.GOOS\<close> is \<open>nacl\<close>: the constant for it never matches.\<close>

lemma nacl_never: "\<not> platform_System ''nacl'' IS_NACL"
  by (simp add: platform_System_def IS_NACL_def)

subsection \<open>The local address\<close>

text \<open>
  \<open>net.IP\<close> is a byte slice, \<open>None\<close> when nil. \<open>net.Interface\<close> with its flags and the result of its
  \<open>Addrs\<close>: an error or the addresses, which are of the two concrete types the code switches on or of
  another.
\<close>

type_synonym net_ip = "bytes option"

datatype net_addr = IPNet net_ip | IPAddr net_ip | OtherAddr

record net_iface =
  if_Flags :: int
  if_Addrs :: "string + net_addr list"

definition FlagUp :: int where "FlagUp = 1"
definition FlagLoopback :: int where "FlagLoopback = 4"

definition ip_To4 :: "net_ip \<Rightarrow> net_ip" where
  "ip_To4 ip =
     (case ip of
        None \<Rightarrow> None
      | Some b \<Rightarrow>
          if length b = 4 then Some b
          else if length b = 16 \<and> take 10 b = replicate 10 0 \<and> b ! 10 = 0xFF \<and> b ! 11 = 0xFF
          then Some (drop 12 b) else None)"

definition ip_IsLoopback :: "net_ip \<Rightarrow> bool" where
  "ip_IsLoopback ip =
     (case ip_To4 ip of
        Some b \<Rightarrow> b ! 0 = 127
      | None \<Rightarrow> ip = Some (replicate 15 0 @ [1]))"

text \<open>\<open>IP.String\<close> of an address of four bytes, the only ones it is called on.\<close>

definition ip4_String :: "bytes \<Rightarrow> string" where
  "ip4_String b =
     nat_digits (unat (b ! 0)) @ ''.'' @ nat_digits (unat (b ! 1)) @ ''.'' @
     nat_digits (unat (b ! 2)) @ ''.'' @ nat_digits (unat (b ! 3))"

datatype ip_error = ErrNetW | NetError string

text \<open>
  The inner loop: the variable \<open>ip\<close> outlives a turn, so an address of another type is judged by what
  the turn before left in it.
\<close>

fun local_addrs :: "net_ip \<Rightarrow> net_addr list \<Rightarrow> net_ip \<times> string option" where
  "local_addrs ip [] = (ip, None)"
| "local_addrs ip (addr # addrs) =
     (let ip = (case addr of IPNet v \<Rightarrow> v | IPAddr v \<Rightarrow> v | OtherAddr \<Rightarrow> ip)
      in if ip = None \<or> ip_IsLoopback ip then local_addrs ip addrs
         else case ip_To4 ip of
                None \<Rightarrow> local_addrs None addrs
              | Some b \<Rightarrow> (Some b, Some (ip4_String b)))"

fun local_ifaces :: "net_ip \<Rightarrow> net_iface list \<Rightarrow> ip_error + string" where
  "local_ifaces ip [] = Inl ErrNetW"
| "local_ifaces ip (iface # ifaces) =
     (if if_Flags iface AND FlagUp = 0 then local_ifaces ip ifaces
      else if if_Flags iface AND FlagLoopback \<noteq> 0 then local_ifaces ip ifaces
      else case if_Addrs iface of
             Inl err \<Rightarrow> Inl (NetError err)
           | Inr addrs \<Rightarrow>
               case local_addrs ip addrs of
                 (_, Some s) \<Rightarrow> Inr s
               | (ip, None) \<Rightarrow> local_ifaces ip ifaces)"

definition ip_Local :: "string + net_iface list \<Rightarrow> ip_error + string" where
  "ip_Local interfaces =
     (case interfaces of Inl err \<Rightarrow> Inl (NetError err) | Inr ifaces \<Rightarrow> local_ifaces None ifaces)"

text \<open>
  The reference: the addresses of the interfaces that are up and not loopback, up to the first
  interface whose addresses cannot be read; the first of them that is an IPv4 address and not a
  loopback one.
\<close>

definition usable_iface :: "net_iface \<Rightarrow> bool" where
  "usable_iface i \<longleftrightarrow> if_Flags i AND FlagUp \<noteq> 0 \<and> if_Flags i AND FlagLoopback = 0"

fun addr_v4 :: "net_addr \<Rightarrow> bytes option" where
  "addr_v4 (IPNet ip) = (if ip_IsLoopback ip then None else ip_To4 ip)"
| "addr_v4 (IPAddr ip) = (if ip_IsLoopback ip then None else ip_To4 ip)"
| "addr_v4 OtherAddr = None"

fun readable_addrs :: "net_iface list \<Rightarrow> net_addr list \<times> ip_error" where
  "readable_addrs [] = ([], ErrNetW)"
| "readable_addrs (i # is) =
     (case if_Addrs i of
        Inl err \<Rightarrow> ([], NetError err)
      | Inr as \<Rightarrow> (as @ fst (readable_addrs is), snd (readable_addrs is)))"

definition first_v4 :: "net_iface list \<Rightarrow> ip_error + string" where
  "first_v4 ifaces =
     (let (addrs, err) = readable_addrs (filter usable_iface ifaces)
      in case List.map_filter addr_v4 addrs of
           [] \<Rightarrow> Inl err
         | b # _ \<Rightarrow> Inr (ip4_String b))"

text \<open>What a turn leaves behind in \<open>ip\<close> is never an address that would be returned.\<close>

definition stale_ip :: "net_ip \<Rightarrow> bool" where
  "stale_ip ip \<longleftrightarrow> ip = None \<or> ip_IsLoopback ip"

lemma To4_None [simp]: "ip_To4 None = None"
  by (simp add: ip_To4_def)

lemma local_addrs_eq:
  "stale_ip ip \<Longrightarrow>
     (case List.map_filter addr_v4 addrs of
        [] \<Rightarrow> snd (local_addrs ip addrs) = None \<and> stale_ip (fst (local_addrs ip addrs))
      | b # _ \<Rightarrow> snd (local_addrs ip addrs) = Some (ip4_String b))"
proof (induction addrs arbitrary: ip)
  case Nil
  then show ?case by (simp add: map_filter_simps)
next
  case (Cons a addrs)
  have none: "stale_ip None" by (simp add: stale_ip_def)
  define v where "v = (case a of IPNet v \<Rightarrow> v | IPAddr v \<Rightarrow> v | OtherAddr \<Rightarrow> ip)"
  have step: "local_addrs ip (a # addrs) =
      (if stale_ip v then local_addrs v addrs
       else case ip_To4 v of None \<Rightarrow> local_addrs None addrs | Some b \<Rightarrow> (Some b, Some (ip4_String b)))"
    by (simp add: v_def stale_ip_def Let_def)
  have v4: "addr_v4 a = (if stale_ip v then None else ip_To4 v)"
    using Cons.prems by (cases a) (auto simp: v_def stale_ip_def)
  show ?case
    using Cons.IH [of v] Cons.IH [OF none]
    by (cases "List.map_filter addr_v4 addrs")
      (auto simp: step v4 map_filter_simps simp del: local_addrs.simps split: option.splits)
qed


end
