(* ===== verification/Logs.thy ===== *)
theory Logs
  imports Helpers Files "HOL-Library.Multiset"
begin

text \<open>
  \<open>library/log/log.go\<close>: the hook that writes every log entry to a file of its level and day. The
  package keeps the open handles in a map; logrus calls \<open>Fire\<close> with its own mutex held, so the
  entries of a process come one after the other. A handle is the path it was opened with, \<open>None\<close>
  for a nil \<open>*os.File\<close>, on which \<open>Write\<close> and \<open>Close\<close> return an error and do nothing.
\<close>

subsection \<open>Levels\<close>

datatype log_level = PanicLevel | FatalLevel | ErrorLevel | WarnLevel | InfoLevel | DebugLevel

fun level_num :: "log_level \<Rightarrow> nat" where
  "level_num PanicLevel = 0"
| "level_num FatalLevel = 1"
| "level_num ErrorLevel = 2"
| "level_num WarnLevel = 3"
| "level_num InfoLevel = 4"
| "level_num DebugLevel = 5"

fun level_String :: "log_level \<Rightarrow> string" where
  "level_String DebugLevel = ''debug''"
| "level_String InfoLevel = ''info''"
| "level_String WarnLevel = ''warning''"
| "level_String ErrorLevel = ''error''"
| "level_String FatalLevel = ''fatal''"
| "level_String PanicLevel = ''panic''"

lemma level_num_inject: "level_num a = level_num b \<longleftrightarrow> a = b"
  by (cases a; cases b) simp_all

text \<open>The levels are ordered by their numbers, the most severe first.\<close>

instantiation log_level :: linorder
begin

definition less_eq_log_level :: "log_level \<Rightarrow> log_level \<Rightarrow> bool" where
  "less_eq_log_level a b \<longleftrightarrow> level_num a \<le> level_num b"

definition less_log_level :: "log_level \<Rightarrow> log_level \<Rightarrow> bool" where
  "less_log_level a b \<longleftrightarrow> level_num a < level_num b"

instance
  by standard (auto simp: less_eq_log_level_def less_log_level_def level_num_inject)

end

definition AllLevels :: "log_level list" where
  "AllLevels = [PanicLevel, FatalLevel, ErrorLevel, WarnLevel, InfoLevel, DebugLevel]"

text \<open>\<open>hook.Levels()\<close>: the hook is called for every level.\<close>

definition hook_Levels :: "log_level list" where
  "hook_Levels = AllLevels"

lemma hook_Levels_all: "set hook_Levels = UNIV" "sorted hook_Levels" "distinct hook_Levels"
proof -
  have "l \<in> set hook_Levels" for l by (cases l) (simp_all add: hook_Levels_def AllLevels_def)
  then show "set hook_Levels = UNIV" by auto
qed (simp_all add: hook_Levels_def AllLevels_def less_eq_log_level_def)

subsection \<open>Handles\<close>

record log_state =
  lg_handlers :: "(string \<times> string option) list"
  lg_open :: "string list"

definition log_init :: log_state where
  "log_init = \<lparr>lg_handlers = [], lg_open = []\<rparr>"

definition file_Close :: "string option \<Rightarrow> log_state \<Rightarrow> log_state" where
  "file_Close h s = (case h of None \<Rightarrow> s | Some p \<Rightarrow> s\<lparr>lg_open := remove1 p (lg_open s)\<rparr>)"

text \<open>The loop that drops and closes every handle but the one of \<open>key\<close>.\<close>

fun close_others :: "string \<Rightarrow> (string \<times> string option) list \<Rightarrow> log_state \<Rightarrow> log_state" where
  "close_others key [] s = s"
| "close_others key ((k, v) # rest) s =
     (if k \<noteq> key
      then close_others key rest
             (file_Close v (s\<lparr>lg_handlers := filter (\<lambda>e. fst e \<noteq> k) (lg_handlers s)\<rparr>))
      else close_others key rest s)"

definition log_dir :: "string \<Rightarrow> clock \<Rightarrow> clock \<Rightarrow> string" where
  "log_dir logPath t_year t_month = logPath @ ''/'' @ nat_digits (GetYear t_year) @ ''/'' @ GetYearMonth t_month"

definition log_file :: "string \<Rightarrow> log_level \<Rightarrow> clock \<Rightarrow> clock \<Rightarrow> clock \<Rightarrow> string" where
  "log_file logPath level t_year t_month t =
     log_dir logPath t_year t_month @ ''/'' @ level_String level @ ''-'' @ GetDayTime2 t @ ''.log''"

definition log_key :: "log_level \<Rightarrow> clock \<Rightarrow> string" where
  "log_key level t = GetDayTime2 t @ nat_digits (level_num level)"

text \<open>
  \<open>getHandler\<close> reads the clock three times: for the year, for the month and for the day. Its
  result is an error or the handle.
\<close>

definition getHandler ::
    "clock \<times> clock \<times> clock \<Rightarrow> string \<Rightarrow> log_level \<Rightarrow> file_system \<Rightarrow> log_state
       \<Rightarrow> file_system \<times> log_state \<times> (unit + string option)" where
  "getHandler now logPath level fs s =
     (case now of (t_year, t_month, t) \<Rightarrow>
      let dir = log_dir logPath t_year t_month;
          dfile = log_file logPath level t_year t_month t;
          fs = (if \<not> path_Exists fs dir then fst (os_MkdirAll fs dir) else fs);
          key = log_key level t
      in case map_of (lg_handlers s) key of
           Some h \<Rightarrow> (fs, close_others key (lg_handlers s) s, Inr h)
         | None \<Rightarrow>
             (case os_OpenWrite fs False dfile of
                None \<Rightarrow> (fs, s\<lparr>lg_handlers := (key, None) # lg_handlers s\<rparr>, Inl ())
              | Some (fs, _) \<Rightarrow>
                  let s = s\<lparr>lg_handlers := (key, Some dfile) # lg_handlers s, lg_open := dfile # lg_open s\<rparr>
                  in (fs, close_others key (lg_handlers s) s, Inr (Some dfile))))"

subsection \<open>The caller\<close>

text \<open>
  \<open>callers i\<close> is \<open>runtime.Caller(i)\<close>: the name of the function, the path of the file and the line.
  Paths are lower-cased letter by letter of ASCII.
\<close>

definition to_lower :: "string \<Rightarrow> string" where
  "to_lower s = map (\<lambda>c. let n = of_char c in if 65 \<le> n \<and> n \<le> (90 :: nat) then char_of (n + 32) else c) s"

definition str_contains :: "string \<Rightarrow> string \<Rightarrow> bool" where
  "str_contains s sub \<longleftrightarrow> list_ex (\<lambda>i. take (length sub) (drop i s) = sub) [0..<length s + 1]"

definition str_has_prefix :: "string \<Rightarrow> string \<Rightarrow> bool" where
  "str_has_prefix s p \<longleftrightarrow> take (length p) s = p"

definition short_path :: "string \<Rightarrow> string" where
  "short_path fullPath =
     (let lastS = LastIndex fullPath (CHR ''/'');
          lastS = (if lastS < 0 then LastIndex fullPath (CHR 92) else lastS)
      in drop (nat (lastS + 1)) fullPath)"

definition short_func :: "string \<Rightarrow> string \<Rightarrow> string" where
  "short_func workingDir funcName =
     (let funcName = (if str_has_prefix funcName workingDir then drop (length workingDir) funcName else funcName);
          index = LastIndex funcName (CHR ''.'')
      in if index > 0 then drop (nat (index + 1)) funcName else funcName)"

fun caller_loop ::
    "string \<Rightarrow> (nat \<Rightarrow> (string \<times> string \<times> nat) option) \<Rightarrow> nat list \<Rightarrow> string \<times> string \<times> nat" where
  "caller_loop workingDir callers [] = ('''', '''', 0)"
| "caller_loop workingDir callers (i # is) =
     (case callers i of
        None \<Rightarrow> caller_loop workingDir callers is
      | Some (name, fullPath, line) \<Rightarrow>
          if \<not> str_contains (to_lower fullPath) ''github.com/sirupsen/logrus''
          then (short_path fullPath, short_func workingDir name, line)
          else caller_loop workingDir callers is)"

definition getCallerInfo ::
    "string \<Rightarrow> (nat \<Rightarrow> (string \<times> string \<times> nat) option) \<Rightarrow> string \<times> string \<times> nat" where
  "getCallerInfo workingDir callers = caller_loop workingDir callers [3..<15]"

subsection \<open>The hook\<close>

text \<open>
  An entry as the hook sees it; \<open>render\<close> is \<open>entry.String()\<close>, the formatter's line or its error.
\<close>

record log_entry =
  le_Data :: "(string \<times> string) list"
  le_Level :: log_level

definition set_data :: "string \<Rightarrow> string \<Rightarrow> log_entry \<Rightarrow> log_entry" where
  "set_data k v e = e\<lparr>le_Data := (k, v) # filter (\<lambda>d. fst d \<noteq> k) (le_Data e)\<rparr>"

definition with_caller :: "string \<times> string \<times> nat \<Rightarrow> log_entry \<Rightarrow> log_entry" where
  "with_caller info entry =
     (case info of (shortPath, funcName, callLine) \<Rightarrow>
        if shortPath \<noteq> '''' \<and> callLine \<noteq> 0
        then set_data ''caller''
               (''['' @ shortPath @ ''('' @ funcName @ ''):'' @ nat_digits callLine @ '']'') entry
        else entry)"

text \<open>
  \<open>handler.Write\<close>: nothing on a nil handle or one that was closed; \<open>Fire\<close> does not look at the result.
\<close>

definition handle_Write :: "string option \<Rightarrow> bytes \<Rightarrow> log_state \<Rightarrow> file_system \<Rightarrow> file_system" where
  "handle_Write h data s fs =
     (case h of None \<Rightarrow> fs | Some p \<Rightarrow> if p \<in> set (lg_open s) then os_Append fs p data else fs)"

definition hook_Fire ::
    "string \<Rightarrow> (log_entry \<Rightarrow> bytes option) \<Rightarrow> (nat \<Rightarrow> (string \<times> string \<times> nat) option) \<Rightarrow> clock \<times> clock \<times> clock
       \<Rightarrow> string \<Rightarrow> log_entry \<Rightarrow> file_system \<Rightarrow> log_state \<Rightarrow> file_system \<times> log_state \<times> bool" where
  "hook_Fire workingDir render callers now logPath entry fs s =
     (let entry = with_caller (getCallerInfo workingDir callers) entry
      in case render entry of
           None \<Rightarrow> (fs, s, True)
         | Some line \<Rightarrow>
             (case getHandler now logPath (le_Level entry) fs s of
                (fs, s, Inl _) \<Rightarrow> (fs, s, False)
              | (fs, s, Inr handler) \<Rightarrow> (handle_Write handler line s fs, s, False)))"

subsection \<open>Handles: at most one file is open\<close>

definition live_handles :: "(string \<times> string option) list \<Rightarrow> string list" where
  "live_handles hs = List.map_filter snd hs"

lemma live_handles_simps [simp]:
  "live_handles [] = []"
  "live_handles ((k, None) # hs) = live_handles hs"
  "live_handles ((k, Some p) # hs) = p # live_handles hs"
  by (simp_all add: live_handles_def map_filter_simps)

definition log_inv :: "log_state \<Rightarrow> bool" where
  "log_inv s \<longleftrightarrow> distinct (map fst (lg_handlers s)) \<and> mset (lg_open s) = mset (live_handles (lg_handlers s)) \<and>
     length (live_handles (lg_handlers s)) \<le> 1"

lemma close_others_handlers:
  "lg_handlers (close_others key l s) =
     filter (\<lambda>e. fst e = key \<or> fst e \<notin> fst ` set l) (lg_handlers s)"
proof (induction key l s rule: close_others.induct)
  case (2 key k v rest s)
  then show ?case
    by (auto simp: file_Close_def split: option.split intro!: filter_cong)
qed simp

lemma close_others_open:
  "mset (lg_open (close_others key l s)) =
     mset (lg_open s) - mset (live_handles (filter (\<lambda>e. fst e \<noteq> key) l))"
proof (induction key l s rule: close_others.induct)
  case (2 key k v rest s)
  then show ?case by (cases v) (auto simp: file_Close_def)
qed simp

lemma live_handles_split:
  "mset (live_handles hs) =
     mset (live_handles (filter (\<lambda>e. fst e = key) hs)) + mset (live_handles (filter (\<lambda>e. fst e \<noteq> key) hs))"
proof (induction hs)
  case (Cons e hs)
  obtain k v where "e = (k, v)" by fastforce
  with Cons show ?case by (cases v) auto
qed simp

lemma filter_key_distinct:
  "distinct (map fst hs) \<Longrightarrow> map_of hs key = Some h \<Longrightarrow> filter (\<lambda>e. fst e = key) hs = [(key, h)]"
proof (induction hs)
  case (Cons e hs)
  then show ?case
    by (cases e) (auto simp: filter_empty_conv image_iff split: if_splits)
qed simp

text \<open>After the loop the handle of \<open>key\<close> is the only one left, and the only one open.\<close>

lemma close_others_result:
  assumes "distinct (map fst (lg_handlers s))" "mset (lg_open s) = mset (live_handles (lg_handlers s))"
    and "map_of (lg_handlers s) key = Some h"
  shows "lg_handlers (close_others key (lg_handlers s) s) = [(key, h)]"
    and "mset (lg_open (close_others key (lg_handlers s) s)) = mset (live_handles [(key, h)])"
proof -
  note only = filter_key_distinct [OF assms(1,3)]
  have "filter (\<lambda>e. fst e = key \<or> fst e \<notin> fst ` set (lg_handlers s)) (lg_handlers s) =
      filter (\<lambda>e. fst e = key) (lg_handlers s)" by (rule filter_cong) auto
  then show "lg_handlers (close_others key (lg_handlers s) s) = [(key, h)]"
    by (simp add: close_others_handlers only)
  show "mset (lg_open (close_others key (lg_handlers s) s)) = mset (live_handles [(key, h)])"
    using live_handles_split [of "lg_handlers s" key] assms(2) by (simp add: close_others_open only)
qed

lemma log_inv_single: "lg_handlers s = [(key, h)] \<Longrightarrow> mset (lg_open s) = mset (live_handles [(key, h)]) \<Longrightarrow> log_inv s"
  by (cases h) (simp_all add: log_inv_def)

lemma getHandler_inv:
  assumes "log_inv s" "getHandler now logPath level fs s = (fs', s', r)"
  shows "log_inv s'"
proof -
  obtain ty tm t where now: "now = (ty, tm, t)" by (cases now)
  let ?key = "log_key level t"
  have d: "distinct (map fst (lg_handlers s))" "mset (lg_open s) = mset (live_handles (lg_handlers s))"
    using assms(1) by (simp_all add: log_inv_def)
  show ?thesis
  proof (cases "map_of (lg_handlers s) ?key")
    case (Some h)
    from close_others_result [OF d Some] assms(2) Some show ?thesis
      by (auto simp: getHandler_def now Let_def intro!: log_inv_single)
  next
    case None
    then have fresh: "?key \<notin> fst ` set (lg_handlers s)" by (simp add: map_of_eq_None_iff)
    show ?thesis
    proof (cases r)
      case (Inl u)
      with None assms fresh show ?thesis
        by (auto simp: getHandler_def now Let_def log_inv_def split: option.splits prod.splits)
    next
      case (Inr h)
      define opened where "opened p = s\<lparr>lg_handlers := (?key, Some p) # lg_handlers s, lg_open := p # lg_open s\<rparr>" for p
      from assms(2) None Inr obtain p where s': "s' = close_others ?key (lg_handlers (opened p)) (opened p)"
        by (auto simp: getHandler_def now Let_def opened_def split: option.splits prod.splits)
      have "log_inv (close_others ?key (lg_handlers (opened p)) (opened p))"
        using close_others_result [of "opened p" ?key "Some p"] d fresh
        by (intro log_inv_single [where key = ?key and h = "Some p"]) (simp_all add: opened_def)
      then show ?thesis by (simp add: s')
    qed
  qed
qed

lemma hook_Fire_inv:
  assumes "log_inv s" "hook_Fire wd render callers now logPath entry fs s = (fs', s', e)"
  shows "log_inv s'"
  using assms getHandler_inv [OF assms(1)]
  by (auto simp: hook_Fire_def Let_def split: option.splits prod.splits sum.splits)

text \<open>
  The states of the package over the life of the process: any entries, at any times, with the file
  system changing in any way in between.
\<close>

inductive log_reach :: "log_state \<Rightarrow> bool" where
  Start: "log_reach log_init"
| Fire: "log_reach s \<Longrightarrow> hook_Fire wd render callers now logPath entry fs s = (fs', s', e) \<Longrightarrow> log_reach s'"

lemma log_inv_init: "log_inv log_init"
  by (simp add: log_inv_def log_init_def)

lemma log_reach_inv: "log_reach s \<Longrightarrow> log_inv s"
  by (induction rule: log_reach.induct) (rule log_inv_init, rule hook_Fire_inv)

text \<open>
  C13: However the entries come, over changes of level and of day and with any failures to create
  directories or open files, at most one log file is open, the open file is the one non-nil
  handle in the map, and no handle is leaked.\<close>

theorem one_log_open:
  "log_reach s \<Longrightarrow> length (lg_open s) \<le> 1 \<and> set (lg_open s) = {p. Some p \<in> snd ` set (lg_handlers s)}"
proof -
  assume "log_reach s"
  then have inv: "log_inv s" by (rule log_reach_inv)
  have "set (live_handles hs) = {p. Some p \<in> snd ` set hs}" for hs
    by (force simp: live_handles_def List.map_filter_def image_iff)
  with inv show ?thesis
    unfolding log_inv_def by (metis size_mset mset_eq_setD)
qed

subsection \<open>Paths of the log files\<close>

lemma split_on_join: "split_on sep (d @ sep # t) = split_on sep d @ split_on sep t"
  by (induction d) (auto split: list.splits)

lemma norm_comps_snoc:
  "b \<noteq> '''' \<Longrightarrow> b \<noteq> ''.'' \<Longrightarrow> b \<noteq> ''..'' \<Longrightarrow> norm_comps acc (xs @ [b]) = norm_comps acc xs @ [b]"
  by (induction acc xs rule: norm_comps.induct) auto

lemma resolve_join:
  assumes "d \<noteq> []" "CHR ''/'' \<notin> set b" "b \<noteq> ''''" "b \<noteq> ''.''" "b \<noteq> ''..''"
  shows "resolve fs (d @ ''/'' @ b) = resolve fs d @ [b]"
  using assms by (simp add: resolve_def split_on_join split_on_plain norm_comps_snoc)

definition log_base :: "log_level \<Rightarrow> clock \<Rightarrow> string" where
  "log_base level t = level_String level @ ''-'' @ GetDayTime2 t @ ''.log''"

lemma level_String_inject: "level_String a = level_String b \<longleftrightarrow> a = b"
  by (cases a; cases b) simp_all

lemma log_base_inject: "log_base a t = log_base b t \<longleftrightarrow> a = b"
  by (simp add: log_base_def level_String_inject)

lemma log_key_inject: "log_key a t = log_key b t \<longleftrightarrow> a = b"
  by (simp add: log_key_def nat_digits_inject level_num_inject)

lemma slash_not_day: "CHR ''/'' \<notin> set (GetDayTime2 t)"
  using nat_digits_is_digit [of "ck_year t"] pad_digits [of "CHR ''/''"]
  by (auto simp: GetDayTime2_def list_all_iff is_digit_def)

lemma log_base_ok:
  "CHR ''/'' \<notin> set (log_base l t)" "log_base l t \<noteq> ''''" "log_base l t \<noteq> ''.''" "log_base l t \<noteq> ''..''"
  using slash_not_day [of t] by (cases l; simp add: log_base_def)+

lemma resolve_log_file:
  "resolve fs (log_file logPath l ty tm t) = resolve fs (log_dir logPath ty tm) @ [log_base l t]"
proof -
  have "log_file logPath l ty tm t = log_dir logPath ty tm @ ''/'' @ log_base l t"
    by (simp add: log_file_def log_base_def)
  moreover have "log_dir logPath ty tm \<noteq> []" by (simp add: log_dir_def)
  ultimately show ?thesis by (simp only: resolve_join log_base_ok not_False_eq_True)
qed

subsection \<open>Every entry is written\<close>

text \<open>What the file of a level holds; a missing file holds nothing.\<close>

definition log_text :: "string \<Rightarrow> clock \<times> clock \<times> clock \<Rightarrow> file_system \<Rightarrow> log_level \<Rightarrow> bytes" where
  "log_text logPath now fs l =
     (case now of (ty, tm, t) \<Rightarrow>
        case fs_node fs (resolve fs (log_file logPath l ty tm t)) of Some (FFile d) \<Rightarrow> d | _ \<Rightarrow> [])"

text \<open>
  The directory of the month is there and in it every log file can be written: it is not denied and
  no directory has its name.
\<close>

definition log_writable :: "string \<Rightarrow> clock \<times> clock \<times> clock \<Rightarrow> file_system \<Rightarrow> bool" where
  "log_writable logPath now fs =
     (case now of (ty, tm, t) \<Rightarrow>
        path_Exists fs (log_dir logPath ty tm) \<and> os_Stat fs (log_dir logPath ty tm) = Some FDir \<and>
        list_all (\<lambda>l. \<not> fs_deny fs (resolve fs (log_file logPath l ty tm t)) \<and>
                      fs_node fs (resolve fs (log_file logPath l ty tm t)) \<noteq> Some FDir) AllLevels)"

text \<open>
  The package holds no handle, or one; a handle of the day is that of its level's file, which exists.
\<close>

definition log_ready :: "string \<Rightarrow> clock \<times> clock \<times> clock \<Rightarrow> file_system \<Rightarrow> log_state \<Rightarrow> bool" where
  "log_ready logPath now fs s =
     (case now of (ty, tm, t) \<Rightarrow>
        s = log_init \<or>
        (\<exists>k p. s = \<lparr>lg_handlers = [(k, Some p)], lg_open = [p]\<rparr> \<and>
          (\<forall>l. k = log_key l t \<longrightarrow> p = log_file logPath l ty tm t \<and>
             (\<exists>d. fs_node fs (resolve fs p) = Some (FFile d)))))"

definition holding :: "string \<Rightarrow> clock \<times> clock \<times> clock \<Rightarrow> log_level \<Rightarrow> log_state" where
  "holding logPath now l =
     (case now of (ty, tm, t) \<Rightarrow>
        \<lparr>lg_handlers = [(log_key l t, Some (log_file logPath l ty tm t))],
         lg_open = [log_file logPath l ty tm t]\<rparr>)"

lemma AllLevels_mem: "l \<in> set AllLevels"
  by (cases l) (simp_all add: AllLevels_def)

lemma writableD:
  assumes "log_writable logPath (ty, tm, t) fs"
  shows "path_Exists fs (log_dir logPath ty tm)"
    and "\<not> fs_deny fs (resolve fs (log_file logPath l ty tm t))"
    and "fs_node fs (resolve fs (log_file logPath l ty tm t)) \<noteq> Some FDir"
    and "fs_node fs (resolve fs (log_dir logPath ty tm)) = Some FDir"
  using assms AllLevels_mem [of l]
  by (auto simp: log_writable_def list_all_iff os_Stat_def split: if_splits)

lemma os_Stat_tree_upd:
  "os_Stat fs p = Some n \<Longrightarrow> resolve fs p \<noteq> q \<Longrightarrow>
     os_Stat (fs\<lparr>fs_tree := (fs_tree fs)(q := x)\<rparr>) p = Some n"
  by (auto simp: os_Stat_def fs_node_def split: if_splits)

lemma path_Exists_tree_upd:
  "path_Exists fs p \<Longrightarrow> path_Exists (fs\<lparr>fs_tree := (fs_tree fs)(q \<mapsto> x)\<rparr>) p"
  by (auto simp: path_Exists_def os_Stat_def fs_node_def Let_def split: if_splits option.splits)

definition log_upd :: "string \<Rightarrow> clock \<times> clock \<times> clock \<Rightarrow> log_level \<Rightarrow> bytes \<Rightarrow> file_system \<Rightarrow> file_system" where
  "log_upd logPath now l d fs =
     (case now of (ty, tm, t) \<Rightarrow>
        fs\<lparr>fs_tree := (fs_tree fs)(resolve fs (log_file logPath l ty tm t) \<mapsto> FFile d)\<rparr>)"

lemma log_file_node: "fs_node fs (resolve fs (log_file logPath l ty tm t)) =
    fs_tree fs (resolve fs (log_file logPath l ty tm t))"
  by (simp add: fs_node_def resolve_log_file)

lemma open_log_file:
  assumes "log_writable logPath (ty, tm, t) fs"
  shows "os_OpenWrite fs False (log_file logPath l ty tm t) =
    Some (log_upd logPath (ty, tm, t) l (log_text logPath (ty, tm, t) fs l) fs, log_text logPath (ty, tm, t) fs l)"
proof -
  note w = writableD(2,3) [OF assms, of l] writableD(4) [OF assms]
  have ne: "log_file logPath l ty tm t \<noteq> []" by (simp add: log_file_def)
  have parent: "butlast (resolve fs (log_file logPath l ty tm t)) = resolve fs (log_dir logPath ty tm)"
    by (simp add: resolve_log_file)
  have nq: "resolve fs (log_file logPath l ty tm t) \<noteq> []" by (simp add: resolve_log_file)
  show ?thesis
  proof (cases "fs_node fs (resolve fs (log_file logPath l ty tm t))")
    case None
    with w ne nq parent show ?thesis by (simp add: os_OpenWrite_def log_text_def log_upd_def)
  next
    case (Some n)
    with w(2) obtain d where d: "fs_node fs (resolve fs (log_file logPath l ty tm t)) = Some (FFile d)"
      by (cases n) auto
    then have "log_upd logPath (ty, tm, t) l d fs = fs"
      by (simp add: log_upd_def log_file_node fun_upd_idem)
    with d w ne nq show ?thesis by (simp add: os_OpenWrite_def log_text_def)
  qed
qed

lemma getHandler_ready:
  assumes w: "log_writable logPath now fs" and r: "log_ready logPath now fs s"
  shows "getHandler now logPath l fs s =
    (log_upd logPath now l (log_text logPath now fs l) fs, holding logPath now l,
     Inr (Some (case now of (ty, tm, t) \<Rightarrow> log_file logPath l ty tm t)))"
proof -
  obtain ty tm t where now: "now = (ty, tm, t)" by (cases now)
  note w' = w [unfolded now] and ex = writableD(1) [OF w [unfolded now]]
  show ?thesis
  proof (cases "map_of (lg_handlers s) (log_key l t)")
    case None
    with r ex show ?thesis
      by (auto simp: getHandler_def now Let_def open_log_file [OF w'] log_ready_def log_init_def
          holding_def file_Close_def split: if_splits)
  next
    case (Some h)
    with r obtain d where s: "s = holding logPath now l" and h: "h = Some (log_file logPath l ty tm t)"
      and d: "fs_node fs (resolve fs (log_file logPath l ty tm t)) = Some (FFile d)"
      by (auto simp: log_ready_def now log_init_def holding_def split: if_splits)
    have "log_upd logPath now l (log_text logPath now fs l) fs = fs"
      using d by (simp add: log_upd_def log_text_def now log_file_node fun_upd_idem)
    then show ?thesis using ex by (simp add: getHandler_def now Let_def s h holding_def)
  qed
qed

definition fire_line :: "string \<Rightarrow> (log_entry \<Rightarrow> bytes option) \<Rightarrow> (nat \<Rightarrow> (string \<times> string \<times> nat) option) \<Rightarrow> log_entry \<Rightarrow> bytes option" where
  "fire_line wd render callers entry = render (with_caller (getCallerInfo wd callers) entry)"

lemma with_caller_level [simp]: "le_Level (with_caller info e) = le_Level e"
  by (simp add: with_caller_def set_data_def split: prod.split)

lemma fire_ready:
  assumes w: "log_writable logPath now fs" and r: "log_ready logPath now fs s"
    and line: "fire_line wd render callers entry = Some data"
  shows "hook_Fire wd render callers now logPath entry fs s =
    (log_upd logPath now (le_Level entry) (log_text logPath now fs (le_Level entry) @ data) fs,
     holding logPath now (le_Level entry), False)"
proof -
  obtain ty tm t where now: "now = (ty, tm, t)" by (cases now)
  have line': "render (with_caller (getCallerInfo wd callers) entry) = Some data"
    using line by (simp add: fire_line_def)
  have "hook_Fire wd render callers now logPath entry fs s =
      (os_Append (log_upd logPath now (le_Level entry) (log_text logPath now fs (le_Level entry)) fs)
         (log_file logPath (le_Level entry) ty tm t) data,
       holding logPath now (le_Level entry), False)"
    by (simp add: hook_Fire_def Let_def line' getHandler_ready [OF w r] handle_Write_def)
      (simp add: now holding_def)
  then show ?thesis
    by (simp add: now os_Append_def log_upd_def fs_node_def resolve_log_file)
qed

lemma log_text_upd:
  "log_text logPath now (log_upd logPath now l d fs) l' = (if l' = l then d else log_text logPath now fs l')"
  by (cases now) (simp add: log_text_def log_upd_def fs_node_def resolve_log_file log_base_inject)

lemma log_writable_upd:
  "log_writable logPath now fs \<Longrightarrow> log_writable logPath now (log_upd logPath now l d fs)"
proof (cases now)
  case (fields ty tm t)
  assume w: "log_writable logPath now fs"
  have "resolve fs (log_dir logPath ty tm) \<noteq> resolve fs (log_file logPath l ty tm t)"
    by (simp add: resolve_log_file)
  with w show ?thesis
    by (auto simp: log_writable_def log_upd_def fields path_Exists_tree_upd os_Stat_tree_upd list_all_iff
        fs_node_def)
qed

lemma log_ready_upd: "log_ready logPath now (log_upd logPath now l d fs) (holding logPath now l)"
  by (cases now) (auto simp: log_ready_def holding_def log_upd_def log_key_inject fs_node_def resolve_log_file)

text \<open>A run of the hook over a list of entries, each with the stack it was logged from.\<close>

fun fire_all ::
    "string \<Rightarrow> (log_entry \<Rightarrow> bytes option) \<Rightarrow> clock \<times> clock \<times> clock \<Rightarrow> string
       \<Rightarrow> ((nat \<Rightarrow> (string \<times> string \<times> nat) option) \<times> log_entry) list \<Rightarrow> file_system \<Rightarrow> log_state
       \<Rightarrow> file_system \<times> log_state" where
  "fire_all wd render now logPath [] fs s = (fs, s)"
| "fire_all wd render now logPath ((callers, entry) # es) fs s =
     (case hook_Fire wd render callers now logPath entry fs s of
        (fs, s, _) \<Rightarrow> fire_all wd render now logPath es fs s)"

definition lines_of :: "string \<Rightarrow> (log_entry \<Rightarrow> bytes option) \<Rightarrow> log_level
    \<Rightarrow> ((nat \<Rightarrow> (string \<times> string \<times> nat) option) \<times> log_entry) list \<Rightarrow> bytes" where
  "lines_of wd render l es =
     concat (map (\<lambda>(callers, entry). the (fire_line wd render callers entry))
       (filter (\<lambda>(_, entry). le_Level entry = l) es))"


subsection \<open>A failed open\<close>

text \<open>Creating directories changes no file.\<close>

lemma mkdirs_files:
  "mkdirs fs done cs = Some fs' \<Longrightarrow> fs_tree fs' q = Some (FFile d) \<longleftrightarrow> fs_tree fs q = Some (FFile d)"
proof (induction fs "done" cs rule: mkdirs.induct)
  case (2 fs "done" c cs)
  then show ?case
    by (auto simp: Let_def split: option.splits fnode.splits if_splits)
qed simp

lemma MkdirAll_files:
  "fs_node (fst (os_MkdirAll fs p)) q = Some (FFile d) \<longleftrightarrow> fs_node fs q = Some (FFile d)"
  by (auto simp: os_MkdirAll_def fs_node_def mkdirs_files split: option.split)

definition same_files :: "file_system \<Rightarrow> file_system \<Rightarrow> bool" where
  "same_files fs fs' \<longleftrightarrow> (\<forall>q d. fs_node fs' q = Some (FFile d) \<longleftrightarrow> fs_node fs q = Some (FFile d))"

lemma stuck_fire:
  assumes "log_inv s" "map_of (lg_handlers s) (log_key (le_Level entry) t) = Some None"
    and "hook_Fire wd render callers (ty, tm, t) logPath entry fs s = (fs', s', e)"
  shows "same_files fs fs'" and "map_of (lg_handlers s') (log_key (le_Level entry) t) = Some None"
proof -
  have d: "distinct (map fst (lg_handlers s))" "mset (lg_open s) = mset (live_handles (lg_handlers s))"
    using assms(1) by (simp_all add: log_inv_def)
  note left = close_others_result(1) [OF d assms(2)]
  from assms(2,3) show "same_files fs fs'"
    by (auto simp: hook_Fire_def getHandler_def Let_def handle_Write_def same_files_def MkdirAll_files
        split: option.splits if_splits)
  from assms(2,3) left show "map_of (lg_handlers s') (log_key (le_Level entry) t) = Some None"
    by (auto simp: hook_Fire_def getHandler_def Let_def split: option.splits if_splits)
qed

text \<open>A run of the hook in which every entry meets its own file system; the texts of the files after it are those before it.\<close>

fun fires_lost ::
    "string \<Rightarrow> (log_entry \<Rightarrow> bytes option) \<Rightarrow> clock \<times> clock \<times> clock \<Rightarrow> string
       \<Rightarrow> ((nat \<Rightarrow> (string \<times> string \<times> nat) option) \<times> log_entry \<times> file_system) list \<Rightarrow> log_state \<Rightarrow> bool" where
  "fires_lost wd render now logPath [] s = True"
| "fires_lost wd render now logPath ((callers, entry, fs) # es) s =
     (case hook_Fire wd render callers now logPath entry fs s of
        (fs', s', _) \<Rightarrow> same_files fs fs' \<and> fires_lost wd render now logPath es s')"


subsection \<open>Examples\<close>

definition ldemo_clock :: clock where
  "ldemo_clock = \<lparr>ck_year = 2018, ck_month = 3, ck_day = 9, ck_hour = 8, ck_min = 7, ck_sec = 6, ck_unix = 1520582826\<rparr>"

definition ldemo_now :: "clock \<times> clock \<times> clock" where
  "ldemo_now = (ldemo_clock, ldemo_clock, ldemo_clock)"

definition ldemo_fs :: "bool \<Rightarrow> file_system" where
  "ldemo_fs deny = \<lparr>fs_tree = [[''logs''] \<mapsto> FDir, [''logs'', ''2018''] \<mapsto> FDir, [''logs'', ''2018'', ''2018-03''] \<mapsto> FDir],
     fs_cwd = [], fs_deny = (\<lambda>q. deny)\<rparr>"

definition ldemo_callers :: "nat \<Rightarrow> (string \<times> string \<times> nat) option" where
  "ldemo_callers i = (if i < 6 then Some (''logrus.Info'', ''/x/github.com/Sirupsen/logrus/entry.go'', 12)
     else Some (''main.main'', ''/x/src/main.go'', 7))"

definition ldemo_entry :: "log_level \<Rightarrow> log_entry" where
  "ldemo_entry l = \<lparr>le_Data = [], le_Level = l\<rparr>"

definition ldemo_render :: "log_entry \<Rightarrow> bytes option" where
  "ldemo_render e = Some (bytes_of (level_String (le_Level e) @ concat (map snd (le_Data e)) @ [CHR 10]))"

lemma ldemo_info: "getCallerInfo '''' ldemo_callers = (''main.go'', ''main'', 7)"
  by code_simp

definition ldemo_path :: string where
  "ldemo_path = ''/logs/2018/2018-03/info-2018-03-09.log''"

definition ldemo_state :: log_state where
  "ldemo_state = \<lparr>lg_handlers = [(''2018-03-094'', Some ldemo_path)], lg_open = [ldemo_path]\<rparr>"

lemma ldemo_digits:
  "nat_digits 2018 = ''2018''" "nat_digits 3 = ''3''" "nat_digits 9 = ''9''" "nat_digits 7 = ''7''" "nat_digits 4 = ''4''"
  by (simp_all add: nat_digits.simps char_of_def bit_0)

lemma ldemo_names:
  "log_dir ''/logs'' ldemo_clock ldemo_clock = ''/logs/2018/2018-03''"
  "GetDayTime2 ldemo_clock = ''2018-03-09''"
  by (simp_all add: log_dir_def GetYear_def GetYearMonth_def GetDayTime2_def ldemo_clock_def ldemo_digits pad_def)

lemma ldemo_dir: "resolve (ldemo_fs b) ''/logs/2018/2018-03'' = [''logs'', ''2018'', ''2018-03'']"
  by (simp add: resolve_def)

lemma ldemo_exists:
  "path_Exists (ldemo_fs b) ''/logs/2018/2018-03''" "os_Stat (ldemo_fs b) ''/logs/2018/2018-03'' = Some FDir"
proof -
  have "to_slash ''/logs/2018/2018-03'' = ''/logs/2018/2018-03''" by (simp add: to_slash_def)
  then show "path_Exists (ldemo_fs b) ''/logs/2018/2018-03''" "os_Stat (ldemo_fs b) ''/logs/2018/2018-03'' = Some FDir"
    by (simp_all add: path_Exists_def os_Stat_def ldemo_dir fs_node_def) (simp_all add: ldemo_fs_def)
qed

lemma ldemo_writable: "log_writable ''/logs'' ldemo_now (ldemo_fs False)"
  by (simp add: log_writable_def ldemo_now_def resolve_log_file ldemo_names ldemo_dir ldemo_exists fs_node_def list_all_iff)
    (simp add: ldemo_fs_def)

lemma ldemo_ready: "log_ready ''/logs'' ldemo_now fs log_init"
  by (simp add: log_ready_def ldemo_now_def)

lemma ldemo_line: "fire_line '''' ldemo_render ldemo_callers (ldemo_entry l) = Some (bytes_of (level_String l @ ''[main.go(main):7]'' @ [CHR 10]))"
  by (simp add: fire_line_def ldemo_info ldemo_render_def ldemo_entry_def with_caller_def set_data_def ldemo_digits)

lemma ldemo_holding: "holding ''/logs'' ldemo_now InfoLevel = ldemo_state"
  by (simp add: holding_def ldemo_now_def ldemo_state_def ldemo_path_def log_key_def log_file_def ldemo_names ldemo_digits)

lemma ldemo_reach: "log_reach ldemo_state"
proof -
  have "\<exists>fs'. hook_Fire '''' ldemo_render ldemo_callers ldemo_now ''/logs'' (ldemo_entry InfoLevel) (ldemo_fs False) log_init
      = (fs', ldemo_state, False)"
    using fire_ready [OF ldemo_writable ldemo_ready ldemo_line] ldemo_holding by (simp add: ldemo_entry_def)
  then show ?thesis by (auto intro: log_reach.intros)
qed

theorem one_log_open_witness:
  "log_reach ldemo_state \<and> length (lg_open ldemo_state) \<le> 1 \<and>
   set (lg_open ldemo_state) = {p. Some p \<in> snd ` set (lg_handlers ldemo_state)} \<and> ldemo_path \<in> set (lg_open ldemo_state)"
  using ldemo_reach one_log_open [OF ldemo_reach] by (simp add: ldemo_state_def)



end
