(* ===== verification/Ssh.thy ===== *)
theory Ssh
  imports Files
begin

text \<open>
  \<open>library/ssh/ssh.go\<close>: a client for remote commands over the ssh library, whose functions are
  arguments: \<open>parse_key\<close> is \<open>ssh.ParsePrivateKey\<close>, \<open>dial\<close> is \<open>ssh.Dial\<close> on an address and a configuration,
  \<open>new_session\<close> and \<open>run\<close> are the client's \<open>NewSession\<close> and the session's \<open>CombinedOutput\<close>. Methods of
  a nil session or client dereference it.
\<close>

definition CERT_PASSWORD :: int where "CERT_PASSWORD = 1"
definition CERT_PUBLIC_KEY_FILE :: int where "CERT_PUBLIC_KEY_FILE = 2"
definition DEFAULT_TIMEOUT :: int where "DEFAULT_TIMEOUT = 3"

datatype 'k auth_method = AuthPassword string | AuthPublicKeys 'k | AuthNil

record 'k ssh_config =
  sg_User :: string
  sg_Auth :: "'k auth_method list"
  sg_Timeout :: int   \<comment> \<open>in seconds\<close>

record ('s, 'c) ssh =
  sh_Ip :: string
  sh_User :: string
  sh_Cert :: string
  sh_Port :: int
  sh_session :: "'s option"
  sh_client :: "'c option"

definition readPublicKeyFile :: "(bytes \<Rightarrow> 'k option) \<Rightarrow> file_system \<Rightarrow> string \<Rightarrow> 'k auth_method" where
  "readPublicKeyFile parse_key fs file =
     (case os_Stat fs file of
        Some (FFile buffer) \<Rightarrow>
          (case parse_key buffer of None \<Rightarrow> AuthNil | Some key \<Rightarrow> AuthPublicKeys key)
      | _ \<Rightarrow> AuthNil)"

text \<open>The new state and the clients that were closed on the way.\<close>

definition ssh_Connect ::
    "(bytes \<Rightarrow> 'k option) \<Rightarrow> (string \<Rightarrow> 'k ssh_config \<Rightarrow> 'c option) \<Rightarrow> ('c \<Rightarrow> 's option) \<Rightarrow> file_system
       \<Rightarrow> int \<Rightarrow> ('s, 'c) ssh \<Rightarrow> ('s, 'c) ssh \<times> 'c list" where
  "ssh_Connect parse_key dial new_session fs mode c =
     (let auth = (if mode = CERT_PASSWORD then Some [AuthPassword (sh_Cert c)]
                  else if mode = CERT_PUBLIC_KEY_FILE then Some [readPublicKeyFile parse_key fs (sh_Cert c)]
                  else None)
      in case auth of
           None \<Rightarrow> (c, [])
         | Some auth \<Rightarrow>
             let ssh_config = \<lparr>sg_User = sh_User c, sg_Auth = auth, sg_Timeout = DEFAULT_TIMEOUT\<rparr>
             in case dial (sh_Ip c @ '':'' @ int_digits (sh_Port c)) ssh_config of
                  None \<Rightarrow> (c, [])
                | Some client \<Rightarrow>
                    (case new_session client of
                       None \<Rightarrow> (c, [client])
                     | Some session \<Rightarrow> (c\<lparr>sh_session := Some session, sh_client := Some client\<rparr>, [])))"

text \<open>What is printed.\<close>

definition ssh_RunCmd :: "('s \<Rightarrow> string \<Rightarrow> string \<times> string option) \<Rightarrow> string \<Rightarrow> ('s, 'c) ssh \<Rightarrow> string list go" where
  "ssh_RunCmd run cmd c =
     (case sh_session c of
        None \<Rightarrow> Panic NilDereference
      | Some s \<Rightarrow>
          (case run s cmd of
             (out, Some err) \<Rightarrow> Ret [err, out]
           | (out, None) \<Rightarrow> Ret [out]))"

definition ssh_Close :: "('s, 'c) ssh \<Rightarrow> ('s \<times> 'c) go" where
  "ssh_Close c =
     (case (sh_session c, sh_client c) of
        (Some s, Some cl) \<Rightarrow> Ret (s, cl)
      | _ \<Rightarrow> Panic NilDereference)"

text \<open>Session and client are set together.\<close>

definition ssh_paired :: "('s, 'c) ssh \<Rightarrow> bool" where
  "ssh_paired c \<longleftrightarrow> (sh_session c = None) = (sh_client c = None)"

lemma ssh_Connect_paired: "ssh_paired c \<Longrightarrow> ssh_Connect pk dial ns fs mode c = (c', cl) \<Longrightarrow> ssh_paired c'"
  by (auto simp: ssh_Connect_def ssh_paired_def Let_def split: option.splits if_splits)

text \<open>
  \<open>Connect\<close> has no result: after one that failed, for whatever reason, the commands of the example
  in the file panic. No connection is left open by a failure.
\<close>

theorem ssh_failed_connect:
  assumes "sh_session c = None" "sh_client c = None" "ssh_Connect pk dial ns fs mode c = (c', closed)"
  shows "(\<exists>cl s. sh_client c' = Some cl \<and> sh_session c' = Some s \<and> ns cl = Some s \<and> ssh_Close c' = Ret (s, cl) \<and> closed = []) \<or>
    ssh_RunCmd run cmd c' = Panic NilDereference \<and> ssh_Close c' = Panic NilDereference \<and>
    (\<forall>cl. mode = CERT_PASSWORD \<and>
       dial (sh_Ip c @ '':'' @ int_digits (sh_Port c)) \<lparr>sg_User = sh_User c, sg_Auth = [AuthPassword (sh_Cert c)], sg_Timeout = DEFAULT_TIMEOUT\<rparr>
         = Some cl \<longrightarrow> closed = [cl])"
  using assms
  by (auto simp: ssh_Connect_def ssh_RunCmd_def ssh_Close_def Let_def split: option.splits if_splits)

end
