(* ===== verification/Client.thy ===== *)
theory Client
  imports Subscribe_Node
begin

text \<open>
  \<^verbatim>\<open>src/library/client/tcp.go\<close>: the library a subscriber uses. It keeps a map of servers, connects
  to the one with the fewest connections, registers its topics and hands the events it receives
  to its callbacks. The commands are those of the server (the source repeats the constants).

  Arguments: \<open>uj\<close> is \<open>json.Unmarshal\<close> into a map, \<open>dial\<close> the outcome of resolving and dialling an
  address, and \<open>ord\<close> the order in which Go ranges over the map of servers.
\<close>

subsection \<open>State\<close>

definition cl_hasCmd :: "int64 \<Rightarrow> bool" where
  "cl_hasCmd cmd \<longleftrightarrow>
     cmd = CMD_SET_PRO \<or> cmd = CMD_AUTH \<or> cmd = CMD_ERROR \<or> cmd = CMD_TICK \<or> cmd = CMD_EVENT \<or>
     cmd = CMD_AGENT \<or> cmd = CMD_STOP \<or> cmd = CMD_RELOAD \<or> cmd = CMD_SHOW_MEMBERS \<or> cmd = CMD_POS"

definition clientOffline :: int where "clientOffline = 1"
definition clientOnline :: int where "clientOnline = 2"
definition nodeOffline :: int where "nodeOffline = 1"
definition nodeOnline :: int where "nodeOnline = 2"

interpretation cl_status_flags: flag_pair clientOffline 0 clientOnline 1
  by unfold_locales (simp_all add: clientOffline_def clientOnline_def)

interpretation cl_node_flags: flag_pair nodeOffline 0 nodeOnline 1
  by unfold_locales (simp_all add: nodeOffline_def nodeOnline_def)

lemmas cl_flags = cl_status_flags.pair_simps cl_node_flags.pair_simps

record server_node =
  sr_offline :: bool
  sr_host :: string
  sr_port :: int
  sr_connects :: int64

record client_node =
  nd_conn :: "conn option"
  nd_status :: int

record ('j, 'w) client =
  cl_node :: "client_node option"
  cl_buffer :: bytes
  cl_startTime :: int64
  cl_Services :: "string \<Rightarrow> server_node option"
  cl_times :: int64
  cl_status :: int
  cl_onevent :: "('j \<Rightarrow> 'w \<Rightarrow> 'w go) list"
  cl_topics :: "string list"
  cl_consulAddress :: string
  cl_getConnects :: "string \<Rightarrow> int \<Rightarrow> int64 go"
  cl_world :: 'w

definition client_init :: "int64 \<Rightarrow> 'w \<Rightarrow> ('j, 'w) client" where
  "client_init now w =
     \<lparr>cl_node = None, cl_buffer = [], cl_startTime = now, cl_Services = (\<lambda>_. None), cl_times = 0,
      cl_status = clientOffline, cl_onevent = [], cl_topics = [], cl_consulAddress = '''',
      cl_getConnects = (\<lambda>_ _. Ret 0), cl_world = w\<rparr>"

definition OnEventOption :: "('j \<Rightarrow> 'w \<Rightarrow> 'w go) \<Rightarrow> ('j, 'w) client \<Rightarrow> ('j, 'w) client go" where
  "OnEventOption f c = Ret (c\<lparr>cl_onevent := cl_onevent c @ [f]\<rparr>)"

definition SetServices :: "string list \<Rightarrow> ('j, 'w) client \<Rightarrow> ('j, 'w) client go" where
  "SetServices ss c =
     go_foldM (\<lambda>c s.
       let temp = split_on (CHR '':'') s in
       go_bind (go_index temp 0) (\<lambda>host.
       go_bind (go_index temp 1) (\<lambda>p.
         let port = fst (ParseInt 64 p)
         in Ret (c\<lparr>cl_Services := (cl_Services c)(s \<mapsto>
              \<lparr>sr_offline = False, sr_host = host, sr_port = port, sr_connects = 0\<rparr>)\<rparr>)))) c ss"

definition SetConsulAddress :: "string \<Rightarrow> ('j, 'w) client \<Rightarrow> ('j, 'w) client go" where
  "SetConsulAddress a c = Ret (c\<lparr>cl_consulAddress := a\<rparr>)"

subsection \<open>Frames\<close>

definition cl_pack :: "int64 \<Rightarrow> string \<Rightarrow> bytes" where
  "cl_pack cmd content =
     (let c = bytes_of content;
          l = length c + 2;
          r = replicate (l + 4) 0;
          r = r[0 := go_byte (of_nat l) 0];
          r = r[1 := go_byte (of_nat l) 8];
          r = r[2 := go_byte (of_nat l) 16];
          r = r[3 := go_byte (of_nat l) 32];
          r = r[4 := go_byte cmd 0];
          r = r[5 := go_byte cmd 8]
      in take 6 r @ c)"

definition cl_setPro :: "string \<Rightarrow> bytes" where
  "cl_setPro content =
     (let c = bytes_of content;
          l = length c + 3;
          r = replicate (l + 4) 0;
          r = r[0 := go_byte (of_nat l) 0];
          r = r[1 := go_byte (of_nat l) 8];
          r = r[2 := go_byte (of_nat l) 16];
          r = r[3 := go_byte (of_nat l) 32];
          r = r[4 := go_byte CMD_SET_PRO 0];
          r = r[5 := go_byte CMD_SET_PRO 8];
          r = r[6 := 0]
      in take 7 r @ c)"

subsection \<open>Connecting\<close>

text \<open>A write on the node's connection; a connection that was never made (nil) is an error.\<close>

definition cl_write :: "bytes \<Rightarrow> client_node \<Rightarrow> client_node \<times> (net_error + nat)" where
  "cl_write data n =
     (case nd_conn n of
        None \<Rightarrow> (n, Inl WriteError)
      | Some c \<Rightarrow> let (c', r) = conn_write c data in (n\<lparr>nd_conn := Some c'\<rparr>, r))"

definition cl_disconnect :: "('j, 'w) client \<Rightarrow> ('j, 'w) client" where
  "cl_disconnect c =
     (case cl_node c of
        None \<Rightarrow> c
      | Some n \<Rightarrow>
          if has_flag (nd_status n) nodeOffline then c
          else let n = n\<lparr>nd_conn := map_option conn_close (nd_conn n)\<rparr>;
                   n = (if has_flag (nd_status n) nodeOnline
                        then n\<lparr>nd_status := (nd_status n XOR nodeOnline) OR nodeOffline\<rparr> else n)
               in c\<lparr>cl_node := Some n\<rparr>)"

datatype dial_result = ResolveError | DialError | Dialed conn

definition cl_connect ::
    "(string \<Rightarrow> dial_result) \<Rightarrow> server_node \<Rightarrow> ('j, 'w) client \<Rightarrow> ('j, 'w) client" where
  "cl_connect dial server c =
     (let c = (case cl_node c of
                 Some n \<Rightarrow> if has_flag (nd_status n) nodeOnline then cl_disconnect c else c
               | None \<Rightarrow> c);
          dns = sr_host server @ '':'' @ int_digits (sr_port server)
      in case dial dns of
           ResolveError \<Rightarrow> c
         | DialError \<Rightarrow>
             c\<lparr>cl_node := Some \<lparr>nd_conn = None, nd_status = (nodeOnline XOR nodeOnline) OR nodeOffline\<rparr>\<rparr>
         | Dialed conn \<Rightarrow>
             let c = (if has_flag (cl_status c) clientOffline
                      then c\<lparr>cl_status := (cl_status c XOR clientOffline) OR clientOnline\<rparr> else c);
                 n = foldl (\<lambda>n t. fst (cl_write (cl_setPro t) n))
                       \<lparr>nd_conn = Some conn, nd_status = nodeOnline\<rparr> (cl_topics c)
             in c\<lparr>cl_node := Some n\<rparr>)"

fun topic_subscribed :: "string list \<Rightarrow> string \<Rightarrow> bool" where
  "topic_subscribed [] t = False"
| "topic_subscribed (st # sts) t = (if st = t then True else topic_subscribed sts t)"

definition cl_Subscribe :: "string list \<Rightarrow> ('j, 'w) client \<Rightarrow> ('j, 'w) client" where
  "cl_Subscribe topics c =
     (case cl_node c of
        None \<Rightarrow> c
      | Some n0 \<Rightarrow>
          foldl (\<lambda>c t.
            if topic_subscribed (cl_topics c) t then c
            else c\<lparr>cl_topics := cl_topics c @ [t],
                   cl_node := map_option (\<lambda>n. fst (cl_write (cl_setPro t) n)) (cl_node c)\<rparr>) c topics)"

definition cl_Close :: "('j, 'w) client \<Rightarrow> ('j, 'w) client" where
  "cl_Close c =
     (if has_flag (cl_status c) clientOffline then c
      else let c = cl_disconnect c
           in if has_flag (cl_status c) clientOnline
              then c\<lparr>cl_status := (cl_status c XOR clientOnline) OR clientOffline\<rparr> else c)"

text \<open>One turn of the heartbeat goroutine.\<close>

definition cl_keepalive_turn :: "('j, 'w) client \<Rightarrow> ('j, 'w) client" where
  "cl_keepalive_turn c =
     (case cl_node c of
        None \<Rightarrow> c
      | Some n \<Rightarrow>
          if nd_conn n \<noteq> None \<and> has_flag (nd_status n) nodeOnline
          then let (n', r) = cl_write (cl_pack CMD_TICK '''') n;
                   c = c\<lparr>cl_node := Some n'\<rparr>
               in case r of Inl _ \<Rightarrow> cl_disconnect c | Inr _ \<Rightarrow> c
          else c)"

subsection \<open>Choice of a server\<close>

definition set_connects :: "string \<Rightarrow> int64 \<Rightarrow> ('j, 'w) client \<Rightarrow> ('j, 'w) client" where
  "set_connects k v c =
     c\<lparr>cl_Services := (cl_Services c)(k := map_option (\<lambda>s. s\<lparr>sr_connects := v\<rparr>) (cl_Services c k))\<rparr>"

fun first_server ::
    "string list \<Rightarrow> ('j, 'w) client \<Rightarrow> (('j, 'w) client \<times> string option) go" where
  "first_server [] c = Ret (c, None)"
| "first_server (k # ks) c =
     (case cl_Services c k of
        None \<Rightarrow> first_server ks c
      | Some server \<Rightarrow>
          if sr_offline server then first_server ks c
          else go_bind (cl_getConnects c (sr_host server) (sr_port server)) (\<lambda>v.
                 Ret (set_connects k v c, Some k)))"

definition connects_of :: "('j, 'w) client \<Rightarrow> string \<Rightarrow> int64" where
  "connects_of c k = (case cl_Services c k of None \<Rightarrow> 0 | Some s \<Rightarrow> sr_connects s)"

fun min_server ::
    "string list \<Rightarrow> ('j, 'w) client \<times> string option \<Rightarrow> (('j, 'w) client \<times> string option) go" where
  "min_server [] (c, cur) = Ret (c, cur)"
| "min_server (k # ks) (c, cur) =
     (case cl_Services c k of
        None \<Rightarrow> min_server ks (c, cur)
      | Some server \<Rightarrow>
          if sr_offline server then min_server ks (c, cur)
          else go_bind (cl_getConnects c (sr_host server) (sr_port server)) (\<lambda>v.
                 let c = set_connects k v c
                 in case cur of
                      None \<Rightarrow> Panic NilDereference
                    | Some m \<Rightarrow> min_server ks (c, if v < connects_of c m then Some k else cur)))"

text \<open>\<open>ord1\<close> and \<open>ord2\<close>: the orders of the two loops.\<close>

definition cl_getServer ::
    "string list \<Rightarrow> string list \<Rightarrow> ('j, 'w) client \<Rightarrow> (('j, 'w) client \<times> string option) go" where
  "cl_getServer ord1 ord2 c =
     (if ord1 = [] then Ret (c, None)
      else go_bind (first_server ord1 c) (min_server ord2))"

subsection \<open>Receiving\<close>

definition cl_switch :: "(bytes \<Rightarrow> 'j) \<Rightarrow> ('j, 'w) client \<Rightarrow> int64 \<Rightarrow> bytes \<Rightarrow> (('j, 'w) client \<times> bool) go" where
  "cl_switch uj c cmd dataB =
     (if cmd = CMD_EVENT then
        let c = c\<lparr>cl_times := cl_times c + 1\<rparr>;
            data = uj dataB
        in go_bind (go_foldM (\<lambda>w f. f data w) (cl_world c) (cl_onevent c)) (\<lambda>w.
             Ret (c\<lparr>cl_world := w\<rparr>, False))
      else if cmd \<in> {CMD_SET_PRO, CMD_AUTH, CMD_ERROR, CMD_TICK, CMD_AGENT, CMD_STOP, CMD_RELOAD,
                     CMD_SHOW_MEMBERS, CMD_POS} then Ret (c, False)
      else Ret (c, True))"

lemma cl_switch_buffer: "cl_switch uj c cmd d = Ret (c', b) \<Longrightarrow> cl_buffer c' = cl_buffer c"
  by (auto simp: cl_switch_def Let_def split: if_splits)

function cl_loop :: "(bytes \<Rightarrow> 'j) \<Rightarrow> ('j, 'w) client \<Rightarrow> ('j, 'w) client go" where
  "cl_loop uj c =
     (let bufferLen = length (cl_buffer c) in
      if bufferLen < 6 then Ret c
      else let contentLen = hdr_clen (cl_buffer c); cmd = hdr_cmd (cl_buffer c) in
      if \<not> cl_hasCmd cmd then Ret (c\<lparr>cl_buffer := []\<rparr>)
      else if int bufferLen < 4 + contentLen then Ret c
      else go_bind (go_slice (cl_buffer c) 6 (4 + contentLen)) (\<lambda>dataB.
        go_bind (cl_switch uj c cmd dataB) (\<lambda>(c', unsupported).
          if unsupported then Ret (c'\<lparr>cl_buffer := []\<rparr>)
          else cl_loop uj (c'\<lparr>cl_buffer := drop (nat (contentLen + 4)) (cl_buffer c')\<rparr>))))"
  by pat_completeness auto
termination
  by (relation "measure (\<lambda>(uj, c). length (cl_buffer c))")
    (auto simp: go_slice_Ret dest: cl_switch_buffer)

declare cl_loop.simps [simp del]

definition cl_onMessage :: "(bytes \<Rightarrow> 'j) \<Rightarrow> ('j, 'w) client \<Rightarrow> bytes \<Rightarrow> ('j, 'w) client go" where
  "cl_onMessage uj c msg = cl_loop uj (c\<lparr>cl_buffer := cl_buffer c @ msg\<rparr>)"

text \<open>
  One turn of the outer loop of \<open>start\<close>: choose a server, connect, and handle the reads until one
  fails. The result says whether the loop goes on.
\<close>

definition set_offline :: "string \<Rightarrow> ('j, 'w) client \<Rightarrow> ('j, 'w) client" where
  "set_offline k c =
     c\<lparr>cl_Services := (cl_Services c)(k := map_option (\<lambda>s. s\<lparr>sr_offline := True\<rparr>) (cl_Services c k))\<rparr>"

definition not_connected :: "('j, 'w) client \<Rightarrow> bool" where
  "not_connected c \<longleftrightarrow>
     (case cl_node c of None \<Rightarrow> True | Some n \<Rightarrow> nd_conn n = None \<or> has_flag (nd_status n) nodeOffline)"

definition cl_start_turn ::
    "(bytes \<Rightarrow> 'j) \<Rightarrow> (string \<Rightarrow> dial_result) \<Rightarrow> string list \<Rightarrow> string list \<Rightarrow> bytes list
       \<Rightarrow> ('j, 'w) client \<Rightarrow> (('j, 'w) client \<times> bool) go" where
  "cl_start_turn uj dial ord1 ord2 reads c =
     go_bind (cl_getServer ord1 ord2 c) (\<lambda>(c, k).
       case k of
         None \<Rightarrow> Ret (c, True)
       | Some k \<Rightarrow>
           case cl_Services c k of
             None \<Rightarrow> Ret (c, True)
           | Some server \<Rightarrow>
               let c = cl_connect dial server c
               in if not_connected c then Ret (c, True)
                  else if has_flag (cl_status c) clientOffline then Ret (c, False)
                  else go_bind (go_foldM (cl_onMessage uj) c reads) (\<lambda>c.
                         Ret (set_offline k (cl_disconnect c), True)))"

subsection \<open>Frames: lemmas\<close>

lemma cl_pack_eq: "cl_pack cmd s =
    [go_byte (of_nat (length s + 2)) 0, go_byte (of_nat (length s + 2)) 8, go_byte (of_nat (length s + 2)) 16,
     go_byte (of_nat (length s + 2)) 32] @ le_enc 2 cmd @ bytes_of s"
proof -
  have "replicate (length s + 6) (0 :: byte) = 0 # 0 # 0 # 0 # 0 # 0 # replicate (length s) 0"
    by (simp add: eval_nat_numeral)
  then show ?thesis
    unfolding cl_pack_def Let_def go_bytes_2 [symmetric] by (simp add: eval_nat_numeral)
qed

lemma cl_setPro_eq: "cl_setPro s =
    [go_byte (of_nat (length s + 3)) 0, go_byte (of_nat (length s + 3)) 8, go_byte (of_nat (length s + 3)) 16,
     go_byte (of_nat (length s + 3)) 32] @ le_enc 2 CMD_SET_PRO @ 0 # bytes_of s"
proof -
  have "replicate (length s + 7) (0 :: byte) = 0 # 0 # 0 # 0 # 0 # 0 # 0 # replicate (length s) 0"
    by (simp add: eval_nat_numeral)
  then show ?thesis
    unfolding cl_setPro_def Let_def go_bytes_2 [symmetric] by (simp add: eval_nat_numeral)
qed

text \<open>The fourth byte is taken from bit 32 on instead of bit 24; both are 0 for short contents.\<close>

lemma byte_high_zero:
  assumes "n < 2 ^ m" and "m \<le> k" and "k \<le> 56"
  shows "go_byte (of_nat n) k = 0"
proof -
  have "take_bit m n = n" using assms(1) by (simp add: take_bit_nat_eq_self)
  then have "take_bit m (of_nat n :: int64) = of_nat n" by (simp add: take_bit_of_nat)
  then have "drop_bit k (of_nat n :: int64) = 0"
    using assms(2) by (metis diff_is_0_eq drop_bit_take_bit take_bit_0)
  then show ?thesis using assms(3) by (simp add: go_byte_drop)
qed

lemma short_header:
  assumes "n < 2 ^ 24"
  shows "[go_byte (of_nat n) 0, go_byte (of_nat n) 8, go_byte (of_nat n) 16, go_byte (of_nat n) 32] =
    le_enc 4 (of_nat n)"
  using go_bytes_4 [of "of_nat n"] byte_high_zero [OF assms, of 24] byte_high_zero [OF assms, of 32] by simp

lemma cl_pack_Pack: "length s + 2 < 2 ^ 24 \<Longrightarrow> cl_pack cmd s = Pack cmd (bytes_of s)"
  unfolding cl_pack_eq Pack_eq by (subst short_header) simp_all

lemma cl_setPro_Pack: "length s + 3 < 2 ^ 24 \<Longrightarrow> cl_setPro s = Pack CMD_SET_PRO (0 # bytes_of s)"
proof -
  assume "length s + 3 < 2 ^ 24"
  moreover have "length (0 # bytes_of s) + 2 = length s + 3" by simp
  ultimately show ?thesis unfolding cl_setPro_eq Pack_eq by (simp only: short_header)
qed

lemma cl_setPro_header:
  assumes "length s + 3 < 2 ^ 32"
  shows "hdr_clen (cl_setPro s) = int ((length s + 3) mod 2 ^ 24)"
proof -
  let ?l = "of_nat (length s + 3) :: int64"
  have len: "unat ?l = length s + 3" using assms by (simp only: unat_of_nat) (simp add: take_bit_nat_eq_self)
  moreover have z: "go_byte ?l 32 = 0" using byte_high_zero [OF assms, of 32] by simp
  ultimately have take4: "take 4 (cl_setPro s) = [go_byte ?l 0, go_byte ?l 8, go_byte ?l 16, 0]"
    unfolding cl_setPro_eq by (simp add: z)
  have "le_dec [a, b, c, 0] = le_dec [a, b, c]" for a b c by simp
  moreover have "[go_byte ?l 0, go_byte ?l 8, go_byte ?l 16] = le_enc 3 ?l"
    by (simp add: go_byte_drop numeral_3_eq_3 drop_bit_drop_bit)
  ultimately have "le_dec [go_byte ?l 0, go_byte ?l 8, go_byte ?l 16, 0] = take_bit (8 * 3) ?l"
    by (simp only: le_dec_enc)
  then have "unat (le_dec (take 4 (cl_setPro s))) = take_bit (8 * 3) (length s + 3)"
    by (simp only: take4 unsigned_take_bit_eq len)
  then show ?thesis
    using hdr_clen_le_dec [of "cl_setPro s"] by (simp add: cl_setPro_eq take_bit_eq_mod del: of_nat_unat)
qed

subsection \<open>The client is a frame reader\<close>

definition cl_accepts :: "int64 \<times> bytes \<Rightarrow> bool" where
  "cl_accepts f \<longleftrightarrow> frame_fits f \<and> cl_hasCmd (fst f)"

definition cl_handle :: "(bytes \<Rightarrow> 'j) \<Rightarrow> ('j, 'w) client \<Rightarrow> int64 \<times> bytes \<Rightarrow> ('j, 'w) client go" where
  "cl_handle uj c f = go_bind (cl_switch uj c (fst f) (snd f)) (\<lambda>(c', _). Ret c')"

lemma cl_switch_accepted: "cl_accepts f \<Longrightarrow> cl_switch uj c (fst f) (snd f) = Ret (c', d) \<Longrightarrow> \<not> d"
  by (auto simp: cl_accepts_def cl_hasCmd_def cl_switch_def Let_def split: if_splits)

lemma cl_handle_set_buffer:
  "cl_handle uj (c\<lparr>cl_buffer := b\<rparr>) f = go_bind (cl_handle uj c f) (\<lambda>c'. Ret (c'\<lparr>cl_buffer := b\<rparr>))"
proof -
  have upd: "c\<lparr>cl_buffer := b, cl_times := t, cl_world := x\<rparr> = c\<lparr>cl_times := t, cl_world := x, cl_buffer := b\<rparr>"
    for t x by simp
  show ?thesis
    by (cases "fst f = CMD_EVENT") (simp_all add: cl_handle_def cl_switch_def Let_def go_simps upd)
qed

lemma cl_loop_waits:
  assumes "cl_accepts f" and "strict_prefix (cl_buffer c) (enc_frame f)"
  shows "cl_loop uj c = Ret c"
  using assms partial_header [of f "cl_buffer c"]
  by (subst cl_loop.simps) (auto simp: Let_def cl_accepts_def add.commute)

lemma cl_loop_consumes:
  assumes "cl_accepts f" and "cl_buffer c = enc_frame f @ rest"
  shows "cl_loop uj c = go_bind (cl_handle uj c f) (\<lambda>c'. cl_loop uj (c'\<lparr>cl_buffer := rest\<rparr>))"
proof -
  have fits: "frame_fits f" and cmd: "cl_hasCmd (fst f)" using assms(1) by (simp_all add: cl_accepts_def)
  note h = whole_header [OF fits assms(2)]
  have "cl_loop uj c = go_bind (cl_switch uj c (fst f) (snd f)) (\<lambda>(c', unsupported).
      if unsupported then Ret (c'\<lparr>cl_buffer := []\<rparr>)
      else cl_loop uj (c'\<lparr>cl_buffer := drop (nat (hdr_clen (cl_buffer c) + 4)) (cl_buffer c')\<rparr>))"
    using h(1,3,4,5) cmd by (subst cl_loop.simps) (simp add: Let_def add.commute)
  also have "\<dots> = go_bind (cl_switch uj c (fst f) (snd f)) (\<lambda>(c', _). cl_loop uj (c'\<lparr>cl_buffer := rest\<rparr>))"
  proof (rule go_bind_cong_Ret)
    fix x
    assume x: "cl_switch uj c (fst f) (snd f) = Ret x"
    obtain c' d where "x = (c', d)" by (cases x)
    with x cl_switch_accepted [OF assms(1)] cl_switch_buffer h(6)
    show "(case x of (c', unsupported) \<Rightarrow> if unsupported then Ret (c'\<lparr>cl_buffer := []\<rparr>)
        else cl_loop uj (c'\<lparr>cl_buffer := drop (nat (hdr_clen (cl_buffer c) + 4)) (cl_buffer c')\<rparr>)) =
      (case x of (c', _) \<Rightarrow> cl_loop uj (c'\<lparr>cl_buffer := rest\<rparr>))"
      by fastforce
  qed
  finally show ?thesis by (simp add: cl_handle_def go_simps case_prod_beta')
qed

interpretation cl_reader: frame_reader
  cl_buffer "\<lambda>b c. c\<lparr>cl_buffer := b\<rparr>" cl_accepts "cl_handle (uj :: bytes \<Rightarrow> 'j)" "cl_loop uj" "cl_onMessage uj"
proof unfold_locales
  fix c :: "('j, 'w) client"
  assume "cl_buffer c = []"
  then show "cl_loop uj c = Ret c" by (subst cl_loop.simps) (simp add: Let_def)
qed (simp_all add: cl_handle_set_buffer cl_loop_consumes cl_loop_waits cl_onMessage_def)

subsection \<open>Choice of a server: lemmas\<close>

definition online_keys :: "('j, 'w) client \<Rightarrow> string set" where
  "online_keys c = {k. \<exists>s. cl_Services c k = Some s \<and> \<not> sr_offline s}"

text \<open>\<open>L k\<close> is the number of connections reported for the server \<open>k\<close>.\<close>

definition loads :: "('j, 'w) client \<Rightarrow> (string \<Rightarrow> int64) \<Rightarrow> bool" where
  "loads c L \<longleftrightarrow> (\<forall>k s. cl_Services c k = Some s \<longrightarrow> \<not> sr_offline s \<longrightarrow>
     cl_getConnects c (sr_host s) (sr_port s) = Ret (L k))"

lemma set_connects_keeps [simp]:
  "online_keys (set_connects k v c) = online_keys c"
  "loads (set_connects k v c) L = loads c L"
  by (auto simp: set_connects_def online_keys_def loads_def)

lemma connects_of_set: "k \<in> online_keys c \<Longrightarrow> connects_of (set_connects k v c) j = (if j = k then v else connects_of c j)"
  by (auto simp: set_connects_def connects_of_def online_keys_def split: option.split)

lemma first_server_spec:
  "loads c L \<Longrightarrow>
     (set ks \<inter> online_keys c = {} \<longrightarrow> first_server ks c = Ret (c, None)) \<and>
     (set ks \<inter> online_keys c \<noteq> {} \<longrightarrow> (\<exists>k. k \<in> online_keys c \<and> first_server ks c = Ret (set_connects k (L k) c, Some k)))"
proof (induction ks)
  case Nil
  then show ?case by simp
next
  case (Cons k ks)
  show ?case
  proof (cases "k \<in> online_keys c")
    case True
    then obtain s where "cl_Services c k = Some s" "\<not> sr_offline s" by (auto simp: online_keys_def)
    with Cons.prems True show ?thesis by (auto simp: loads_def)
  next
    case False
    then have "first_server (k # ks) c = first_server ks c"
      by (auto simp: online_keys_def split: option.split)
    with False Cons show ?thesis by auto
  qed
qed

lemma min_server_spec:
  assumes "loads c L" and "m \<in> online_keys c" and "connects_of c m = L m"
  shows "\<exists>c' m'. min_server ks (c, Some m) = Ret (c', Some m') \<and> m' \<in> online_keys c \<and>
    L m' \<le> L m \<and> (\<forall>k \<in> set ks \<inter> online_keys c. L m' \<le> L k)"
  using assms
proof (induction ks arbitrary: c m)
  case Nil
  then show ?case by auto
next
  case (Cons k ks)
  show ?case
  proof (cases "k \<in> online_keys c")
    case True
    then obtain s where s: "cl_Services c k = Some s" "\<not> sr_offline s" by (auto simp: online_keys_def)
    let ?c = "set_connects k (L k) c"
    let ?m = "if L k < connects_of ?c m then k else m"
    have m: "connects_of ?c m = L m" using True Cons.prems(3) by (simp add: connects_of_set)
    have step: "min_server (k # ks) (c, Some m) = min_server ks (?c, Some ?m)"
      using s Cons.prems(1) by (simp add: loads_def Let_def)
    have "?m \<in> online_keys ?c" "connects_of ?c ?m = L ?m"
      using True Cons.prems(2,3) by (simp_all add: connects_of_set)
    from Cons.IH [OF _ this] Cons.prems(1) obtain c' m' where
      "min_server ks (?c, Some ?m) = Ret (c', Some m')" "m' \<in> online_keys c" "L m' \<le> L ?m"
      "\<forall>j \<in> set ks \<inter> online_keys c. L m' \<le> L j" by auto
    moreover from this(3) have "L m' \<le> L m \<and> L m' \<le> L k" using m by (auto split: if_splits)
    ultimately show ?thesis using step by auto
  next
    case False
    then have "min_server (k # ks) (c, Some m) = min_server ks (c, Some m)"
      by (auto simp: online_keys_def split: option.split)
    with Cons.IH [OF Cons.prems] False show ?thesis by auto
  qed
qed

lemma min_server_none: "set ks \<inter> online_keys c = {} \<Longrightarrow> min_server ks (c, None) = Ret (c, None)"
proof (induction ks)
  case Nil
  then show ?case by simp
next
  case (Cons k ks)
  then have "k \<notin> online_keys c" by simp
  then have "min_server (k # ks) (c, None) = min_server ks (c, None)"
    by (auto simp: online_keys_def split: option.split)
  with Cons show ?case by simp
qed

text \<open>A server that is offline is never chosen and stays offline.\<close>

definition off_at :: "string \<Rightarrow> ('j, 'w) client \<Rightarrow> bool" where
  "off_at k c \<longleftrightarrow> (\<exists>s. cl_Services c k = Some s \<and> sr_offline s)"

lemma off_at_set_connects [simp]: "off_at k (set_connects j v c) = off_at k c"
  by (auto simp: off_at_def set_connects_def)

lemma first_server_off: "first_server ks c = Ret (c', r) \<Longrightarrow> off_at k c \<Longrightarrow> off_at k c' \<and> r \<noteq> Some k"
proof (induction ks arbitrary: c)
  case Nil
  then show ?case by simp
next
  case (Cons j ks)
  then show ?case
    by (cases "j = k") (auto simp: off_at_def [of k c] split: option.splits if_splits)
qed

lemma min_server_off:
  "min_server ks (c, cur) = Ret (c', r) \<Longrightarrow> off_at k c \<Longrightarrow> cur \<noteq> Some k \<Longrightarrow> off_at k c' \<and> r \<noteq> Some k"
proof (induction ks arbitrary: c cur)
  case Nil
  then show ?case by simp
next
  case (Cons j ks)
  show ?case
  proof (cases "j \<in> online_keys c")
    case False
    then have "min_server (j # ks) (c, cur) = min_server ks (c, cur)"
      by (auto simp: online_keys_def split: option.split)
    with Cons show ?thesis by auto
  next
    case True
    then have "j \<noteq> k" using Cons.prems(2) by (auto simp: off_at_def online_keys_def)
    from True obtain s where s: "cl_Services c j = Some s" "\<not> sr_offline s" by (auto simp: online_keys_def)
    with Cons.prems(1) obtain v m where "cur = Some m"
      "min_server ks (set_connects j v c, if v < connects_of (set_connects j v c) m then Some j else cur) = Ret (c', r)"
      by (auto simp: Let_def split: option.splits)
    with Cons.IH [OF this(2)] Cons.prems(2,3) \<open>j \<noteq> k\<close> show ?thesis by auto
  qed
qed

lemma getServer_off: "cl_getServer o1 o2 c = Ret (c', r) \<Longrightarrow> off_at k c \<Longrightarrow> off_at k c' \<and> r \<noteq> Some k"
  by (auto simp: cl_getServer_def split: if_splits dest: first_server_off min_server_off)

lemma cl_switch_services: "cl_switch uj c cmd d = Ret (c', b) \<Longrightarrow> cl_Services c' = cl_Services c"
  by (auto simp: cl_switch_def Let_def split: if_splits)

lemma cl_loop_services: "cl_loop uj c = Ret c' \<Longrightarrow> cl_Services c' = cl_Services c"
proof (induction uj c rule: cl_loop.induct)
  case (1 uj c)
  show ?case
  proof (cases "6 \<le> length (cl_buffer c) \<and> cl_hasCmd (hdr_cmd (cl_buffer c)) \<and>
      \<not> int (length (cl_buffer c)) < 4 + hdr_clen (cl_buffer c)")
    case False
    with "1.prems" show ?thesis by (subst (asm) cl_loop.simps) (auto simp: Let_def split: if_splits)
  next
    case True
    with "1.prems" obtain d c1 b where d: "go_slice (cl_buffer c) 6 (4 + hdr_clen (cl_buffer c)) = Ret d"
      and sw: "cl_switch uj c (hdr_cmd (cl_buffer c)) d = Ret (c1, b)"
      and r: "(if b then Ret (c1\<lparr>cl_buffer := []\<rparr>) else cl_loop uj
        (c1\<lparr>cl_buffer := drop (nat (hdr_clen (cl_buffer c) + 4)) (cl_buffer c1)\<rparr>)) = Ret c'"
      by (subst (asm) cl_loop.simps) (auto simp: Let_def)
    have "b \<or> cl_Services c' = cl_Services c1"
      using "1.IH" [OF refl _ refl refl _ _ d sw refl] True r by auto
    with r cl_switch_services [OF sw] show ?thesis by auto
  qed
qed

lemma off_at_onMessage: "cl_onMessage uj c msg = Ret c' \<Longrightarrow> off_at k c' = off_at k c"
  by (auto simp: cl_onMessage_def off_at_def dest: cl_loop_services)

lemma off_at_others [simp]:
  "off_at k (cl_disconnect c) = off_at k c" "off_at k (cl_connect dial s c) = off_at k c"
  by (auto simp: off_at_def cl_disconnect_def cl_connect_def Let_def split: option.split dial_result.split)

lemma off_at_set_offline: "off_at k c \<Longrightarrow> off_at k (set_offline j c)"
  by (auto simp: off_at_def set_offline_def)

lemma off_at_start_turn: "cl_start_turn uj dial o1 o2 reads c = Ret (c', b) \<Longrightarrow> off_at k c \<Longrightarrow> off_at k c'"
proof -
  assume run: "cl_start_turn uj dial o1 o2 reads c = Ret (c', b)" and off: "off_at k c"
  from run obtain c1 r where r: "cl_getServer o1 o2 c = Ret (c1, r)" by (auto simp: cl_start_turn_def)
  have off1: "off_at k c1" using getServer_off [OF r off] by simp
  show ?thesis
  proof (cases "r = None \<or> cl_Services c1 (the r) = None")
    case True
    with run r off1 show ?thesis by (auto simp: cl_start_turn_def split: option.splits)
  next
    case False
    then obtain j s where j: "r = Some j" "cl_Services c1 j = Some s" by auto
    let ?c2 = "cl_connect dial s c1"
    have "c' = ?c2 \<or> (\<exists>c3. go_foldM (cl_onMessage uj) ?c2 reads = Ret c3 \<and> c' = set_offline j (cl_disconnect c3))"
      using run r j by (auto simp: cl_start_turn_def Let_def split: if_splits)
    moreover have "off_at k c3" if "go_foldM (cl_onMessage uj) ?c2 reads = Ret c3" for c3
      by (rule go_foldM_inv [OF _ _ that]) (use off1 in \<open>auto simp: off_at_onMessage\<close>)
    ultimately show ?thesis using off1 by (auto intro: off_at_set_offline)
  qed
qed

subsection \<open>Properties\<close>

definition demo_client :: "(bytes, bytes list) client" where
  "demo_client = (client_init 0 [])\<lparr>cl_onevent := [\<lambda>d w. Ret (w @ [d])],
     cl_Services := [''a:1'' \<mapsto> \<lparr>sr_offline = False, sr_host = ''a'', sr_port = 1, sr_connects = 0\<rparr>,
                     ''b:2'' \<mapsto> \<lparr>sr_offline = False, sr_host = ''b'', sr_port = 2, sr_connects = 0\<rparr>],
     cl_getConnects := (\<lambda>h p. Ret (if h = ''a'' then 7 else 3))\<rparr>"

text \<open>
  The client hands every event to its callbacks once and in order however the stream is cut
  into reads, and skips the other frames of the protocol.
\<close>

theorem client_reassembly:
  assumes "\<forall>f \<in> set fs. cl_accepts f" and "cl_buffer c = []"
    and "concat chunks = frame_stream fs"
  shows "go_foldM (cl_onMessage uj) c chunks = go_foldM (cl_handle uj) c fs"
  using assms by (rule cl_reader.reassembly_whole)

theorem client_reassembly_witness:
  "go_foldM (cl_onMessage id) demo_client
     [take 5 (enc_frame (CMD_EVENT, [1])), drop 5 (enc_frame (CMD_EVENT, [1])) @ enc_frame (CMD_TICK, [])] =
   go_foldM (cl_handle id) demo_client [(CMD_EVENT, [1]), (CMD_TICK, [])]"
  by (rule client_reassembly)
    (auto simp: cl_accepts_def cl_hasCmd_def frame_fits_def cmd_defs demo_client_def client_init_def)

text \<open>
  C20: The client picks the server with the fewest connections among those it does not hold for
  offline, and none exactly when all are offline, whatever order Go ranges over the map in.
\<close>

theorem least_loaded_server:
  assumes "loads c L" and "set ord1 = dom (cl_Services c)" and "set ord2 = dom (cl_Services c)"
  shows "\<exists>c' r. cl_getServer ord1 ord2 c = Ret (c', r) \<and>
    (case r of None \<Rightarrow> online_keys c = {}
     | Some m \<Rightarrow> m \<in> online_keys c \<and> (\<forall>k \<in> online_keys c. L m \<le> L k))"
proof -
  have sub: "online_keys c \<subseteq> set ord1" "online_keys c \<subseteq> set ord2"
    using assms(2,3) by (auto simp: online_keys_def)
  show ?thesis
  proof (cases "online_keys c = {}")
    case True
    then have "first_server ord1 c = Ret (c, None)" using first_server_spec [OF assms(1), of ord1] by simp
    with True show ?thesis by (auto simp: cl_getServer_def min_server_none)
  next
    case False
    then have "set ord1 \<inter> online_keys c \<noteq> {}" "ord1 \<noteq> []" using sub by auto
    then obtain k where k: "k \<in> online_keys c" "first_server ord1 c = Ret (set_connects k (L k) c, Some k)"
      using first_server_spec [OF assms(1), of ord1] by auto
    let ?c = "set_connects k (L k) c"
    have "loads ?c L" "k \<in> online_keys ?c" "connects_of ?c k = L k"
      using assms(1) k(1) by (simp_all add: connects_of_set)
    from min_server_spec [OF this, of ord2] obtain c' m' where
      "min_server ord2 (?c, Some k) = Ret (c', Some m')" "m' \<in> online_keys c"
      "\<forall>j \<in> set ord2 \<inter> online_keys c. L m' \<le> L j" by auto
    with k \<open>ord1 \<noteq> []\<close> sub show ?thesis by (auto simp: cl_getServer_def)
  qed
qed

theorem least_loaded_server_witness:
  "\<exists>c'. cl_getServer [''a:1'', ''b:2''] [''b:2'', ''a:1''] demo_client = Ret (c', Some ''b:2'')"
proof -
  let ?L = "\<lambda>k. if k = ''a:1'' then 7 else 3 :: int64"
  have "loads demo_client ?L" by (auto simp: loads_def demo_client_def split: if_splits)
  from least_loaded_server [OF this, of "[''a:1'', ''b:2'']" "[''b:2'', ''a:1'']"]
  obtain c' r where r: "cl_getServer [''a:1'', ''b:2''] [''b:2'', ''a:1''] demo_client = Ret (c', r)"
    "case r of None \<Rightarrow> online_keys demo_client = {}
     | Some m \<Rightarrow> m \<in> online_keys demo_client \<and> (\<forall>k \<in> online_keys demo_client. ?L m \<le> ?L k)"
    by (auto simp: demo_client_def)
  have "online_keys demo_client = {''a:1'', ''b:2''}"
    by (auto simp: online_keys_def demo_client_def split: if_splits)
  with r show ?thesis by (auto split: option.splits if_splits)
qed



text \<open>
  The client's own frame writer takes the fourth length byte from bit 32 instead of bit 24. The
  frame it writes for a topic agrees with the protocol below \<open>2 ^ 24\<close> bytes; from there on the length
  field is the length modulo \<open>2 ^ 24\<close>.
\<close>

theorem client_frame_header:
  assumes "length topic + 3 < 2 ^ 32"
  shows "hdr_clen (cl_setPro topic) = int ((length topic + 3) mod 2 ^ 24) \<and>
    (cl_setPro topic = Pack CMD_SET_PRO (0 # bytes_of topic) \<longleftrightarrow> length topic + 3 < 2 ^ 24)"
proof -
  have "length topic + 3 < 2 ^ 24" if "cl_setPro topic = Pack CMD_SET_PRO (0 # bytes_of topic)"
  proof -
    have "hdr_clen (cl_setPro topic) = int (length topic + 3)"
      using hdr_clen_Pack [of "0 # bytes_of topic" CMD_SET_PRO "[]"] assms that by simp
    then have "(length topic + 3) mod 2 ^ 24 = length topic + 3"
      using cl_setPro_header [OF assms] by (metis of_nat_eq_iff)
    then show ?thesis by (metis mod_less_divisor zero_less_numeral zero_less_power)
  qed
  then show ?thesis using cl_setPro_header [OF assms] cl_setPro_Pack [of topic] by blast
qed

theorem client_frame_header_witness:
  "hdr_clen (cl_setPro (replicate (2 ^ 24) CHR ''a'')) = 3 \<and>
   cl_setPro (replicate (2 ^ 24) CHR ''a'') \<noteq> Pack CMD_SET_PRO (0 # bytes_of (replicate (2 ^ 24) CHR ''a''))"
proof -
  have len: "length (replicate (2 ^ 24) CHR ''a'') = 2 ^ 24" by (rule length_replicate)
  have "length (replicate (2 ^ 24) CHR ''a'') + 3 < 2 ^ 32" unfolding len by simp
  from client_frame_header [OF this, unfolded len] show ?thesis by simp
qed

end
