(* ===== verification/Watcher.thy ===== *)
theory Watcher
  imports Client Subscribe_Service
begin

text \<open>
  \<^verbatim>\<open>src/library/client/watcher.go\<close> and the rest of \<open>NewClient\<close>: the client follows the list of healthy
  servers that consul reports and keeps its map of servers in step with it. What consul answers is an
  argument: a list of service entries, or none for an error; \<open>kv\<close> is the lookup of a key, \<open>Inl\<close> an
  error and \<open>Inr None\<close> a key that does not exist.
\<close>

record service_entry =
  se_ID :: string
  se_Address :: string
  se_Port :: int

definition EV_ADD :: int where "EV_ADD = 1"
definition EV_DELETE :: int where "EV_DELETE = 2"

record 'w watcher =
  wa_li :: int64
  wa_addrs :: "service_entry list"
  wa_onChange :: "(string \<Rightarrow> int \<Rightarrow> int \<Rightarrow> 'w \<Rightarrow> 'w) list"
  wa_world :: 'w

definition newWatch :: "'w \<Rightarrow> ('w watcher \<Rightarrow> 'w watcher) list \<Rightarrow> 'w watcher" where
  "newWatch w opts =
     foldl (\<lambda>cw f. f cw) \<lparr>wa_li = 0, wa_addrs = [], wa_onChange = [], wa_world = w\<rparr> opts"

definition onWatch :: "(string \<Rightarrow> int \<Rightarrow> int \<Rightarrow> 'w \<Rightarrow> 'w) \<Rightarrow> 'w watcher \<Rightarrow> 'w watcher" where
  "onWatch f cw = cw\<lparr>wa_onChange := wa_onChange cw @ [f]\<rparr>"

fun entry_found :: "string \<Rightarrow> service_entry list \<Rightarrow> bool" where
  "entry_found i [] = False"
| "entry_found i (vb # b) = (if i = se_ID vb then True else entry_found i b)"

fun getDelete :: "service_entry list \<Rightarrow> service_entry list \<Rightarrow> service_entry list" where
  "getDelete [] b = []"
| "getDelete (va # a) b = (if \<not> entry_found (se_ID va) b then va # getDelete a b else getDelete a b)"

definition fire :: "int \<Rightarrow> service_entry list \<Rightarrow> 'w watcher \<Rightarrow> 'w watcher" where
  "fire event us cw =
     cw\<lparr>wa_world := foldl (\<lambda>w u. foldl (\<lambda>w f. f (se_Address u) (se_Port u) event w) w (wa_onChange cw))
          (wa_world cw) us\<rparr>"

definition dialDelete :: "service_entry list \<Rightarrow> 'w watcher \<Rightarrow> 'w watcher" where
  "dialDelete addrs cw = fire EV_DELETE (getDelete (wa_addrs cw) addrs) cw"

definition dialAdd :: "service_entry list \<Rightarrow> 'w watcher \<Rightarrow> 'w watcher" where
  "dialAdd addrs cw = fire EV_ADD (getDelete addrs (wa_addrs cw)) cw"

text \<open>One turn of \<open>process\<close>: consul's answer is an error or the entries and the index.\<close>

definition process_turn :: "(service_entry list \<times> int64) option \<Rightarrow> 'w watcher \<Rightarrow> 'w watcher" where
  "process_turn answer cw =
     (case answer of
        None \<Rightarrow> cw
      | Some (addrs, li) \<Rightarrow>
          let cw = dialDelete addrs cw;
              cw = dialAdd addrs cw
          in cw\<lparr>wa_addrs := addrs, wa_li := li\<rparr>)"

definition getMembers ::
    "(service_entry list \<times> int64) option \<Rightarrow> 'w watcher \<Rightarrow> 'w watcher \<times> service_entry list" where
  "getMembers answer cw =
     (case answer of
        None \<Rightarrow> (cw, [])
      | Some (c, i) \<Rightarrow> (cw\<lparr>wa_addrs := c, wa_li := i\<rparr>, c))"

text \<open>\<open>binary.LittleEndian.Uint64\<close> reads the eighth byte first, so a short value panics.\<close>

definition getConnects :: "(string \<Rightarrow> string + bytes option) \<Rightarrow> string \<Rightarrow> int \<Rightarrow> int64 go" where
  "getConnects kv ip port =
     (case kv (''connects/'' @ ip @ ''/'' @ int_digits port) of
        Inl err \<Rightarrow> Ret 0
      | Inr None \<Rightarrow> Panic NilDereference
      | Inr (Some v) \<Rightarrow> if length v < 8 then Panic IndexOutOfRange else Ret (le_dec (take 8 v)))"

subsection \<open>The client's side\<close>

definition entry_key :: "string \<Rightarrow> int \<Rightarrow> string" where
  "entry_key ip port = ip @ '':'' @ int_digits port"

definition fresh_server :: "string \<Rightarrow> int \<Rightarrow> server_node" where
  "fresh_server ip port = \<lparr>sr_offline = False, sr_host = ip, sr_port = port, sr_connects = 0\<rparr>"

definition client_onChange ::
    "string \<Rightarrow> int \<Rightarrow> int \<Rightarrow> ('j, 'w) client \<Rightarrow> ('j, 'w) client" where
  "client_onChange ip port event c =
     (let s = entry_key ip port in
      if event = EV_DELETE then c\<lparr>cl_Services := (cl_Services c)(s := None)\<rparr>
      else if event = EV_ADD
      then if cl_Services c s = None
           then c\<lparr>cl_Services := (cl_Services c)(s \<mapsto> fresh_server ip port)\<rparr> else c
      else c)"

definition add_members :: "service_entry list \<Rightarrow> ('j, 'w) client \<Rightarrow> ('j, 'w) client" where
  "add_members members c =
     foldl (\<lambda>c m. let s = entry_key (se_Address m) (se_Port m) in
        if cl_Services c s = None
        then c\<lparr>cl_Services := (cl_Services c)(s \<mapsto> fresh_server (se_Address m) (se_Port m))\<rparr> else c) c members"

text \<open>
  \<open>NewClient\<close> up to the start of its loop: the client, and the watcher when there is one.
\<close>

definition NewClient ::
    "int64 \<Rightarrow> 'w \<Rightarrow> (('j, 'w) client \<Rightarrow> ('j, 'w) client go) list \<Rightarrow> (service_entry list \<times> int64) option
       \<Rightarrow> (string \<Rightarrow> string + bytes option) \<Rightarrow> (('j, 'w) client watcher + ('j, 'w) client) go" where
  "NewClient now w opts answer kv =
     go_bind (go_foldM (\<lambda>c f. f c) (client_init now w) opts) (\<lambda>c.
       if cl_Services c \<noteq> (\<lambda>_. None) then Ret (Inr c)
       else if cl_consulAddress c \<noteq> ''''
       then let cw = newWatch c [onWatch client_onChange];
                (cw, members) = getMembers answer cw;
                c = add_members members (wa_world cw);
                c = c\<lparr>cl_getConnects := getConnects kv\<rparr>
            in Ret (Inl (cw\<lparr>wa_world := c\<rparr>))
       else Panic (LogPanic ''param error''))"

subsection \<open>Lemmas\<close>

lemma entry_found_iff: "entry_found i b \<longleftrightarrow> i \<in> se_ID ` set b"
  by (induction b) auto

lemma getDelete_filter: "getDelete a b = filter (\<lambda>va. se_ID va \<notin> se_ID ` set b) a"
  by (induction a) (auto simp: entry_found_iff)

abbreviation key_of :: "service_entry \<Rightarrow> string" where
  "key_of u \<equiv> entry_key (se_Address u) (se_Port u)"

lemma fire_delete_dom:
  "dom (cl_Services (foldl (\<lambda>w u. client_onChange (se_Address u) (se_Port u) EV_DELETE w) c us)) =
     dom (cl_Services c) - key_of ` set us"
  by (induction us arbitrary: c) (auto simp: client_onChange_def Let_def)

lemma client_onChange_add_dom:
  "dom (cl_Services (client_onChange ip port EV_ADD c)) = insert (entry_key ip port) (dom (cl_Services c))"
  by (auto simp: client_onChange_def Let_def EV_ADD_def EV_DELETE_def)

lemma fire_add_dom:
  "dom (cl_Services (foldl (\<lambda>w u. client_onChange (se_Address u) (se_Port u) EV_ADD w) c us)) =
     dom (cl_Services c) \<union> key_of ` set us"
  by (induction us arbitrary: c) (auto simp: client_onChange_add_dom)

lemma process_turn_dom:
  assumes "wa_onChange cw = [client_onChange]"
  shows "dom (cl_Services (wa_world (process_turn (Some (addrs, li)) cw))) =
    (dom (cl_Services (wa_world cw)) - key_of ` set (getDelete (wa_addrs cw) addrs)) \<union>
    key_of ` set (getDelete addrs (wa_addrs cw))"
  using assms by (simp add: process_turn_def Let_def dialDelete_def dialAdd_def fire_def
      fire_delete_dom fire_add_dom)

lemma process_turn_fields:
  "wa_onChange (process_turn answer cw) = wa_onChange cw"
  "wa_addrs (process_turn (Some (addrs, li)) cw) = addrs"
  by (simp_all add: process_turn_def Let_def dialDelete_def dialAdd_def fire_def split: option.split)

subsection \<open>Properties\<close>

text \<open>
  C21: The client's map of servers follows consul. If ids and addresses correspond one to one in
  the lists consul reports, and the map agrees with the last list, then after a turn of the watcher
  it agrees with the new list: deletions remove exactly the servers that are gone, additions add
  exactly the new ones.
\<close>

theorem watcher_follows_consul:
  assumes "wa_onChange cw = [client_onChange]"
    and "dom (cl_Services (wa_world cw)) = key_of ` set (wa_addrs cw)"
    and "\<And>u v. u \<in> set (wa_addrs cw) \<union> set addrs \<Longrightarrow> v \<in> set (wa_addrs cw) \<union> set addrs \<Longrightarrow>
      se_ID u = se_ID v \<longleftrightarrow> key_of u = key_of v"
  shows "dom (cl_Services (wa_world (process_turn (Some (addrs, li)) cw))) = key_of ` set addrs \<and>
    wa_addrs (process_turn (Some (addrs, li)) cw) = addrs"
proof -
  have del: "key_of ` set (getDelete (wa_addrs cw) addrs) = key_of ` set (wa_addrs cw) - key_of ` set addrs"
    using assms(3) by (auto simp: getDelete_filter image_iff)
  have add: "key_of ` set (getDelete addrs (wa_addrs cw)) = key_of ` set addrs - key_of ` set (wa_addrs cw)"
    using assms(3) by (auto simp: getDelete_filter image_iff)
  show ?thesis
    using process_turn_dom [OF assms(1), of addrs li] assms(2)
    by (auto simp: del add process_turn_fields)
qed

theorem watcher_follows_consul_witness:
  "let u = \<lparr>se_ID = ''x'', se_Address = ''a'', se_Port = 1\<rparr>; v = \<lparr>se_ID = ''y'', se_Address = ''b'', se_Port = 2\<rparr>;
       cw = \<lparr>wa_li = 0, wa_addrs = [u], wa_onChange = [client_onChange],
             wa_world = add_members [u] (client_init 0 () :: (unit, unit) client)\<rparr>
   in dom (cl_Services (wa_world (process_turn (Some ([v], 1)) cw))) = {key_of v}"
proof -
  let ?u = "\<lparr>se_ID = ''x'', se_Address = ''a'', se_Port = 1\<rparr>" and ?v = "\<lparr>se_ID = ''y'', se_Address = ''b'', se_Port = 2\<rparr>"
  let ?cw = "\<lparr>wa_li = 0, wa_addrs = [?u], wa_onChange = [client_onChange],
             wa_world = add_members [?u] (client_init 0 () :: (unit, unit) client)\<rparr>"
  have "dom (cl_Services (wa_world (process_turn (Some ([?v], 1)) ?cw))) = key_of ` set [?v] \<and>
      wa_addrs (process_turn (Some ([?v], 1)) ?cw) = [?v]"
    by (rule watcher_follows_consul) (auto simp: add_members_def client_init_def entry_key_def)
  then show ?thesis by (simp add: Let_def)
qed

text \<open>
  What the server publishes is what the client reads: the value the service puts under its
  connections key gives, on the client's side, the number of connections as an unsigned 64-bit number.
\<close>

theorem published_connects_roundtrip:
  assumes "sv_ServiceHost sev = ip" and "ip \<noteq> ''0.0.0.0''" and "sv_ServicePort sev = port"
    and "kv (connects_key sev) = Inr (Some (le_enc 8 (sv_connects sev)))"
  shows "getConnects kv ip port = Ret (sv_connects sev)"
  using assms by (simp add: getConnects_def connects_key_def publish_ip_def le_dec_enc_8)

theorem published_connects_roundtrip_witness:
  "let sev = \<lparr>sv_ServiceName = ServiceName, sv_ServiceHost = ''h'', sv_ServiceIp = '''', sv_ServicePort = 9996,
       sv_Interval = 0, sv_Ttl = 15, sv_ServiceID = ''i'', sv_status = 1, sv_connects = 42\<rparr>;
       c = updateTtl_turn list_consul sev ''s'' ([], [])
   in getConnects (\<lambda>k. Inr (map_option kv_Value (find (\<lambda>p. kv_Key p = k) (snd c)))) ''h'' 9996 = Ret 42"
proof -
  let ?sev = "\<lparr>sv_ServiceName = ServiceName, sv_ServiceHost = ''h'', sv_ServiceIp = '''', sv_ServicePort = 9996,
       sv_Interval = 0, sv_Ttl = 15, sv_ServiceID = ''i'', sv_status = 1, sv_connects = 42\<rparr>"
  let ?c = "updateTtl_turn list_consul ?sev ''s'' ([], [])"
  have "snd ?c = [\<lparr>kv_Key = connects_key ?sev, kv_Value = le_enc 8 42, kv_Session = ''s''\<rparr>]"
    by (simp add: updateTtl_turn_def list_consul_def Let_def)
  then have "getConnects (\<lambda>k. Inr (map_option kv_Value (find (\<lambda>p. kv_Key p = k) (snd ?c)))) ''h'' 9996 =
      Ret (sv_connects ?sev)"
    by (intro published_connects_roundtrip [of ?sev]) simp_all
  then show ?thesis by (simp add: Let_def)
qed

text \<open>
  A server without a published count stops the client: while the key is missing (the server has
  just registered, or its session expired) reading it dereferences a nil pair, and the goroutine
  that chooses a server panics.
\<close>

theorem missing_count_panics:
  assumes "cl_Services c k = Some s" and "\<not> sr_offline s"
    and "cl_getConnects c = getConnects kv"
    and "kv (''connects/'' @ sr_host s @ ''/'' @ int_digits (sr_port s)) = Inr None"
  shows "cl_getServer (k # ks) ord2 c = Panic NilDereference"
  using assms by (simp add: cl_getServer_def getConnects_def)

theorem missing_count_panics_witness:
  "cl_getServer [''a:1''] [''a:1''] ((client_init 0 () :: (unit, unit) client)
     \<lparr>cl_Services := [''a:1'' \<mapsto> fresh_server ''a'' 1], cl_getConnects := getConnects (\<lambda>_. Inr None)\<rparr>) =
   Panic NilDereference"
  by (rule missing_count_panics [where s = "fresh_server ''a'' 1" and kv = "\<lambda>_. Inr None"])
    (simp_all add: fresh_server_def)

end
