(* ===== verification/Spec2Isabelle.thy ===== *)
theory Spec2Isabelle
  imports Wire Fan_Out Daemon Logs Ssh Watcher
begin

text \<open>
  A verification library for wing-binlog-go (\<^verbatim>\<open>src/src\<close>), a process that reads the binary log of a MySQL
  server as a replica and distributes every row change, as JSON, to a TCP subscribe service, to http
  urls, to a redis list and to kafka. Several processes form a cluster: one is elected leader and
  reads the log, the others follow its position. Paths below are relative to \<^verbatim>\<open>src/src\<close>.

  \<^bold>\<open>The program and the theories.\<close> The canal library calls the binlog handler with row events. The
  handler (\<^verbatim>\<open>library/binlog\<close>) decodes them, numbers them and calls \<open>SendAll\<close> of every registered service
  (\<^verbatim>\<open>services/*\<close>, interface \<^verbatim>\<open>library/service/service.go\<close>); it also broadcasts events and positions
  through the agent (\<^verbatim>\<open>library/agent\<close>). Subscribers use the client library (\<^verbatim>\<open>library/client\<close>), which finds
  the service in consul. \<^verbatim>\<open>wing-binlog-go/main.go\<close> builds and connects all this and runs a control port
  (\<^verbatim>\<open>library/control\<close>) for the commands \<open>-stop\<close>, \<open>-reload\<close> and \<open>-members\<close>.

  \<^item> \<open>Go_Base\<close>: the prelude. Results of calls (a value, a panic, or a wait that another goroutine has to
    end), loops over slices, bounds-checked indexing and slicing, strings as bytes, status words as bit
    sets (locales \<open>status_flag\<close>, \<open>flag_pair\<close>, interpreted for every status word of the program),
    little-endian integers.
  \<^item> \<open>Service\<close>: \<^verbatim>\<open>library/service/util.go\<close> (filters, \<open>Pack\<close>, \<open>Unpack\<close>). \<open>Frame_Reader\<close>: the locale of a
    component that reassembles frames from reads, with the theorem that the result does not depend on how
    the stream is cut; interpreted by the subscribe node, the control node and the client.
    \<open>Event_Sink\<close>: the locale of \<open>SendAll\<close>; interpreted by the http, redis and kafka services.
  \<^item> \<open>Net\<close>, \<open>Files\<close>, \<open>App\<close>: connections by what is written to them, numerals and their parsers; a tree
    model of the file system under \<^verbatim>\<open>library/file\<close> and \<^verbatim>\<open>library/path\<close>; \<^verbatim>\<open>library/app\<close> (configuration files,
    pid and key file, settings, context, \<open>DaemonProcess\<close> and \<open>Release\<close> of both builds).
  \<^item> \<open>Utf8\<close>, \<open>Json_Text\<close>, \<open>Json\<close>: the parts of Go's standard library the events pass through: the decoding
    and encoding of code points, JSON strings, \<open>json.Marshal\<close> and \<open>json.Unmarshal\<close> of maps.
  \<^item> \<open>Wstring\<close>, \<open>Helpers\<close>, \<open>Logs\<close>, \<open>Ssh\<close>: \<^verbatim>\<open>library/string\<close>; \<^verbatim>\<open>library/time\<close>, \<^verbatim>\<open>library/platform\<close> and
    \<^verbatim>\<open>library/ip\<close>; the log hook of \<^verbatim>\<open>library/log\<close>; \<^verbatim>\<open>library/ssh\<close>.
  \<^item> \<open>Binlog_Pos\<close>, \<open>Binlog_Field\<close>, \<open>Binlog\<close>, \<open>Binlog_Life\<close>: \<^verbatim>\<open>library/binlog\<close>. The position record, field
    decoding, the handler with its position cache and signals, and the goroutines of start, stop and
    canal as a step relation.
  \<^item> \<open>Subscribe_Node\<close>, \<open>Subscribe_Groups\<close>, \<open>Subscribe_Service\<close>: \<^verbatim>\<open>services/subscribe\<close>. One subscriber (read
    loop, send queue, sending goroutine, close), the list of subscribers as a slice over its backing
    array, and the service with its registration and connection counter in consul.
  \<^item> \<open>Http_Service\<close>, \<open>Redis_Service\<close>, \<open>Kafka_Service\<close>: the other services.
  \<^item> \<open>Client\<close>, \<open>Watcher\<close>: \<^verbatim>\<open>library/client\<close>. \<open>Control\<close>: \<^verbatim>\<open>library/control\<close>. \<open>Agent\<close>: \<^verbatim>\<open>library/agent\<close>.
  \<^item> \<open>Program\<close>: \<^verbatim>\<open>wing-binlog-go/main.go\<close> and the release of the pid file: the world of the handler as the
    product of the services, the wiring, reload, shutdown and the command line. \<open>Daemon\<close>: the two
    processes of a start with \<open>-d\<close> as a step relation.
  \<^item> \<open>Wire\<close>: events as JSON between handler, agent and client. \<open>Fan_Out\<close>: one event through all services.
  \<^item> This theory: the properties across client and service, and across command line and service.

  \<^bold>\<open>How code is represented.\<close> A struct is a record with a field per field the code reads; a method is a
  function from the receiver's record to its new value, in \<open>go\<close> when it can panic or wait. Callbacks act
  on a type parameter that stands for the rest of the process and is instantiated by the wiring.
  A nil pointer is \<open>None\<close>; using it is the panic \<open>NilDereference\<close>. Locks are held for whole operations
  except where the code releases them in between and that matters: there the operation is split into
  the steps of a relation (\<open>send_step\<close>, \<open>life_step\<close>, \<open>sub_step\<close>). A bounded channel is a list with its
  capacity; a send on a full one is \<open>Block\<close>. A goroutine is a function for one turn of its loop; what
  the environment delivers in the turn (a read, a tick, the choice of a \<open>select\<close>) is an argument. The
  order of a range over a map is an argument and the theorems hold for every order. 64-bit integers
  are words; lengths and indices are naturals or integers.

  \<^bold>\<open>What is a parameter.\<close> Regular expressions, the text of floating point numbers and \<open>ParseFloat\<close>, toml
  decoding, the MySQL canal, the consul API, the redis, kafka, http and ssh client libraries, the tcp
  and election libraries of the agent, \<open>Reborn\<close> of the daemon library, the formatting of a log entry,
  \<open>runtime.Caller\<close>, the interfaces of the host, clocks and random numbers. Where a theorem needs something
  of them it is a hypothesis (for example \<open>ints_parse\<close>: the text of a 64-bit integer is in the range of
  \<open>float64\<close>).

  \<^bold>\<open>What the lemmas show.\<close>
  \<^item> Delivery: a row event reaches every service once (\<open>rows_reach_every_service\<close>), and through the services
    every target whose filter passes the table (\<open>event_fans_out\<close>; \<open>event_delivery\<close> in every reachable state of
    the subscribe service; per service \<open>http_queues_matching\<close>, \<open>redis_pushes_matching\<close>,
    \<open>kafka_produces_matching\<close>); a subscriber's topics arrive and its rows reach its callbacks
    (\<open>subscription_arrives\<close>, \<open>send_order\<close>, \<open>rows_reach_callbacks\<close>); the workers of an http node end, with the
    queue drained (\<open>http_workers_end\<close>); followers get events and positions (\<open>event_reaches_followers\<close>,
    \<open>position_reaches_follower\<close>).
  \<^item> Events: every row of typed cells is encoded and names its table as strings (\<open>events_well_typed\<close>), what is
    encoded is decoded (\<open>json_roundtrip\<close>), integers are exact up to \<open>2 ^ 53\<close> (\<open>big_integers_collide\<close>).
  \<^item> Positions: record and cache round trips and the resumption after a restart (\<open>cache_roundtrip\<close>,
    \<open>restart_resumes\<close>); decoding of unsigned, set and enum columns.
  \<^item> Invariants: subscribers (\<open>node_invariant\<close>), the slice as a list (\<open>slice_refines_list\<close>), the connection
    counter (\<open>connects_counts_online\<close>), one canal at a time (\<open>single_runner\<close>), one process at a time
    (\<open>single_instance\<close>), one log file open (\<open>one_log_open\<close>) and no line lost (\<open>log_lines_written\<close>).
  \<^item> Helpers against reference definitions: \<open>to_int_first_number\<close>, \<open>local_first_v4\<close>.
  \<^item> Where the code does not do what it means to: \<open>close_skips_second\<close>, \<open>send_close_race\<close>, \<open>stop_flip_race\<close>,
    \<open>shutdown_position_not_saved\<close>, \<open>counter_underflow\<close>, \<open>reload_deregisters\<close>, \<open>http_reload_stalls\<close>,
    \<open>reload_command_silences_redis\<close>, \<open>kafka_reload_panics\<close>, \<open>never_reconnects\<close>, \<open>command_frees_pid\<close>,
    \<open>daemon_start_race\<close>, \<open>failed_open_drops_entries\<close>, \<open>enum_field\<close>.

  \<^bold>\<open>Bounds.\<close> The read loops terminate by the length of the buffer. Only the JSON parser uses fuel, one more
  than the length of the text; \<open>json_Unmarshal_Marshal\<close> shows that it is enough for every encoded map. The frame
  theorems ask for contents below \<open>2 ^ 32 - 2\<close> bytes, the size of the length field, and for client frames
  below \<open>2 ^ 24 - 3\<close>, where the client's own header is right; the position theorems for file names of up to
  494 bytes, the size of the buffer the cache is read into.

  \<^bold>\<open>Not modelled.\<close> The profiling port, output to the terminal, vendored packages, code that is commented out
  (most of the windows build of \<^verbatim>\<open>library/app\<close>), and the demonstration programs under \<^verbatim>\<open>examples\<close> and \<^verbatim>\<open>tests\<close>.
  Next to come: a change of leader followed through stop, start, position and events of two processes.
\<close>

section \<open>From a subscriber to the service and back\<close>

subsection \<open>Subscribing\<close>

text \<open>The topics of a list that are not known yet, each once, in order.\<close>

fun new_topics :: "string list \<Rightarrow> string list \<Rightarrow> string list" where
  "new_topics known [] = []"
| "new_topics known (t # ts) = (if t \<in> set known then new_topics known ts else t # new_topics (known @ [t]) ts)"

lemma new_topics_set: "set known \<union> set (new_topics known ts) = set known \<union> set ts"
  by (induction known ts rule: new_topics.induct) auto

lemma new_topics_subset: "set (new_topics known ts) \<subseteq> set ts"
  by (induction known ts rule: new_topics.induct) auto

lemma topic_subscribed_iff: "topic_subscribed ts t \<longleftrightarrow> t \<in> set ts"
  by (induction ts) auto

definition subscribe_one :: "('j, 'w) client \<Rightarrow> string \<Rightarrow> ('j, 'w) client" where
  "subscribe_one c t =
     (if topic_subscribed (cl_topics c) t then c
      else c\<lparr>cl_topics := cl_topics c @ [t],
             cl_node := map_option (\<lambda>n. fst (cl_write (cl_setPro t) n)) (cl_node c)\<rparr>)"

lemma cl_Subscribe_fold: "cl_node c = Some n \<Longrightarrow> cl_Subscribe ts c = foldl subscribe_one c ts"
  by (simp add: cl_Subscribe_def subscribe_one_def [abs_def])

lemma subscribe_all:
  assumes "cl_node c = Some n" and "nd_conn n = Some s" and "conn_up s"
  shows "\<exists>n' s'. cl_node (foldl subscribe_one c ts) = Some n' \<and> nd_conn n' = Some s' \<and>
    conn_out s' = conn_out s @ map cl_setPro (new_topics (cl_topics c) ts)"
  using assms
proof (induction ts arbitrary: c n s)
  case Nil
  then show ?case by simp
next
  case (Cons t ts)
  show ?case
  proof (cases "t \<in> set (cl_topics c)")
    case True
    with Cons show ?thesis by (simp add: subscribe_one_def topic_subscribed_iff)
  next
    case False
    let ?s = "s\<lparr>conn_out := conn_out s @ [cl_setPro t]\<rparr>"
    have "cl_node (subscribe_one c t) = Some (n\<lparr>nd_conn := Some ?s\<rparr>)" "cl_topics (subscribe_one c t) = cl_topics c @ [t]"
      using Cons.prems False by (simp_all add: subscribe_one_def topic_subscribed_iff cl_write_def)
    from Cons.IH [OF this(1), of ?s] this(2) Cons.prems(3) False show ?thesis by simp
  qed
qed

lemma sub_handle_setPro:
  "\<exists>n'. sub_handle um n (CMD_SET_PRO, 0 # bytes_of t) = Ret n' \<and>
     set (sn_topics n') = insert (ToLower um (trim_spaces t)) (set (sn_topics n))"
  by (auto simp: sub_handle_def sub_switch_def sub_onSetProEvent_simps FlagSetPro_def sub_onSetPro_def sub_addTopic_def
      Let_def topic_known_iff)

lemma sub_handle_topics:
  "\<exists>n'. go_foldM (sub_handle um) n (map (\<lambda>t. (CMD_SET_PRO, 0 # bytes_of t)) ts) = Ret n' \<and>
     set (sn_topics n') = set (sn_topics n) \<union> (\<lambda>t. ToLower um (trim_spaces t)) ` set ts"
proof (induction ts arbitrary: n)
  case (Cons t ts)
  obtain n1 where "sub_handle um n (CMD_SET_PRO, 0 # bytes_of t) = Ret n1"
    "set (sn_topics n1) = insert (ToLower um (trim_spaces t)) (set (sn_topics n))"
    using sub_handle_setPro by blast
  with Cons.IH [of n1] show ?case by auto
qed simp

text \<open>
  C9: A subscription arrives. What the client library writes for a list of topics, read by the service in
  any pieces, registers exactly those topics for that subscriber, trimmed and in lower case,
  besides the ones it had.
\<close>

theorem subscription_arrives:
  assumes "cl_node c = Some n" and "nd_conn n = Some s" and "conn_up s" and "conn_out s = []" and "cl_topics c = []"
    and "\<forall>t \<in> set ts. length t + 3 < 2 ^ 24"
    and "cl_node (cl_Subscribe ts c) = Some n'" and "nd_conn n' = Some s'"
    and "concat chunks = concat (conn_out s')" and "sn_recvBuf v = []"
  shows "\<exists>v'. go_foldM (sub_onMessage um) v chunks = Ret v' \<and>
    set (sn_topics v') = set (sn_topics v) \<union> (\<lambda>t. ToLower um (trim_spaces t)) ` set ts"
proof -
  let ?ts = "new_topics [] ts"
  let ?fs = "map (\<lambda>t. (CMD_SET_PRO, 0 # bytes_of t)) ?ts"
  have out: "conn_out s' = map cl_setPro ?ts"
    using subscribe_all [OF assms(1-3), of ts] cl_Subscribe_fold [OF assms(1), of ts] assms(4,5,7,8) by auto
  have short: "length t + 3 < 2 ^ 24" if "t \<in> set ?ts" for t
    using that new_topics_subset [of "[]" ts] assms(6) by blast
  have enc: "map cl_setPro ?ts = map enc_frame ?fs"
    using short by (simp add: enc_frame_def cl_setPro_Pack)
  have "\<forall>f \<in> set ?fs. sub_accepts f"
    using short by (fastforce simp: sub_accepts_def frame_fits_def CMD_SET_PRO_def)
  moreover have "concat chunks = frame_stream ?fs"
    unfolding assms(9) out enc frame_stream_def ..
  ultimately have "go_foldM (sub_onMessage um) v chunks = go_foldM (sub_handle um) v ?fs"
    using assms(10) by (intro sub_reader.reassembly_whole)
  with sub_handle_topics [of um v ?ts] new_topics_set [of "[]" ts] show ?thesis by auto
qed

subsection \<open>Receiving\<close>

lemma cl_handle_records:
  "cl_onevent c = [\<lambda>d w. Ret (w @ [d])] \<Longrightarrow> \<forall>f \<in> set fs. cl_accepts f \<Longrightarrow>
     \<exists>c'. go_foldM (cl_handle uj) c fs = Ret c' \<and>
       cl_world c' = cl_world c @ map (\<lambda>f. uj (snd f)) (filter (\<lambda>f. fst f = CMD_EVENT) fs)"
proof (induction fs arbitrary: c)
  case (Cons f fs)
  have one: "\<exists>c1. cl_handle uj c f = Ret c1 \<and> cl_onevent c1 = cl_onevent c \<and>
      cl_world c1 = cl_world c @ (if fst f = CMD_EVENT then [uj (snd f)] else [])"
    using Cons.prems by (auto simp: cl_handle_def cl_switch_def cl_accepts_def cl_hasCmd_def Let_def)
  then obtain c1 where c1: "cl_handle uj c f = Ret c1" "cl_onevent c1 = cl_onevent c"
    "cl_world c1 = cl_world c @ (if fst f = CMD_EVENT then [uj (snd f)] else [])" by blast
  with Cons.IH [of c1] Cons.prems show ?case by auto
qed simp

text \<open>
  What is queued for a subscriber reaches its callbacks, whatever the decoder.
\<close>

lemma frames_reach_client:
  assumes "has_flag (sn_status n) tcpNodeOnline" and "conn_up (sn_conn n)" and "conn_out (sn_conn n) = []"
    and "sn_sendQueue n = map enc_frame fs" and "\<forall>f \<in> set fs. cl_accepts f"
    and "cl_buffer c = []" and "cl_onevent c = [\<lambda>d w. Ret (w @ [d])]"
  shows "\<exists>n'. sub_send_run (replicate (length fs) TakeMsg) n = Ret n' \<and>
    (\<forall>chunks. concat chunks = concat (conn_out (sn_conn n')) \<longrightarrow>
      (\<exists>c'. go_foldM (cl_onMessage uj) c chunks = Ret c' \<and>
        cl_world c' = cl_world c @ map (\<lambda>f. uj (snd f)) (filter (\<lambda>f. fst f = CMD_EVENT) fs)))"
proof -
  let ?n = "n\<lparr>sn_sendQueue := [], sn_conn := (sn_conn n)\<lparr>conn_out := map enc_frame fs\<rparr>\<rparr>"
  have "sub_send_run (replicate (length fs) TakeMsg) n = Ret ?n"
    using send_run_drains [OF assms(1,2)] assms(3,4) by simp
  moreover have "\<exists>c'. go_foldM (cl_onMessage uj) c chunks = Ret c' \<and>
        cl_world c' = cl_world c @ map (\<lambda>f. uj (snd f)) (filter (\<lambda>f. fst f = CMD_EVENT) fs)"
    if "concat chunks = concat (conn_out (sn_conn ?n))" for chunks
    using cl_reader.reassembly_whole [OF assms(5,6), of chunks uj] that cl_handle_records [OF assms(7,5), of uj]
    by (simp add: frame_stream_def)
  ultimately show ?thesis by blast
qed

text \<open>
  What the client makes of the data of an event; the error of \<open>json.Unmarshal\<close> is not looked at, and the
  map is nil then. (A number beyond \<open>float64\<close>, which the encoder never writes, would leave the other
  entries in the map.)
\<close>

definition client_json :: "json_env \<Rightarrow> bytes \<Rightarrow> (string \<times> json) list" where
  "client_json je d = (case json_Unmarshal je d of Some data \<Rightarrow> data | None \<Rightarrow> [])"

lemma client_json_row:
  "json_plain je (VMap m) \<Longrightarrow> json_Marshal je (VMap m) = Some d \<Longrightarrow> client_json je d = json_map je m"
  using json_Unmarshal_Marshal [of je m] by (auto simp: client_json_def)

text \<open>
  C10: The rows queued for a subscriber reach its callbacks. The sending goroutine of an online node
  writes the whole queue; the client library, reading the written bytes in any pieces, runs its
  callback on exactly the queued rows, once each and in order, as JSON carries them.\<close>

theorem rows_reach_callbacks:
  assumes "has_flag (sn_status n) tcpNodeOnline" and "conn_up (sn_conn n)" and "conn_out (sn_conn n) = []"
    and "sn_sendQueue n = map (\<lambda>m. Pack CMD_EVENT (the (json_Marshal je (VMap m)))) rows"
    and "\<forall>m \<in> set rows. json_plain je (VMap m) \<and> length (the (json_Marshal je (VMap m))) + 2 < 2 ^ 32"
    and "cl_buffer c = []" and "cl_onevent c = [\<lambda>d w. Ret (w @ [d])]"
  shows "\<exists>n'. sub_send_run (replicate (length rows) TakeMsg) n = Ret n' \<and>
    (\<forall>chunks. concat chunks = concat (conn_out (sn_conn n')) \<longrightarrow>
      (\<exists>c'. go_foldM (cl_onMessage (client_json je)) c chunks = Ret c' \<and>
        cl_world c' = cl_world c @ map (json_map je) rows))"
proof -
  let ?fs = "map (\<lambda>m. (CMD_EVENT, the (json_Marshal je (VMap m)))) rows"
  have q: "sn_sendQueue n = map enc_frame ?fs" using assms(4) by (simp add: enc_frame_def comp_def)
  have acc: "\<forall>f \<in> set ?fs. cl_accepts f"
    using assms(5) by (auto simp: cl_accepts_def cl_hasCmd_def frame_fits_def cmd_defs)
  have data: "map (\<lambda>f. client_json je (snd f)) (filter (\<lambda>f. fst f = CMD_EVENT) ?fs) = map (json_map je) rows"
  proof -
    have "client_json je (the (json_Marshal je (VMap m))) = json_map je m" if "m \<in> set rows" for m
      using assms(5) that json_Unmarshal_Marshal [of je m] by (auto simp: client_json_def)
    then show ?thesis by (simp add: filter_map comp_def)
  qed
  from frames_reach_client [OF assms(1-3) q acc assms(6,7), of "client_json je"] show ?thesis
    by (simp only: data length_map)
qed

theorem subscription_arrives_witness:
  "\<exists>v'. go_foldM (sub_onMessage id) (sub_newNode 0 new_conn () []) [cl_setPro ''Test.A'', cl_setPro ''db.b''] = Ret v' \<and>
     set (sn_topics v') = {''test.a'', ''db.b''}"
proof -
  let ?s = "new_conn"
  let ?c = "(client_init 0 ())\<lparr>cl_node := Some \<lparr>nd_conn = Some ?s, nd_status = nodeOnline\<rparr>\<rparr> :: (unit, unit) client"
  let ?ts = "[''Test.A'', ''db.b'']"
  have unwritten: "conn_out new_conn = []" by (simp add: new_conn_def)
  obtain n' s' where n': "cl_node (cl_Subscribe ?ts ?c) = Some n'" "nd_conn n' = Some s'"
    "conn_out s' = [cl_setPro ''Test.A'', cl_setPro ''db.b'']"
  proof -
    have c: "cl_node ?c = Some \<lparr>nd_conn = Some ?s, nd_status = nodeOnline\<rparr>" "cl_topics ?c = []"
      by (simp_all add: client_init_def)
    have "conn_out new_conn @ map cl_setPro (new_topics (cl_topics ?c) ?ts) = [cl_setPro ''Test.A'', cl_setPro ''db.b'']"
      using c(2) by (simp add: unwritten)
    with subscribe_all [OF c(1), of ?s ?ts] obtain n' s' where "cl_node (foldl subscribe_one ?c ?ts) = Some n'"
      "nd_conn n' = Some s'" "conn_out s' = [cl_setPro ''Test.A'', cl_setPro ''db.b'']" by fastforce
    then show thesis by (intro that [of n' s']) (simp_all only: cl_Subscribe_fold [OF c(1)])
  qed
  have "\<exists>v'. go_foldM (sub_onMessage id) (sub_newNode 0 new_conn () []) [cl_setPro ''Test.A'', cl_setPro ''db.b''] = Ret v' \<and>
     set (sn_topics v') = set (sn_topics (sub_newNode 0 new_conn () [])) \<union> (\<lambda>t. ToLower id (trim_spaces t)) ` set ?ts"
    by (rule subscription_arrives [where s = new_conn, OF _ _ _ _ _ _ n'(1,2)]) (simp_all add: client_init_def n'(3) sub_newNode_def unwritten, simp_all)
  moreover have "ToLower id (trim_spaces ''Test.A'') = ''test.a''" "ToLower id (trim_spaces ''db.b'') = ''db.b''"
    by (simp_all add: ToLower_def trim_spaces_def ascii_lower_def) (simp add: char_of_def bit_0)
  ultimately show ?thesis by (simp add: sub_newNode_def)
qed

theorem rows_reach_callbacks_witness:
  "\<exists>n'. sub_send_run [TakeMsg]
      ((sub_newNode 0 new_conn () [])\<lparr>sn_sendQueue := [Pack CMD_EVENT (the (json_Marshal int_env (VMap demo_event)))]\<rparr>) = Ret n' \<and>
    (\<exists>c'. go_foldM (cl_onMessage (client_json int_env)) ((client_init 0 [])\<lparr>cl_onevent := [\<lambda>d w. Ret (w @ [d])]\<rparr>)
        (conn_out (sn_conn n')) = Ret c' \<and> cl_world c' = [json_map int_env demo_event])"
proof -
  let ?n = "(sub_newNode 0 new_conn () [])\<lparr>sn_sendQueue := [Pack CMD_EVENT (the (json_Marshal int_env (VMap demo_event)))]\<rparr>"
  let ?c = "(client_init 0 [])\<lparr>cl_onevent := [\<lambda>d w. Ret (w @ [d])]\<rparr>"
  have on: "has_flag (sn_status ?n) tcpNodeOnline" using sub_online.set_has [of 0] by (simp add: sub_newNode_def)
  have up: "conn_up (sn_conn ?n)" by (simp add: sub_newNode_def)
  have out: "conn_out (sn_conn ?n) = []" by (simp add: sub_newNode_def new_conn_def)
  have "json_plain int_env (VMap demo_event)" by (simp add: demo_event_def)
  then have rows: "\<forall>m \<in> set [demo_event]. json_plain int_env (VMap m) \<and> length (the (json_Marshal int_env (VMap m))) + 2 < 2 ^ 32"
    by (simp add: demo_event_marshal)
  have c: "cl_buffer ?c = []" "cl_onevent ?c = [\<lambda>d w. Ret (w @ [d])]" "cl_world ?c = []" by (simp_all add: client_init_def)
  have "\<exists>n'. sub_send_run (replicate (length [demo_event]) TakeMsg) ?n = Ret n' \<and>
    (\<forall>chunks. concat chunks = concat (conn_out (sn_conn n')) \<longrightarrow>
      (\<exists>c'. go_foldM (cl_onMessage (client_json int_env)) ?c chunks = Ret c' \<and>
        cl_world c' = cl_world ?c @ map (json_map int_env) [demo_event]))"
    by (rule rows_reach_callbacks [OF on up out _ rows c(1,2)]) simp
  then show ?thesis by (fastforce simp: c(3))
qed

section \<open>From the command line to a service\<close>

lemma main_control_cb:
  assumes "main_control me hostname members now rnd cfg env fs = Ret (fs', tcp)"
  shows "cb_reload (cs_cb tcp) =
    Some (\<lambda>name (ctx, a, h). go_bind (main_reload me name (bl_world h)) (\<lambda>w. Ret (ctx, a, h\<lparr>bl_world := w\<rparr>)))"
  using assms by (auto simp: main_control_def NewControl_def ctl_ShowMember_def ctl_Reload_def ctl_Stop_def)

lemma ctl_newNode_fields:
  "cn_recvBuf (ctl_newNode c w [ctl_nodeStop a, ctl_nodeReload b, ctl_nodeShowMembers d]) = []"
  "cn_conn (ctl_newNode c w [ctl_nodeStop a, ctl_nodeReload b, ctl_nodeShowMembers d]) = c"
  "cn_world (ctl_newNode c w [ctl_nodeStop a, ctl_nodeReload b, ctl_nodeShowMembers d]) = w"
  "cb_reload (cn_cb (ctl_newNode c w [ctl_nodeStop a, ctl_nodeReload b, ctl_nodeShowMembers d])) = b"
  "has_flag (cn_status (ctl_newNode c w [ctl_nodeStop a, ctl_nodeReload b, ctl_nodeShowMembers d])) ctl_nodeOnline"
  using ctl_online.set_has [of 0]
  by (simp_all add: ctl_newNode_def ctl_nodeStop_def ctl_nodeReload_def ctl_nodeShowMembers_def)

lemma runCmd_reload:
  assumes "runCmd dial reply (Inr cfg) f = Ret (SentReload c)" and "dial (ac_ControlListen cfg) = Some new_conn"
    and "cf_reload f = name"
  shows "conn_out c = [Pack CTL_RELOAD (bytes_of name)]"
  using assms
  by (auto simp: runCmd_def ctl_NewClient_def ctl_client_Close_def ctl_client_Reload_def ctl_client_Stop_def
      ctl_client_ShowMembers_def new_conn_def conn_write_def split: if_splits)

text \<open>
  C32: \<open>wing-binlog-go -reload redis\<close> stops the events to redis. The bytes the command writes, read by the
  control port of the running service in any pieces, reload the redis service, are answered with
  \<open>ok\<close>, and from then on no event is pushed to redis, although the configuration enables it.
\<close>

theorem reload_command_silences_redis:
  assumes "main_control me hostname members now rnd cfg env fs = Ret (fs', tcp)"
    and "runCmd dial reply (Inr acfg) f = Ret (SentReload c)" and "cf_reload f = ''redis''"
    and "dial (ac_ControlListen acfg) = Some new_conn" and "concat chunks = concat (conn_out c)"
    and "redis_ready (pg_redis (bl_world h))" and "me_redis me = Inr config" and "rc_Enable config"
  shows "\<exists>n' h'. go_foldM ctl_onMessage (ctl_newNode new_conn (ctx, a, h)
        [ctl_nodeStop (cb_stop (cs_cb tcp)), ctl_nodeReload (cb_reload (cs_cb tcp)), ctl_nodeShowMembers (cb_showmember (cs_cb tcp))])
      chunks = Ret n' \<and>
    conn_out (cn_conn n') = [Pack CTL_RELOAD (bytes_of ''ok'')] \<and> cn_world n' = (ctx, a, h') \<and>
    redis_SendAll rx table data (pg_redis (bl_world h')) = Ret (pg_redis (bl_world h'), False)"
proof -
  let ?n = "ctl_newNode new_conn (ctx, a, h) [ctl_nodeStop (cb_stop (cs_cb tcp)), ctl_nodeReload (cb_reload (cs_cb tcp)),
    ctl_nodeShowMembers (cb_showmember (cs_cb tcp))]"
  obtain r where r: "redis_Reload (Inr config) (pg_redis (bl_world h)) = Ret r"
    using assms(6,8) by (auto simp: redis_ready_def redis_Reload_def redis_Close_def nil_check_def lock_check_def Let_def)
  let ?h = "h\<lparr>bl_world := (bl_world h)\<lparr>pg_redis := r\<rparr>\<rparr>"
  have reload: "main_reload me ''redis'' (bl_world h) = Ret ((bl_world h)\<lparr>pg_redis := r\<rparr>)"
    using r assms(7) by (simp add: reload_names redis_if_def)
  have "conn_out c = [Pack CTL_RELOAD (bytes_of ''redis'')]"
    using runCmd_reload [OF assms(2,4,3)] .
  then have "conn_out (ctl_client_Reload new_conn ''redis'') = [concat chunks]"
    using assms(5) by (simp add: ctl_client_Reload_def) (simp add: new_conn_def)
  then have "go_foldM ctl_onMessage ?n chunks = Ret (?n\<lparr>cn_world := (ctx, a, ?h), cn_conn := (cn_conn ?n)\<lparr>conn_out :=
      conn_out (cn_conn ?n) @ [Pack CTL_RELOAD (bytes_of ''ok'')]\<rparr>\<rparr>)"
    using main_control_cb [OF assms(1)] reload
    by (intro control_reload_run [where c = new_conn and name = "''redis''" and
        f = "\<lambda>name (ctx, a, h). go_bind (main_reload me name (bl_world h)) (\<lambda>w. Ret (ctx, a, h\<lparr>bl_world := w\<rparr>))"])
      (simp_all add: ctl_newNode_fields, simp_all add: new_conn_def)
  moreover have "redis_SendAll rx table data r = Ret (r, False)"
    using redis_after_reload [OF assms(6) r] assms(8) by (auto simp: redis_SendAll_def nil_check_def lock_check_def)
  ultimately show ?thesis by (auto simp: ctl_newNode_fields) (simp_all add: new_conn_def)
qed

definition demo_token_fs :: file_system where
  "demo_token_fs = \<lparr>fs_tree = [[''c''] \<mapsto> FDir, [''c'', ''token''] \<mapsto> FFile (bytes_of ''key'')], fs_cwd = [],
     fs_deny = (\<lambda>_. False)\<rparr>"

lemma demo_token: "GetKey now rnd (ev_CachePath demo_env @ ''/token'') demo_token_fs = Ret (demo_token_fs, ''key'')"
proof -
  have "os_Stat demo_token_fs ''/c/token'' = Some (FFile (bytes_of ''key''))"
    by (simp add: os_Stat_def fs_node_def resolve_def demo_token_fs_def)
  then show ?thesis by (simp add: GetKey_def demo_env_def file_Exists_def file_Read_def Let_def)
qed

definition demo_reload :: cmd_flags where
  "demo_reload = (demo_flags False)\<lparr>cf_reload := ''redis''\<rparr>"

theorem reload_command_silences_redis_witness:
  "\<exists>tcp c (n' :: unit process ctl_node) ctx a h'. main_control ((demo_me True)\<lparr>me_redis := Inr demo_redis_config\<rparr>) None None 0 (\<lambda>_. 0) (Inr demo_app_config) demo_env
       demo_token_fs = Ret (demo_token_fs, tcp :: unit process ctl_service) \<and>
     runCmd (\<lambda>_. Some new_conn) [] (Inr demo_app_config) demo_reload = Ret (SentReload c) \<and>
     conn_out (cn_conn n') = [Pack CTL_RELOAD (bytes_of ''ok'')] \<and>
     redis_SendAll (\<lambda>_ _. Some True) ''db.t'' [1] (pg_redis (bl_world (h' :: unit program binlog))) =
       Ret (pg_redis (bl_world h'), False) \<and> cn_world n' = (ctx, a, h')"
proof -
  define ctx where "ctx = \<lparr>cx_cancelled = False, cx_waiting = 0, cx_received = False, cx_MysqlConfig = Inr demo_config,
    cx_AppConfig = Inr demo_app_config\<rparr>"
  let ?me = "(demo_me True)\<lparr>me_redis := Inr demo_redis_config\<rparr>"
  obtain tcp :: "unit process ctl_service" where tcp: "main_control ?me None None 0 (\<lambda>_. 0) (Inr demo_app_config) demo_env
      demo_token_fs = Ret (demo_token_fs, tcp)"
    by (simp add: main_control_def NewControl_def demo_token)
  obtain c where c: "runCmd (\<lambda>_. Some new_conn) [] (Inr demo_app_config) demo_reload = Ret (SentReload c)"
    by (simp add: runCmd_def demo_reload_def demo_flags_def ctl_NewClient_def)
  obtain fs a h0 where "demo_build True = Ret (fs, a, h0)" using demo_build_returns by blast
  define h where "h = h0\<lparr>bl_world := (bl_world h0)\<lparr>pg_redis := NewRedis (Inr demo_redis_config)\<rparr>\<rparr>"
  have ready: "redis_ready (pg_redis (bl_world h))" by (simp add: h_def demo_redis_ready)
  have reload: "cf_reload demo_reload = ''redis''" by (simp add: demo_reload_def)
  have "me_redis ?me = Inr demo_redis_config" "rc_Enable demo_redis_config" by (simp_all add: demo_redis_config_def)
  from reload_command_silences_redis [where rx = "\<lambda>_ _. Some True" and table = "''db.t''" and data = "[1]" and ctx = ctx and a = a,
      OF tcp c reload refl refl ready this]
  obtain n' :: "unit process ctl_node" and h' :: "unit program binlog" where
    "conn_out (cn_conn n') = [Pack CTL_RELOAD (bytes_of ''ok'')]" "cn_world n' = (ctx, a, h')"
    "redis_SendAll (\<lambda>_ _. Some True) ''db.t'' [1] (pg_redis (bl_world h')) = Ret (pg_redis (bl_world h'), False)"
    by blast
  with tcp c show ?thesis by blast
qed

end
